(* ===== verification/Gateway_Prelude.thy ===== *)
theory Gateway_Prelude
  imports Main "HOL-Library.Word" "HOL-Library.Multiset" "HOL-Library.AList"
begin

text \<open>
  Shared vocabulary of the development: Go's machine integers, Go errors and the three ways a
  Go call can end (a value, an error, a panic), state-passing sequencing, Go's \<open>sync.Map\<close> and
  \<open>map\<close> types with the interface locale every cache proof uses, and generic list lemmas.
\<close>

subsection \<open>Machine integers\<close>

type_synonym u8 = "8 word"
type_synonym u32 = "32 word"
type_synonym u64 = "64 word"

text \<open>The largest \<open>uint64\<close>.\<close>

abbreviation max_u64 :: u64 where
  "max_u64 \<equiv> - 1"

lemma unat_Suc_u64 [simp]: "x \<noteq> max_u64 \<Longrightarrow> unat (x + 1 :: u64) = Suc (unat x)"
  by (metis add.commute add_eq_0_iff add_0 unatSuc)

lemma u64_less_max: "(i :: u64) < e \<Longrightarrow> i \<noteq> max_u64"
  by (metis linorder_not_le max_word_max)

lemma u64_le_less_max: "(i :: u64) \<le> e \<Longrightarrow> e \<noteq> max_u64 \<Longrightarrow> i \<noteq> max_u64"
  by (metis max_word_max order_antisym)

lemma ucast_u8_u64:
  assumes "w < 256"
  shows "ucast (ucast w :: u8) = (w :: u64)"
proof -
  have "w mod 256 = w"
    by (rule unsigned_word_eqI [where ?'a = nat]) (use assms in \<open>simp add: unat_mod word_less_nat_alt\<close>)
  then show ?thesis by (simp add: word_eq_iff_unsigned unsigned_ucast_eq take_bit_eq_mod unsigned_take_bit_eq)
qed

subsection \<open>Errors and outcomes\<close>

text \<open>
  The sentinel errors of the program, the errors of packages outside the repository
  (\<open>ErrExt\<close>, with the value the package chose), \<open>errors.New\<close>/\<open>fmt.Errorf\<close> without a
  wrapped error, \<open>fmt.Errorf\<close> with \<open>%w\<close>, and the revert error of \<^verbatim>\<open>rpc/eth\<close> with its reason.
\<close>

datatype gerror =
    ErrNoRows
  | ErrNoRoundsIndexed
  | ErrGetLastRetainedRound
  | ErrNotHealthy
  | ErrInternalError
  | ErrIndexOutOfRange
  | ErrMalformedTransaction
  | ErrMalformedBlockNumber
  | ErrInvalidRequest
  | ErrInvalidPercentile
  | ErrServerStopped
  | ErrServerRunning
  | ErrCanceled
  | ErrExt string
  | Errorf string
  | Wrapf string gerror
  | RevertError gerror string

text \<open>\<open>errors.Is\<close> for a comparable target: the error itself or anything it wraps.\<close>

fun errors_Is :: "gerror \<Rightarrow> gerror \<Rightarrow> bool" where
  "errors_Is (Wrapf s e) t = (Wrapf s e = t \<or> errors_Is e t)"
| "errors_Is e t = (e = t)"

datatype 'a outcome = Ok 'a | Err gerror | Panic string

text \<open>A state-passing call, and the sequencing that stops at the first error or panic.\<close>

type_synonym ('s, 'a) call = "'s \<Rightarrow> 'a outcome \<times> 's"

fun and_then :: "('s, 'a) call \<Rightarrow> ('a \<Rightarrow> ('s, 'b) call) \<Rightarrow> ('s, 'b) call" where
  "and_then m f s = (case m s of
       (Ok x, s') \<Rightarrow> f x s'
     | (Err e, s') \<Rightarrow> (Err e, s')
     | (Panic p, s') \<Rightarrow> (Panic p, s'))"

definition ret :: "'a \<Rightarrow> ('s, 'a) call" where
  "ret x s = (Ok x, s)"

text \<open>A loop body run over a list, stopping at the first error.\<close>

primrec for_each :: "('a \<Rightarrow> ('s, unit) call) \<Rightarrow> 'a list \<Rightarrow> ('s, unit) call" where
  "for_each f [] = ret ()"
| "for_each f (x # xs) = and_then (f x) (\<lambda>_. for_each f xs)"

lemma and_then_Ok_iff:
  "and_then m f s = (Ok y, t) \<longleftrightarrow> (\<exists>x s'. m s = (Ok x, s') \<and> f x s' = (Ok y, t))"
  by (auto split: prod.splits outcome.splits)

lemma ret_Ok_iff [simp]: "ret x s = (Ok y, t) \<longleftrightarrow> y = x \<and> t = s"
  by (auto simp: ret_def)

text \<open>An invariant kept by every iteration is kept by the whole loop, however it ends.\<close>

lemma for_each_invariant:
  assumes "\<And>x s r s'. x \<in> set xs \<Longrightarrow> P s \<Longrightarrow> f x s = (r, s') \<Longrightarrow> P s'"
    and "P s" and "for_each f xs s = (r, s')"
  shows "P s'"
  using assms
proof (induction xs arbitrary: s)
  case Nil
  then show ?case by (simp add: ret_def)
next
  case (Cons x xs)
  obtain r1 s1 where step: "f x s = (r1, s1)" by (cases "f x s")
  with Cons.prems(1) [of x s r1 s1] Cons.prems(2) have "P s1" by simp
  with Cons.IH [of s1] Cons.prems(1,3) step show ?case
    by (cases r1) auto
qed

text \<open>A call that may not return (\<open>None\<close>), and its sequencing.\<close>

type_synonym ('s, 'a) pcall = "'s \<Rightarrow> ('a outcome \<times> 's) option"

definition p_then :: "('s, 'a) pcall \<Rightarrow> ('a \<Rightarrow> ('s, 'b) pcall) \<Rightarrow> ('s, 'b) pcall" where
  "p_then m f s = (case m s of
       None \<Rightarrow> None
     | Some (Ok y, s') \<Rightarrow> f y s'
     | Some (Err e, s') \<Rightarrow> Some (Err e, s')
     | Some (Panic p, s') \<Rightarrow> Some (Panic p, s'))"

definition p_ret :: "'a \<Rightarrow> ('s, 'a) pcall" where
  "p_ret y s = Some (Ok y, s)"

definition p_fail :: "gerror \<Rightarrow> ('s, 'a) pcall" where
  "p_fail e s = Some (Err e, s)"

definition total :: "('s, 'a) call \<Rightarrow> ('s, 'a) pcall" where
  "total f s = Some (f s)"

subsection \<open>Go maps\<close>

text \<open>The first match of a search through an appended list.\<close>

lemma find_append: "find P (xs @ ys) = (case find P xs of Some x \<Rightarrow> Some x | None \<Rightarrow> find P ys)"
  by (induction xs) auto

text \<open>
  The interface of \<open>map\<close> and \<open>sync.Map\<close> the program uses: load, store, delete and the
  enumeration of the keys (\<open>Range\<close>, in an order the language leaves open).
\<close>

locale kv_map =
  fixes load :: "'m \<Rightarrow> 'k \<Rightarrow> 'v option"
    and store :: "'k \<Rightarrow> 'v \<Rightarrow> 'm \<Rightarrow> 'm"
    and delete :: "'k \<Rightarrow> 'm \<Rightarrow> 'm"
    and keys :: "'m \<Rightarrow> 'k list"
  assumes load_store: "load (store k v m) k' = (if k' = k then Some v else load m k')"
    and load_delete: "load (delete k m) k' = (if k' = k then None else load m k')"
    and keys_load: "k \<in> set (keys m) \<longleftrightarrow> load m k \<noteq> None"
    and keys_distinct: "distinct (keys m)"
begin

text \<open>Storing a list of entries: the last entry stored under a key is the one loaded.\<close>

lemma load_fold_store:
  "load (fold (\<lambda>x. store (kf x) (vf x)) xs m) k =
     (case find (\<lambda>x. kf x = k) (rev xs) of Some x \<Rightarrow> Some (vf x) | None \<Rightarrow> load m k)"
proof (induction xs arbitrary: m)
  case Nil
  then show ?case by simp
next
  case (Cons x xs)
  then show ?case by (auto simp: load_store find_append split: option.splits)
qed

text \<open>Deleting the listed keys whose current entry satisfies a condition.\<close>

lemma load_fold_evict:
  "load (fold (\<lambda>x m. case load m (kf x) of
              Some e \<Rightarrow> if P e then delete (kf x) m else m | None \<Rightarrow> m) xs m) k =
     (case load m k of
        Some e \<Rightarrow> if k \<in> kf ` set xs \<and> P e then None else Some e
      | None \<Rightarrow> None)"
  by (induction xs arbitrary: m) (auto simp: load_delete split: option.splits)

lemma set_keys_store: "set (keys (store k v m)) = insert k (set (keys m))"
  by (auto simp: keys_load load_store split: if_splits)

lemma set_keys_delete: "set (keys (delete k m)) = set (keys m) - {k}"
  by (auto simp: keys_load load_delete split: if_splits)

lemma length_keys_store:
  "length (keys (store k v m)) = (if load m k = None then Suc (length (keys m)) else length (keys m))"
proof -
  have "length (keys m') = card (set (keys m'))" for m'
    by (simp add: distinct_card keys_distinct)
  then show ?thesis
    by (simp add: set_keys_store card_insert_if keys_load)
qed

lemma length_keys_delete:
  "length (keys (delete k m)) = (if load m k = None then length (keys m) else length (keys m) - 1)"
proof -
  have "length (keys m') = card (set (keys m'))" for m'
    by (simp add: distinct_card keys_distinct)
  then show ?thesis
    by (simp add: set_keys_delete card_Diff_singleton_if keys_load)
qed

end

text \<open>The model of the map types: association lists, the first binding of a key counts.\<close>

type_synonym ('k, 'v) gomap = "('k \<times> 'v) list"

definition gm_load :: "('k, 'v) gomap \<Rightarrow> 'k \<Rightarrow> 'v option" where
  "gm_load m k = map_of m k"

definition gm_store :: "'k \<Rightarrow> 'v \<Rightarrow> ('k, 'v) gomap \<Rightarrow> ('k, 'v) gomap" where
  "gm_store k v m = AList.update k v m"

definition gm_delete :: "'k \<Rightarrow> ('k, 'v) gomap \<Rightarrow> ('k, 'v) gomap" where
  "gm_delete k m = AList.delete k m"

definition gm_keys :: "('k, 'v) gomap \<Rightarrow> 'k list" where
  "gm_keys m = remdups (map fst m)"

lemmas gm_defs = gm_load_def gm_store_def gm_delete_def gm_keys_def

interpretation gm: kv_map gm_load gm_store gm_delete gm_keys
proof unfold_locales
  fix k k' :: 'k and v :: 'v and m :: "('k, 'v) gomap"
  show "gm_load (gm_store k v m) k' = (if k' = k then Some v else gm_load m k')"
    by (simp add: gm_defs update_conv')
  show "gm_load (gm_delete k m) k' = (if k' = k then None else gm_load m k')"
    by (simp add: gm_defs delete_conv')
  show "k \<in> set (gm_keys m) \<longleftrightarrow> gm_load m k \<noteq> None"
    by (simp add: gm_defs map_of_eq_None_iff)
  show "distinct (gm_keys m)"
    by (simp add: gm_defs)
qed

lemmas gm_simps [simp] = gm.load_store gm.load_delete

lemma gm_load_Nil [simp]: "gm_load [] k = None"
  by (simp add: gm_load_def)

lemma gm_keys_Nil [simp]: "gm_keys [] = []"
  by (simp add: gm_keys_def)

subsection \<open>Lists\<close>

text \<open>Go's \<open>s[i]\<close> with an \<open>int\<close> index: out of range is a panic, here \<open>None\<close>.\<close>

definition index_at :: "'a list \<Rightarrow> int \<Rightarrow> 'a option" where
  "index_at xs i = (if 0 \<le> i \<and> i < int (length xs) then Some (xs ! nat i) else None)"

lemma index_at_Some_iff: "index_at xs i = Some x \<longleftrightarrow> 0 \<le> i \<and> i < int (length xs) \<and> x = xs ! nat i"
  by (auto simp: index_at_def)

lemma find_rev_mem: "find P (rev xs) = Some x \<Longrightarrow> x \<in> set xs \<and> P x"
  by (induction xs rule: rev_induct) (auto split: if_splits)

lemma find_rev_None: "find P (rev xs) = None \<longleftrightarrow> (\<forall>x \<in> set xs. \<not> P x)"
  by (auto simp: find_None_iff)

end
