(* ===== verification/Base64.thy ===== *)
theory Base64
  imports Gateway_Prelude
begin

text \<open>
  Go's \<^verbatim>\<open>encoding/base64\<close> as the revert errors use it: the standard encoding with padding. Decoding ignores carriage returns and line feeds and fails on any other
  character outside the alphabet, on wrong padding and on trailing data.
\<close>

definition b64_alphabet :: string where
  "b64_alphabet = ''ABCDEFGHIJKLMNOPQRSTUVWXYZabcdefghijklmnopqrstuvwxyz0123456789+/''"

definition b64_char :: "nat \<Rightarrow> char" where
  "b64_char i = b64_alphabet ! i"

definition b64_val :: "char \<Rightarrow> nat option" where
  "b64_val c = map_option fst (find (\<lambda>(i, d). d = c) (enumerate 0 b64_alphabet))"

fun b64_encode :: "u8 list \<Rightarrow> string" where
  "b64_encode [] = []"
| "b64_encode [a] = (let n = unat a in [b64_char (n div 4), b64_char (16 * (n mod 4)), CHR ''='', CHR ''=''])"
| "b64_encode [a, b] = (let n = 256 * unat a + unat b in
     [b64_char (n div 1024), b64_char (n div 16 mod 64), b64_char (4 * (n mod 16)), CHR ''=''])"
| "b64_encode (a # b # c # bs) = (let n = 65536 * unat a + 256 * unat b + unat c in
     [b64_char (n div 262144), b64_char (n div 4096 mod 64), b64_char (n div 64 mod 64), b64_char (n mod 64)] @ b64_encode bs)"

fun b64_quads :: "string \<Rightarrow> u8 list option" where
  "b64_quads [] = Some []"
| "b64_quads (p # q # r # s # cs) =
     (case (b64_val p, b64_val q) of
        (Some i, Some j) \<Rightarrow>
          (if r = CHR ''='' then
             (if s = CHR ''='' \<and> cs = [] then Some [word_of_nat ((64 * i + j) div 16)] else None)
           else case b64_val r of
             None \<Rightarrow> None
           | Some k \<Rightarrow>
              (if s = CHR ''='' then
                 (if cs = [] then (let n = 4096 * i + 64 * j + k in
                    Some [word_of_nat (n div 1024), word_of_nat (n div 4 mod 256)]) else None)
               else case b64_val s of
                 None \<Rightarrow> None
               | Some l \<Rightarrow> (let n = 262144 * i + 4096 * j + 64 * k + l in
                   map_option (\<lambda>bs. [word_of_nat (n div 65536), word_of_nat (n div 256 mod 256), word_of_nat (n mod 256)] @ bs)
                     (b64_quads cs))))
      | _ \<Rightarrow> None)"
| "b64_quads cs = None"

definition base64_DecodeString :: "string \<Rightarrow> u8 list option" where
  "base64_DecodeString s = b64_quads (filter (\<lambda>c. c \<noteq> char_of (10 :: nat) \<and> c \<noteq> char_of (13 :: nat)) s)"

lemma b64_alphabet_props:
  "distinct b64_alphabet" "length b64_alphabet = 64" "CHR ''='' \<notin> set b64_alphabet"
  "char_of (10 :: nat) \<notin> set b64_alphabet" "char_of (13 :: nat) \<notin> set b64_alphabet"
  by code_simp+

lemma b64_char_mem: "i < 64 \<Longrightarrow> b64_char i \<in> set b64_alphabet"
  by (simp add: b64_char_def b64_alphabet_props(2))

lemma b64_val_char [simp]: "i < 64 \<Longrightarrow> b64_val (b64_char i) = Some i"
proof -
  assume i: "i < 64"
  have "find (\<lambda>(k, d). d = b64_char i) (enumerate 0 b64_alphabet) = Some (i, b64_char i)"
    using i b64_alphabet_props(1,2)
    by (auto simp: find_Some_iff nth_enumerate_eq b64_char_def nth_eq_iff_index_eq intro!: exI [of _ i])
  then show ?thesis by (simp add: b64_val_def)
qed

lemma b64_char_not_eq [simp]: "i < 64 \<Longrightarrow> b64_char i \<noteq> CHR ''=''"
  using b64_char_mem b64_alphabet_props(3) by metis

lemma u8_lt: "unat (a :: u8) < 256"
  using unsigned_less [of a, where ?'a = nat] by simp

lemma base_64_digits:
  "262144 * (n div 262144) + 4096 * (n div 4096 mod 64) + 64 * (n div 64 mod 64) + n mod 64 = (n :: nat)"
proof -
  have "n div 64 div 64 = n div 4096" "n div 4096 div 64 = n div 262144" by (simp_all flip: div_mult2_eq)
  with div_mult_mod_eq [of n 64] div_mult_mod_eq [of "n div 64" 64] div_mult_mod_eq [of "n div 4096" 64]
  show ?thesis by linarith
qed

lemma b64_three:
  assumes "a < 256" "b < 256" "c < 256" and "n = 65536 * a + 256 * b + (c :: nat)"
  shows "n div 262144 < 64" and "n div 65536 = a" and "n div 256 mod 256 = b" and "n mod 256 = c"
proof -
  show "n div 262144 < 64" using assms by (intro less_mult_imp_div_less) simp
  show "n div 65536 = a" using assms by (intro div_nat_eqI) simp_all
  have "n div 256 = 256 * a + b" using assms by (intro div_nat_eqI) simp_all
  then show "n div 256 mod 256 = b" using assms(2) by simp
  have n: "n = 256 * (256 * a + b) + c" using assms(4) by simp
  show "n mod 256 = c" unfolding n mod_mult_self4 using assms(3) by simp
qed

lemma b64_two:
  assumes "a < 256" "b < 256" and "n = 256 * a + (b :: nat)"
  shows "n div 1024 < 64" and "4 * (n mod 16) < 64"
    and "4096 * (n div 1024) + 64 * (n div 16 mod 64) + 4 * (n mod 16) = 4 * n"
    and "4 * n div 1024 = a" and "4 * n div 4 mod 256 = b"
proof -
  show "n div 1024 < 64" using assms by (intro less_mult_imp_div_less) simp
  show "4 * (n mod 16) < 64" by simp
  have "n div 16 div 64 = n div 1024" by (simp flip: div_mult2_eq)
  with div_mult_mod_eq [of n 16] div_mult_mod_eq [of "n div 16" 64]
  show "4096 * (n div 1024) + 64 * (n div 16 mod 64) + 4 * (n mod 16) = 4 * n" by linarith
  show "4 * n div 1024 = a" using assms by (intro div_nat_eqI) simp_all
  show "4 * n div 4 mod 256 = b" using assms by simp
qed

lemma b64_one:
  assumes "a < 256"
  shows "a div 4 < (64 :: nat)" and "16 * (a mod 4) < 64" and "(64 * (a div 4) + 16 * (a mod 4)) div 16 = a"
proof -
  show "a div 4 < 64" using assms by (intro less_mult_imp_div_less) simp
  show "16 * (a mod 4) < 64" by simp
  have "64 * (a div 4) + 16 * (a mod 4) = 16 * a" using div_mult_mod_eq [of a 4] by linarith
  then show "(64 * (a div 4) + 16 * (a mod 4)) div 16 = a" by simp
qed

lemma b64_quads_encode: "b64_quads (b64_encode bs) = Some bs"
proof (induction bs rule: b64_encode.induct)
  case (2 a)
  from b64_one [OF u8_lt [of a]] show ?case unfolding b64_encode.simps Let_def by simp
next
  case (3 a b)
  note t = b64_two [OF u8_lt u8_lt refl, of a b]
  then show ?case unfolding b64_encode.simps Let_def
    by (simp only: b64_quads.simps b64_val_char b64_char_not_eq mod_less_divisor Let_def) simp
next
  case (4 a b c bs)
  define n where "n = 65536 * unat a + 256 * unat b + unat c"
  note t = b64_three [OF u8_lt u8_lt u8_lt n_def]
  from 4 t show ?case unfolding b64_encode.simps Let_def append.simps n_def [symmetric]
    by (simp add: base_64_digits)
qed simp

lemma b64_encode_chars: "c \<in> set (b64_encode bs) \<Longrightarrow> c = CHR ''='' \<or> c \<in> set b64_alphabet"
proof (induction bs rule: b64_encode.induct)
  case (2 a)
  with b64_one [OF u8_lt [of a]] show ?case by (auto simp: Let_def b64_char_mem)
next
  case (3 a b)
  with b64_two [OF u8_lt u8_lt refl, of a b] show ?case by (auto simp: Let_def b64_char_mem)
next
  case (4 a b c bs)
  with b64_three(1) [OF u8_lt u8_lt u8_lt refl, of a b c] show ?case by (auto simp: Let_def b64_char_mem)
qed simp

lemma base64_roundtrip [simp]: "base64_DecodeString (b64_encode bs) = Some bs"
proof -
  have "c \<noteq> char_of (10 :: nat) \<and> c \<noteq> char_of (13 :: nat)" if "c \<in> set (b64_encode bs)" for c
  proof -
    have "CHR ''='' \<noteq> char_of (10 :: nat)" "CHR ''='' \<noteq> char_of (13 :: nat)" by code_simp+
    with b64_encode_chars [OF that] b64_alphabet_props(4,5) show ?thesis by metis
  qed
  then have "filter (\<lambda>c. c \<noteq> char_of (10 :: nat) \<and> c \<noteq> char_of (13 :: nat)) (b64_encode bs) = b64_encode bs"
    by (intro filter_True) blast
  then show ?thesis by (simp add: base64_DecodeString_def b64_quads_encode)
qed

end
