(* ===== verification/Go_Stdlib.thy ===== *)
theory Go_Stdlib
  imports Gateway_Prelude
begin

text \<open>
  What the program uses of Go's standard library on strings and numbers: \<open>encoding/hex\<close>,
  the decimal conversions of \<open>math/big\<close> and \<open>fmt\<close>, and prefix handling of \<open>strings\<close>,
  with the round trips the rest of the development relies on.
\<close>

subsection \<open>Hexadecimal strings\<close>

definition hex_digit :: "nat \<Rightarrow> char" where
  "hex_digit n = (if n < 10 then char_of (48 + n) else char_of (87 + n))"

definition from_hex_char :: "char \<Rightarrow> nat option" where
  "from_hex_char c = (let n = of_char c :: nat in
     if 48 \<le> n \<and> n \<le> 57 then Some (n - 48)
     else if 97 \<le> n \<and> n \<le> 102 then Some (n - 87)
     else if 65 \<le> n \<and> n \<le> 70 then Some (n - 55)
     else None)"

definition hex_EncodeToString :: "u8 list \<Rightarrow> string" where
  "hex_EncodeToString bs =
     concat (map (\<lambda>b. [hex_digit (unat b div 16), hex_digit (unat b mod 16)]) bs)"

text \<open>
  \<open>hex.DecodeString\<close> returns the bytes decoded before the first malformed pair, together
  with the error.
\<close>

fun hex_DecodeString :: "string \<Rightarrow> u8 list \<times> gerror option" where
  "hex_DecodeString [] = ([], None)"
| "hex_DecodeString [c] = ([], Some (ErrExt (case from_hex_char c of
       None \<Rightarrow> ''encoding/hex: invalid byte'' | Some _ \<Rightarrow> ''encoding/hex: odd length hex string'')))"
| "hex_DecodeString (c # d # cs) =
     (case (from_hex_char c, from_hex_char d) of
        (Some hi, Some lo) \<Rightarrow>
          (let (bs, e) = hex_DecodeString cs in (word_of_nat (16 * hi + lo) # bs, e))
      | _ \<Rightarrow> ([], Some (ErrExt ''encoding/hex: invalid byte'')))"

lemma from_hex_char_digit: "n < 16 \<Longrightarrow> from_hex_char (hex_digit n) = Some n"
  by (auto simp: from_hex_char_def hex_digit_def Let_def)

lemma hex_roundtrip [simp]: "hex_DecodeString (hex_EncodeToString bs) = (bs, None)"
proof (induction bs)
  case Nil
  then show ?case by (simp add: hex_EncodeToString_def)
next
  case (Cons b bs)
  have "unat b < 256" using unsigned_less [of b, where ?'a = nat] by simp
  then have "unat b div 16 < 16" and "unat b mod 16 < 16" by auto
  with Cons show ?case
    by (simp add: hex_EncodeToString_def from_hex_char_digit)
qed

subsection \<open>Decimal numbers\<close>

definition dec_digit :: "nat \<Rightarrow> char" where
  "dec_digit n = char_of (48 + n)"

definition from_dec_char :: "char \<Rightarrow> nat option" where
  "from_dec_char c = (let n = of_char c :: nat in if 48 \<le> n \<and> n \<le> 57 then Some (n - 48) else None)"

fun dec_of_nat :: "nat \<Rightarrow> string" where
  "dec_of_nat n = (if n < 10 then [dec_digit n] else dec_of_nat (n div 10) @ [dec_digit (n mod 10)])"

declare dec_of_nat.simps [simp del]

text \<open>\<open>(*big.Int).String\<close>.\<close>

definition big_String :: "int \<Rightarrow> string" where
  "big_String i = (if i < 0 then CHR ''-'' # dec_of_nat (nat (- i)) else dec_of_nat (nat i))"

fun dec_scan :: "nat \<Rightarrow> string \<Rightarrow> nat option" where
  "dec_scan acc [] = Some acc"
| "dec_scan acc (c # cs) =
     (case from_dec_char c of None \<Rightarrow> None | Some d \<Rightarrow> dec_scan (10 * acc + d) cs)"

text \<open>\<open>(*big.Int).SetString(s, 10)\<close>: an optional sign and at least one digit.\<close>

definition big_SetString :: "string \<Rightarrow> int option" where
  "big_SetString s =
     (let (neg, ds) = (case s of
            c # cs \<Rightarrow> if c = CHR ''-'' then (True, cs) else if c = CHR ''+'' then (False, cs) else (False, s)
          | [] \<Rightarrow> (False, []))
      in if ds = [] then None
         else map_option (\<lambda>n. if neg then - int n else int n) (dec_scan 0 ds))"

lemma from_dec_char_digit [simp]: "n < 10 \<Longrightarrow> from_dec_char (dec_digit n) = Some n"
  by (simp add: from_dec_char_def dec_digit_def Let_def)

lemma dec_scan_append: "dec_scan acc (xs @ [c]) =
    (case dec_scan acc xs of None \<Rightarrow> None
     | Some m \<Rightarrow> map_option (\<lambda>d. 10 * m + d) (from_dec_char c))"
  by (induction xs arbitrary: acc) (auto split: option.splits)

lemma dec_of_nat_nonempty: "dec_of_nat n \<noteq> []"
  by (subst dec_of_nat.simps) simp

lemma dec_scan_of_nat: "dec_scan 0 (dec_of_nat n) = Some n"
proof (induction n rule: dec_of_nat.induct)
  case (1 n)
  show ?case
  proof (cases "n < 10")
    case True
    then show ?thesis by (subst dec_of_nat.simps) simp
  next
    case False
    with "1.IH" have "dec_scan 0 (dec_of_nat (n div 10)) = Some (n div 10)" by simp
    with False show ?thesis
      by (subst dec_of_nat.simps) (simp add: dec_scan_append)
  qed
qed

lemma dec_digit_no_sign:
  assumes "n < 10"
  shows "dec_digit n \<noteq> CHR ''-'' \<and> dec_digit n \<noteq> CHR ''+''"
proof -
  have n: "(of_char (dec_digit n) :: nat) = 48 + n"
    using assms by (simp add: dec_digit_def)
  have "(of_char c :: nat) \<noteq> 48 + n" if "c = CHR ''-'' \<or> c = CHR ''+''" for c
    using that by auto
  with n show ?thesis by metis
qed

lemma dec_of_nat_hd: "\<exists>d < 10. \<exists>cs. dec_of_nat n = dec_digit d # cs"
proof (induction n rule: dec_of_nat.induct)
  case (1 n)
  show ?case
  proof (cases "n < 10")
    case True
    then show ?thesis by (subst dec_of_nat.simps) auto
  next
    case False
    with "1.IH" obtain d cs where "d < 10" and "dec_of_nat (n div 10) = dec_digit d # cs" by auto
    with False show ?thesis by (subst dec_of_nat.simps) auto
  qed
qed

text \<open>The decimal string of an integer parses back to it.\<close>

lemma big_SetString_String [simp]: "big_SetString (big_String i) = Some i"
proof (cases "i < 0")
  case True
  then show ?thesis
    by (simp add: big_SetString_def big_String_def dec_of_nat_nonempty dec_scan_of_nat)
next
  case False
  obtain d cs where d: "d < 10" and hd: "dec_of_nat (nat i) = dec_digit d # cs"
    using dec_of_nat_hd by blast
  have "dec_scan 0 (dec_digit d # cs) = Some (nat i)"
    using dec_scan_of_nat [of "nat i"] by (simp only: hd)
  with False dec_digit_no_sign [OF d] show ?thesis
    by (simp add: big_SetString_def big_String_def hd del: dec_scan.simps)
qed

lemma big_String_inject [simp]: "big_String i = big_String j \<longleftrightarrow> i = j"
  by (metis big_SetString_String option.inject)

lemma big_String_nonempty [simp]: "big_String i \<noteq> []"
  by (simp add: big_String_def dec_of_nat_nonempty)

subsection \<open>\<open>(*big.Int).UnmarshalText\<close>\<close>

text \<open>
  The scanner of \<^verbatim>\<open>math/big\<close> with base 0: an optional sign, an optional prefix (\<^verbatim>\<open>0b\<close>, \<^verbatim>\<open>0o\<close>,
  \<^verbatim>\<open>0x\<close>, or \<^verbatim>\<open>0\<close> for octal), digits, and underscores that must stand after a digit or a prefix and before a
  digit. The whole text must be used. \<open>after\<close> says that the last character was a digit or prefix.
\<close>

definition digit_val :: "char \<Rightarrow> nat option" where
  "digit_val c = (let n = of_char c :: nat in
     if 48 \<le> n \<and> n \<le> 57 then Some (n - 48)
     else if 97 \<le> n \<and> n \<le> 122 then Some (n - 87)
     else if 65 \<le> n \<and> n \<le> 90 then Some (n - 55)
     else None)"

fun scan_base :: "nat \<Rightarrow> bool \<Rightarrow> nat \<Rightarrow> nat \<Rightarrow> string \<Rightarrow> (nat \<times> nat) option" where
  "scan_base b after cnt acc [] = (if after then Some (acc, cnt) else None)"
| "scan_base b after cnt acc (c # cs) =
     (if c = CHR ''_'' then if after then scan_base b False cnt acc cs else None
      else case digit_val c of
        None \<Rightarrow> None
      | Some d \<Rightarrow> if d < b then scan_base b True (Suc cnt) (b * acc + d) cs else None)"

definition digits_of :: "(nat \<times> nat) option \<Rightarrow> nat option" where
  "digits_of r = (case r of None \<Rightarrow> None | Some (n, cnt) \<Rightarrow> if cnt = 0 then None else Some n)"

fun scan_nat :: "string \<Rightarrow> nat option" where
  "scan_nat [] = None"
| "scan_nat (c # cs) =
     (if c \<noteq> CHR ''0'' then digits_of (scan_base 10 False 0 0 (c # cs))
      else case cs of
        [] \<Rightarrow> Some 0
      | p # ds \<Rightarrow>
          if p = CHR ''b'' \<or> p = CHR ''B'' then digits_of (scan_base 2 True 0 0 ds)
          else if p = CHR ''o'' \<or> p = CHR ''O'' then digits_of (scan_base 8 True 0 0 ds)
          else if p = CHR ''x'' \<or> p = CHR ''X'' then digits_of (scan_base 16 True 0 0 ds)
          else map_option fst (scan_base 8 True 0 0 (p # ds)))"

definition big_UnmarshalText :: "string \<Rightarrow> int option" where
  "big_UnmarshalText s = (case s of
       [] \<Rightarrow> None
     | c # cs \<Rightarrow>
         if c = CHR ''-'' then map_option (\<lambda>n. - int n) (scan_nat cs)
         else if c = CHR ''+'' then map_option int (scan_nat cs)
         else map_option int (scan_nat s))"

lemma digit_val_dec:
  assumes "n < 10"
  shows "digit_val (dec_digit n) = Some n" and "dec_digit n \<noteq> CHR ''_''"
proof -
  have n: "(of_char (dec_digit n) :: nat) = 48 + n" using assms by (simp add: dec_digit_def)
  then show "digit_val (dec_digit n) = Some n" using assms by (simp add: digit_val_def Let_def)
  show "dec_digit n \<noteq> CHR ''_''"
  proof
    assume "dec_digit n = CHR ''_''"
    then have "(of_char (dec_digit n) :: nat) = 95" by simp
    with n assms show False by simp
  qed
qed

lemma scan_base_snoc:
  assumes "d < 10" and "scan_base 10 after cnt acc cs = Some (n, k)"
  shows "\<exists>k'. scan_base 10 after cnt acc (cs @ [dec_digit d]) = Some (10 * n + d, Suc k')"
  using assms(2)
proof (induction "10 :: nat" after cnt acc cs rule: scan_base.induct)
  case 1
  then show ?case by (simp add: digit_val_dec [OF assms(1)] assms(1) split: if_splits)
next
  case (2 after cnt acc c cs)
  then show ?case by (auto split: if_splits option.splits)
qed

lemma scan_base_dec: "\<exists>k. scan_base 10 after 0 0 (dec_of_nat n) = Some (n, Suc k)"
proof (induction n rule: dec_of_nat.induct)
  case (1 n)
  show ?case
  proof (cases "n < 10")
    case True
    then show ?thesis by (subst dec_of_nat.simps) (simp add: digit_val_dec)
  next
    case False
    with "1.IH" obtain k where "scan_base 10 after 0 0 (dec_of_nat (n div 10)) = Some (n div 10, Suc k)" by blast
    from scan_base_snoc [OF _ this, of "n mod 10"] False show ?thesis
      by (subst dec_of_nat.simps) simp
  qed
qed

lemma dec_of_nat_leading: "n \<noteq> 0 \<Longrightarrow> \<exists>d cs. 0 < d \<and> d < 10 \<and> dec_of_nat n = dec_digit d # cs"
proof (induction n rule: dec_of_nat.induct)
  case (1 n)
  show ?case
  proof (cases "n < 10")
    case True
    then show ?thesis using "1.prems" by (subst dec_of_nat.simps) auto
  next
    case False
    then have "n div 10 \<noteq> 0" by auto
    with "1.IH" False obtain d cs where "0 < d" "d < 10" "dec_of_nat (n div 10) = dec_digit d # cs" by blast
    with False show ?thesis by (subst dec_of_nat.simps) auto
  qed
qed

lemma dec_digit_zero: "n < 10 \<Longrightarrow> dec_digit n = CHR ''0'' \<longleftrightarrow> n = 0"
proof -
  assume n: "n < 10"
  have "(of_char (dec_digit n) :: nat) = 48 + n" using n by (simp add: dec_digit_def)
  then have "dec_digit n = CHR ''0'' \<Longrightarrow> n = 0" by auto
  moreover have "(of_char (dec_digit 0) :: nat) = of_char (CHR ''0'')" by (simp add: dec_digit_def)
  then have "dec_digit 0 = CHR ''0''" by (simp only: of_char_eq_iff)
  ultimately show ?thesis by auto
qed

lemma scan_nat_dec: "scan_nat (dec_of_nat n) = Some n"
proof (cases "n = 0")
  case True
  have "dec_of_nat 0 = ''0''" by (subst dec_of_nat.simps) (simp add: dec_digit_zero)
  with True show ?thesis by simp
next
  case False
  then obtain d cs where d: "0 < d" "d < 10" "dec_of_nat n = dec_digit d # cs" using dec_of_nat_leading by blast
  obtain k where "scan_base 10 False 0 0 (dec_of_nat n) = Some (n, Suc k)" using scan_base_dec by blast
  with d dec_digit_zero [OF d(2)] show ?thesis by (simp add: digits_of_def del: scan_base.simps)
qed

text \<open>The decimal string of an integer is also read back with base 0: it has no leading zero.\<close>

lemma big_UnmarshalText_String [simp]: "big_UnmarshalText (big_String i) = Some i"
proof (cases "i < 0")
  case True
  then show ?thesis by (simp add: big_UnmarshalText_def big_String_def scan_nat_dec)
next
  case False
  obtain d cs where d: "d < 10" and hd: "dec_of_nat (nat i) = dec_digit d # cs" using dec_of_nat_hd by blast
  have "scan_nat (dec_digit d # cs) = Some (nat i)" using scan_nat_dec [of "nat i"] by (simp only: hd)
  with False dec_digit_no_sign [OF d] show ?thesis
    by (simp add: big_UnmarshalText_def big_String_def hd del: scan_nat.simps)
qed

subsection \<open>\<open>(*big.Int).Int64\<close> and \<open>Uint64\<close>\<close>

text \<open>Both take the low 64 bits of the absolute value; \<open>Int64\<close> negates them for a negative number.\<close>

definition big_Uint64 :: "int \<Rightarrow> u64" where
  "big_Uint64 i = word_of_int \<bar>i\<bar>"

definition big_Int64 :: "int \<Rightarrow> int" where
  "big_Int64 i = (if i < 0 then sint (- (word_of_int \<bar>i\<bar> :: u64)) else sint (word_of_int i :: u64))"

lemma big_Int64_id:
  assumes "- (2 ^ 63) \<le> i" and "i < 2 ^ 63"
  shows "big_Int64 i = i"
proof -
  have "sint (word_of_int i :: u64) = i"
    using assms by (simp add: signed_of_int signed_take_bit_int_eq_self_iff)
  then show ?thesis by (simp add: big_Int64_def)
qed

text \<open>\<open>(*big.Int).Bytes\<close>: the absolute value, big-endian, without leading zeros.\<close>

fun nat_bytes :: "nat \<Rightarrow> u8 list" where
  "nat_bytes n = (if n = 0 then [] else nat_bytes (n div 256) @ [word_of_nat (n mod 256)])"

declare nat_bytes.simps [simp del]

definition big_Bytes :: "int \<Rightarrow> u8 list" where
  "big_Bytes i = nat_bytes (nat \<bar>i\<bar>)"

subsection \<open>Prefixes\<close>

definition strings_HasPrefix :: "string \<Rightarrow> string \<Rightarrow> bool" where
  "strings_HasPrefix s p = (take (length p) s = p)"

definition strings_TrimPrefix :: "string \<Rightarrow> string \<Rightarrow> string" where
  "strings_TrimPrefix s p = (if strings_HasPrefix s p then drop (length p) s else s)"

lemma HasPrefix_append [simp]: "strings_HasPrefix (p @ s) p"
  by (simp add: strings_HasPrefix_def)

lemma TrimPrefix_append [simp]: "strings_TrimPrefix (p @ s) p = s"
  by (simp add: strings_TrimPrefix_def)

end
