(* ===== verification/Db_Model.thy ===== *)
theory Db_Model
  imports Go_Stdlib
begin

text \<open>
  The database models of \<^verbatim>\<open>db/model/model.go\<close>: one record per Go struct, with the Go field
  names behind a prefix that names the struct, and the \<open>Size\<close> methods. Pointers to models are
  modelled by their values: the program never mutates a model it has handed out.
\<close>

record AccessTuple =
  at_Address :: string
  at_StorageKeys :: "string list"

definition AccessTuple_Size :: "AccessTuple \<Rightarrow> nat" where
  "AccessTuple_Size acc = foldl (\<lambda>sz k. sz + length k) (length (at_Address acc)) (at_StorageKeys acc)"

text \<open>The two tips of the indexed round table.\<close>

definition Continues :: string where
  "Continues = ''continues''"

definition LastRetained :: string where
  "LastRetained = ''lastRetain''"

record IndexedRoundWithTip =
  ir_Tip :: string
  ir_Round :: u64

type_synonym AccessList = "AccessTuple list"

definition AccessList_Size :: "AccessList \<Rightarrow> nat" where
  "AccessList_Size al = foldl (\<lambda>sz acc. sz + AccessTuple_Size acc) 0 al"

record Transaction =
  tx_Hash :: string
  tx_Type :: u8
  tx_Status :: u64
  tx_ChainID :: string
  tx_BlockHash :: string
  tx_Round :: u64
  tx_Index :: u32
  tx_Gas :: u64
  tx_GasPrice :: string
  tx_GasTipCap :: string
  tx_GasFeeCap :: string
  tx_Nonce :: u64
  tx_FromAddr :: string
  tx_ToAddr :: string
  tx_Value :: string
  tx_Data :: string
  tx_AccessList :: AccessList
  tx_V :: string
  tx_R :: string
  tx_S :: string

definition Transaction_Size :: "Transaction \<Rightarrow> nat" where
  "Transaction_Size tx = length (tx_Hash tx) + 1 + 8 + length (tx_ChainID tx) + length (tx_BlockHash tx)
     + 8 + 4 + 8 + length (tx_GasPrice tx) + length (tx_GasTipCap tx) + length (tx_GasFeeCap tx)
     + 8 + length (tx_FromAddr tx) + length (tx_ToAddr tx) + length (tx_Value tx) + length (tx_Data tx)
     + AccessList_Size (tx_AccessList tx) + length (tx_V tx) + length (tx_R tx) + length (tx_S tx)"

record Header =
  hdr_ParentHash :: string
  hdr_UncleHash :: string
  hdr_Coinbase :: string
  hdr_Root :: string
  hdr_TxHash :: string
  hdr_ReceiptHash :: string
  hdr_Bloom :: string
  hdr_Difficulty :: string
  hdr_Number :: u64
  hdr_GasLimit :: u64
  hdr_GasUsed :: u64
  hdr_Time :: u64
  hdr_Extra :: string
  hdr_MixDigest :: string
  hdr_Nonce :: u64
  hdr_BaseFee :: string

record Block =
  blk_Hash :: string
  blk_Round :: u64
  blk_Header :: Header
  blk_Transactions :: "Transaction list"

record Log =
  log_Address :: string
  log_Topics :: "string list"
  log_Data :: string
  log_Round :: u64
  log_BlockHash :: string
  log_TxHash :: string
  log_TxIndex :: u64
  log_Index :: u64
  log_Removed :: bool

definition Log_Size :: "Log \<Rightarrow> nat" where
  "Log_Size l = foldl (\<lambda>sz t. sz + length t) (length (log_Address l)) (log_Topics l)
     + length (log_Data l) + 8 + length (log_BlockHash l) + length (log_TxHash l) + 8 + 8 + 1"

record Receipt =
  rc_Status :: u64
  rc_CumulativeGasUsed :: u64
  rc_LogsBloom :: string
  rc_Logs :: "Log list"
  rc_TransactionHash :: string
  rc_BlockHash :: string
  rc_GasUsed :: u64
  rc_Type :: u64
  rc_Round :: u64
  rc_TransactionIndex :: u64
  rc_FromAddr :: string
  rc_ToAddr :: string
  rc_ContractAddress :: string
  rc_EffectiveGasPrice :: string

definition Receipt_Size :: "Receipt \<Rightarrow> nat" where
  "Receipt_Size r = foldl (\<lambda>sz l. sz + Log_Size l) (8 + 8 + length (rc_LogsBloom r)) (rc_Logs r)
     + length (rc_TransactionHash r) + length (rc_BlockHash r) + 8 + 8 + 8 + 8
     + length (rc_FromAddr r) + length (rc_ToAddr r) + length (rc_ContractAddress r)
     + length (rc_EffectiveGasPrice r)"

text \<open>Zero values, as Go's \<open>new(T)\<close> gives them: the starting point of concrete examples.\<close>

definition zero_Transaction :: Transaction where
  "zero_Transaction = \<lparr>tx_Hash = [], tx_Type = 0, tx_Status = 0, tx_ChainID = [], tx_BlockHash = [],
     tx_Round = 0, tx_Index = 0, tx_Gas = 0, tx_GasPrice = [], tx_GasTipCap = [], tx_GasFeeCap = [],
     tx_Nonce = 0, tx_FromAddr = [], tx_ToAddr = [], tx_Value = [], tx_Data = [], tx_AccessList = [],
     tx_V = [], tx_R = [], tx_S = []\<rparr>"

definition zero_Header :: Header where
  "zero_Header = \<lparr>hdr_ParentHash = [], hdr_UncleHash = [], hdr_Coinbase = [], hdr_Root = [],
     hdr_TxHash = [], hdr_ReceiptHash = [], hdr_Bloom = [], hdr_Difficulty = [], hdr_Number = 0,
     hdr_GasLimit = 0, hdr_GasUsed = 0, hdr_Time = 0, hdr_Extra = [], hdr_MixDigest = [],
     hdr_Nonce = 0, hdr_BaseFee = []\<rparr>"

definition zero_Block :: Block where
  "zero_Block = \<lparr>blk_Hash = [], blk_Round = 0, blk_Header = zero_Header, blk_Transactions = []\<rparr>"

definition zero_Log :: Log where
  "zero_Log = \<lparr>log_Address = [], log_Topics = [], log_Data = [], log_Round = 0, log_BlockHash = [],
     log_TxHash = [], log_TxIndex = 0, log_Index = 0, log_Removed = False\<rparr>"

definition zero_Receipt :: Receipt where
  "zero_Receipt = \<lparr>rc_Status = 0, rc_CumulativeGasUsed = 0, rc_LogsBloom = [], rc_Logs = [],
     rc_TransactionHash = [], rc_BlockHash = [], rc_GasUsed = 0, rc_Type = 0, rc_Round = 0,
     rc_TransactionIndex = 0, rc_FromAddr = [], rc_ToAddr = [], rc_ContractAddress = [],
     rc_EffectiveGasPrice = []\<rparr>"

lemmas zero_defs = zero_Transaction_def zero_Header_def zero_Block_def zero_Log_def zero_Receipt_def

end
