(* ===== verification/Ext_Lib.thy ===== *)
theory Ext_Lib
  imports Db_Model
begin

text \<open>
  The data that crosses the boundary to go-ethereum, oasis-core and the Oasis SDK, and the
  functions of those packages the program calls. The packages are not part of the repository:
  their functions are the fields of \<open>ext\<close>, an argument of every definition that calls them,
  and a theorem that relies on what they do names it as a hypothesis (\<open>hash_codec\<close>,
  \<open>addr_codec\<close>, \<open>hex_codec\<close>).
\<close>

type_synonym bytes = "u8 list"

text \<open>\<open>ethtypes.AccessTuple\<close>, \<open>ethtypes.Log\<close>, and a transaction seen through its accessors.\<close>

record EthAccessTuple =
  eat_Address :: bytes
  eat_StorageKeys :: "bytes list"

record EthLog =
  el_Address :: bytes
  el_Topics :: "bytes list"
  el_Data :: bytes
  el_BlockNumber :: u64
  el_TxHash :: bytes
  el_TxIndex :: u64
  el_BlockHash :: bytes
  el_Index :: u64
  el_Removed :: bool

record EthTx =
  etx_Hash :: bytes
  etx_Type :: u8
  etx_ChainId :: int
  etx_Gas :: u64
  etx_GasPrice :: int
  etx_GasTipCap :: int
  etx_GasFeeCap :: int
  etx_Nonce :: u64
  etx_To :: "bytes option"
  etx_Value :: int
  etx_Data :: bytes
  etx_AccessList :: "EthAccessTuple list"
  etx_V :: int
  etx_R :: int
  etx_S :: int

text \<open>\<open>block.Block\<close> of oasis-core, and the transactions with results of the SDK.\<close>

datatype header_type = Normal | RoundFailed | EpochTransition | Suspended

record OasisBlock =
  ob_Round :: u64
  ob_Timestamp :: u64
  ob_HeaderType :: header_type
  ob_PreviousHash :: bytes
  ob_StateRoot :: bytes
  ob_IORoot :: bytes
  ob_EncodedHash :: bytes

record OasisEvent =
  ev_Module :: string
  ev_Code :: u32
  ev_Value :: bytes

record CallResult =
  cr_IsSuccess :: bool
  cr_Ok :: bytes

record TxWithResults =
  twr_Body :: bytes
  twr_AuthProofs :: "string list"
  twr_Result :: CallResult
  twr_Events :: "OasisEvent list"

text \<open>\<open>core.Parameters\<close>: the native minimum gas price and the batch gas limit.\<close>

record CoreParameters =
  cp_MinGasPrice :: nat
  cp_MaxBatchGas :: u64

text \<open>
  \<open>core.RuntimeInfoResponse\<close>: the version of the EVM module, zero when the module is not listed.
\<close>

record RuntimeInfo =
  ri_EvmVersion :: u32

text \<open>The events decoded by the SDK; \<open>None\<close> where the type assertion of the caller fails.\<close>

type_synonym core_event = "u64 option option"

record Transfer =
  tr_To :: bytes
  tr_IsNative :: bool
  tr_Amount :: nat

type_synonym accounts_event = "Transfer option option"

text \<open>\<open>indexer.Log\<close>, the CBOR log of the EVM module (declared in \<^verbatim>\<open>indexer/utils.go\<close>).\<close>

record OasisLog =
  ol_Address :: bytes
  ol_Topics :: "bytes list"
  ol_Data :: bytes

record ext =
  Hash_Hex :: "bytes \<Rightarrow> string"
  HexToHash :: "string \<Rightarrow> bytes"
  Address_Hex :: "bytes \<Rightarrow> string"
  HexToAddress :: "string \<Rightarrow> bytes"
  BytesToAddress :: "bytes \<Rightarrow> bytes"
  OasisHash_Hex :: "bytes \<Rightarrow> string"
  Bloom_Add :: "bytes \<Rightarrow> bytes \<Rightarrow> bytes"
  BytesToBloom :: "bytes \<Rightarrow> bytes"
  Bloom_MarshalText :: "bytes \<Rightarrow> string"
  EmptyRootHash :: bytes
  EmptyUncleHash :: bytes
  Signer_Sender :: "int option \<Rightarrow> EthTx \<Rightarrow> bytes"
  Tx_UnmarshalBinary :: "bytes \<Rightarrow> gerror + EthTx"
  cbor_Bytes :: "bytes \<Rightarrow> gerror + bytes"
  cbor_Logs :: "bytes \<Rightarrow> gerror + OasisLog list"
  cbor_Log :: "bytes \<Rightarrow> gerror + OasisLog"
  cbor_TxGasPrice :: "bytes \<Rightarrow> gerror + nat option"
  Quantity_FromBigInt :: "int \<Rightarrow> gerror + nat"
  core_DecodeEvent :: "OasisEvent \<Rightarrow> gerror + core_event list"
  accounts_DecodeEvent :: "OasisEvent \<Rightarrow> gerror + accounts_event list"
  evm_ModuleName :: string
  core_ModuleName :: string
  accounts_ModuleName :: string
  TransferEventCode :: u32
  FeeAccumulatorAddress :: bytes
  ReceiptStatusFailed :: u64
  ReceiptStatusSuccessful :: u64
  RoundLatest :: u64
  bun_Insert_int :: "nat \<Rightarrow> gerror option"
  Hex2Bytes :: "string \<Rightarrow> bytes"
  BytesToHash :: "bytes \<Rightarrow> bytes"
  EncodeNonce :: "u64 \<Rightarrow> bytes"
  cbor_Marshal_Block :: "Block \<Rightarrow> bytes"
  hexutil_Encode :: "bytes \<Rightarrow> string"
  abi_Pack_string :: "string \<Rightarrow> gerror + bytes"
  abi_UnpackRevert :: "bytes \<Rightarrow> gerror + string"
  NewAddressRaw :: "bytes \<Rightarrow> bytes"

text \<open>
  The block tags are constants of go-ethereum's \<open>rpc\<close> package, negative numbers that differ from each
  other.
\<close>

record block_tags =
  PendingBlockNumber :: int
  LatestBlockNumber :: int
  FinalizedBlockNumber :: int
  SafeBlockNumber :: int
  EarliestBlockNumber :: int

definition tags_ok :: "block_tags \<Rightarrow> bool" where
  "tags_ok g \<longleftrightarrow> list_all (\<lambda>n. n < 0) [PendingBlockNumber g, LatestBlockNumber g, FinalizedBlockNumber g,
       SafeBlockNumber g, EarliestBlockNumber g]
     \<and> distinct [PendingBlockNumber g, LatestBlockNumber g, FinalizedBlockNumber g, SafeBlockNumber g, EarliestBlockNumber g]"

definition geth_tags :: block_tags where
  "geth_tags = \<lparr>PendingBlockNumber = - 1, LatestBlockNumber = - 2, FinalizedBlockNumber = - 3,
     SafeBlockNumber = - 4, EarliestBlockNumber = - 5\<rparr>"

lemma geth_tags_ok: "tags_ok geth_tags"
  by (simp add: tags_ok_def geth_tags_def)

text \<open>
  The hypotheses on these functions: a hash (32 bytes) and an address (20 bytes) survive their
  hexadecimal form, \<open>Hex2Bytes\<close> decodes hexadecimal, as go-ethereum documents, and the two receipt
  status codes differ.
\<close>

definition is_hash :: "bytes \<Rightarrow> bool" where
  "is_hash b \<longleftrightarrow> length b = 32"

definition is_address :: "bytes \<Rightarrow> bool" where
  "is_address b \<longleftrightarrow> length b = 20"

definition hash_codec :: "ext \<Rightarrow> bool" where
  "hash_codec x \<longleftrightarrow> (\<forall>b. is_hash b \<longrightarrow> HexToHash x (Hash_Hex x b) = b)"

definition addr_codec :: "ext \<Rightarrow> bool" where
  "addr_codec x \<longleftrightarrow> (\<forall>b. is_address b \<longrightarrow> HexToAddress x (Address_Hex x b) = b \<and> Address_Hex x b \<noteq> [])"

definition hex_codec :: "ext \<Rightarrow> bool" where
  "hex_codec x \<longleftrightarrow> (\<forall>b. Hex2Bytes x (hex_EncodeToString b) = b)"

definition status_codes :: "ext \<Rightarrow> bool" where
  "status_codes x \<longleftrightarrow> ReceiptStatusFailed x < 256 \<and> ReceiptStatusSuccessful x < 256
     \<and> ReceiptStatusFailed x \<noteq> ReceiptStatusSuccessful x"

lemma Hash_Hex_inj:
  "hash_codec x \<Longrightarrow> is_hash a \<Longrightarrow> is_hash b \<Longrightarrow> Hash_Hex x a = Hash_Hex x b \<longleftrightarrow> a = b"
  unfolding hash_codec_def by metis

text \<open>
  A concrete instance for examples: hashes and addresses in lowercase hexadecimal behind
  \<^verbatim>\<open>0x\<close>, a decoder that reads the hash of a transaction from its body, no events.
\<close>

definition hex0x :: "bytes \<Rightarrow> string" where
  "hex0x b = ''0x'' @ hex_EncodeToString b"

definition unhex0x :: "string \<Rightarrow> bytes" where
  "unhex0x s = fst (hex_DecodeString (if take 2 s = ''0x'' then drop 2 s else s))"

definition example_etx :: EthTx where
  "example_etx = \<lparr>etx_Hash = replicate 32 1, etx_Type = 0, etx_ChainId = 5, etx_Gas = 21000, etx_GasPrice = 7,
     etx_GasTipCap = 1, etx_GasFeeCap = 9, etx_Nonce = 0, etx_To = Some (replicate 20 2), etx_Value = 3,
     etx_Data = [], etx_AccessList = [], etx_V = 27, etx_R = 1, etx_S = 1\<rparr>"

definition example_ext :: ext where
  "example_ext = \<lparr>Hash_Hex = hex0x, HexToHash = unhex0x, Address_Hex = hex0x, HexToAddress = unhex0x,
     BytesToAddress = id, OasisHash_Hex = hex_EncodeToString, Bloom_Add = (\<lambda>_ b. b), BytesToBloom = id,
     Bloom_MarshalText = hex0x, EmptyRootHash = replicate 32 0, EmptyUncleHash = replicate 32 0,
     Signer_Sender = (\<lambda>_ _. replicate 20 3),
     Tx_UnmarshalBinary = (\<lambda>b. if b = [] then Inl (ErrExt ''rlp'') else Inr (example_etx\<lparr>etx_Hash := replicate 32 (hd b)\<rparr>)),
     cbor_Bytes = Inr, cbor_Logs = (\<lambda>_. Inl (ErrExt ''cbor'')), cbor_Log = (\<lambda>_. Inl (ErrExt ''cbor'')),
     cbor_TxGasPrice = (\<lambda>_. Inl (ErrExt ''cbor'')), Quantity_FromBigInt = (\<lambda>i. Inr (nat i)),
     core_DecodeEvent = (\<lambda>_. Inr []), accounts_DecodeEvent = (\<lambda>_. Inr []), evm_ModuleName = ''evm'',
     core_ModuleName = ''core'', accounts_ModuleName = ''accounts'', TransferEventCode = 1,
     FeeAccumulatorAddress = [], ReceiptStatusFailed = 0, ReceiptStatusSuccessful = 1, RoundLatest = max_u64,
     bun_Insert_int = (\<lambda>_. Some (ErrExt ''bun: not a model'')),
     Hex2Bytes = (\<lambda>s. fst (hex_DecodeString s)), BytesToHash = (\<lambda>b. replicate (32 - length b) 0 @ b), EncodeNonce = (\<lambda>_. replicate 8 0),
     cbor_Marshal_Block = (\<lambda>_. []), hexutil_Encode = hex0x, abi_Pack_string = (\<lambda>_. Inr []),
     abi_UnpackRevert = (\<lambda>_. Inl (ErrExt ''abi: invalid data for unpacking'')), NewAddressRaw = id\<rparr>"

lemma unhex0x_hex0x [simp]: "unhex0x (hex0x b) = b"
  by (simp add: hex0x_def unhex0x_def)

lemma unhex0x_plain [simp]: "unhex0x (hex_EncodeToString b) = b"
proof -
  have "unat c mod 16 < 16" for c :: u8 by simp
  then have "hex_digit (unat c mod 16) \<noteq> CHR ''x''" for c :: u8
    using from_hex_char_digit [of "unat c mod 16"] by (auto simp: from_hex_char_def)
  then have "take 2 (hex_EncodeToString b) \<noteq> ''0x''" by (cases b) (simp_all add: hex_EncodeToString_def)
  then show ?thesis by (simp add: unhex0x_def)
qed

lemma hex0x_nonempty [simp]: "hex0x b \<noteq> []"
  by (simp add: hex0x_def)

lemma example_ext_status: "status_codes example_ext"
  by (simp add: status_codes_def example_ext_def)

lemma example_ext_codecs: "hash_codec example_ext \<and> addr_codec example_ext \<and> hex_codec example_ext"
  by (simp add: hash_codec_def addr_codec_def hex_codec_def example_ext_def)

end
