(* ===== verification/Index_Convert.thy ===== *)
theory Index_Convert
  imports Ext_Lib
begin

text \<open>
  The conversions of \<^verbatim>\<open>indexer/utils.go\<close>: runtime transactions with their events become
  Ethereum transactions, logs, gas figures and a median price (\<open>decode_txs\<close>, the first half of
  \<open>StoreBlockData\<close>), those become database models (\<open>blockToModels\<close>), and a stored receipt
  becomes the JSON object of \<open>eth_getTransactionReceipt\<close> (\<open>db2EthReceipt\<close>).
\<close>

definition defaultValidatorAddr :: string where
  "defaultValidatorAddr = ''0x0000000000000000000000000000000088888888''"

subsection \<open>Logs\<close>

definition Logs2EthLogs :: "OasisLog list \<Rightarrow> u64 \<Rightarrow> bytes \<Rightarrow> bytes \<Rightarrow> u64 \<Rightarrow> u32 \<Rightarrow> EthLog list" where
  "Logs2EthLogs logs round blockHash txHash startIndex txIndex =
     map (\<lambda>(i, log). \<lparr>el_Address = ol_Address log, el_Topics = ol_Topics log, el_Data = ol_Data log,
            el_BlockNumber = round, el_TxHash = txHash, el_TxIndex = ucast txIndex,
            el_BlockHash = blockHash, el_Index = startIndex + word_of_nat i, el_Removed = False\<rparr>)
         (enumerate 0 logs)"

definition logsBloom :: "ext \<Rightarrow> EthLog list \<Rightarrow> bytes" where
  "logsBloom x logs =
     fold (\<lambda>log bin. fold (Bloom_Add x) (el_Topics log) (Bloom_Add x (el_Address log) bin)) logs (replicate 256 0)"

definition model_log :: "ext \<Rightarrow> EthLog \<Rightarrow> Log" where
  "model_log x log = \<lparr>log_Address = Address_Hex x (el_Address log),
     log_Topics = map (Hash_Hex x) (el_Topics log), log_Data = hex_EncodeToString (el_Data log),
     log_Round = el_BlockNumber log, log_BlockHash = Hash_Hex x (el_BlockHash log),
     log_TxHash = Hash_Hex x (el_TxHash log), log_TxIndex = el_TxIndex log, log_Index = el_Index log,
     log_Removed = el_Removed log\<rparr>"

definition get_logs_of :: "(string, Log list) gomap \<Rightarrow> string \<Rightarrow> Log list" where
  "get_logs_of m h = (case gm_load m h of None \<Rightarrow> [] | Some ls \<Rightarrow> ls)"

definition ethToModelLogs :: "ext \<Rightarrow> EthLog list \<Rightarrow> Log list \<times> (string, Log list) gomap" where
  "ethToModelLogs x ethLogs =
     fold (\<lambda>el (res, txLogs). let log = model_log x el; txHash = log_TxHash log in
             (res @ [log], gm_store txHash (get_logs_of txLogs txHash @ [log]) txLogs))
       ethLogs ([], [])"

subsection \<open>Blocks, transactions and receipts\<close>

record txGas =
  tg_used :: u64
  tg_effectivePrice :: int

definition model_header :: "ext \<Rightarrow> OasisBlock \<Rightarrow> bool \<Rightarrow> EthLog list \<Rightarrow> u64 \<Rightarrow> int \<Rightarrow> Header" where
  "model_header x blk no_txs logs blockGasLimit baseFee =
     \<lparr>hdr_ParentHash = OasisHash_Hex x (ob_PreviousHash blk),
      hdr_UncleHash = Hash_Hex x (EmptyUncleHash x),
      hdr_Coinbase = Address_Hex x (HexToAddress x defaultValidatorAddr),
      hdr_Root = OasisHash_Hex x (ob_StateRoot blk),
      hdr_TxHash = (if no_txs then Hash_Hex x (EmptyRootHash x) else OasisHash_Hex x (ob_IORoot blk)),
      hdr_ReceiptHash = Hash_Hex x (EmptyRootHash x),
      hdr_Bloom = Bloom_MarshalText x (BytesToBloom x (logsBloom x logs)),
      hdr_Difficulty = big_String 0, hdr_Number = ob_Round blk, hdr_GasLimit = blockGasLimit,
      hdr_GasUsed = 0, hdr_Time = ob_Timestamp blk, hdr_Extra = [], hdr_MixDigest = [],
      hdr_Nonce = 0, hdr_BaseFee = big_String baseFee\<rparr>"

definition model_access :: "ext \<Rightarrow> EthAccessTuple \<Rightarrow> AccessTuple" where
  "model_access x acc = \<lparr>at_Address = Address_Hex x (eat_Address acc),
     at_StorageKeys = map (Hash_Hex x) (eat_StorageKeys acc)\<rparr>"

definition model_tx :: "ext \<Rightarrow> string \<Rightarrow> u64 \<Rightarrow> nat \<Rightarrow> EthTx \<Rightarrow> u8 \<Rightarrow> Transaction" where
  "model_tx x bhash round idx ethTx status =
     (let signer = (if etx_ChainId ethTx = 0 then None else Some (etx_ChainId ethTx));
          from = Signer_Sender x signer ethTx
      in \<lparr>tx_Hash = Hash_Hex x (etx_Hash ethTx), tx_Type = etx_Type ethTx, tx_Status = ucast status,
          tx_ChainID = big_String (etx_ChainId ethTx), tx_BlockHash = bhash, tx_Round = round,
          tx_Index = word_of_nat idx, tx_Gas = etx_Gas ethTx, tx_GasPrice = big_String (etx_GasPrice ethTx),
          tx_GasTipCap = big_String (etx_GasTipCap ethTx), tx_GasFeeCap = big_String (etx_GasFeeCap ethTx),
          tx_Nonce = etx_Nonce ethTx, tx_FromAddr = Address_Hex x from,
          tx_ToAddr = (case etx_To ethTx of None \<Rightarrow> [] | Some to \<Rightarrow> Address_Hex x to),
          tx_Value = big_String (etx_Value ethTx), tx_Data = hex_EncodeToString (etx_Data ethTx),
          tx_AccessList = map (model_access x) (etx_AccessList ethTx),
          tx_V = big_String (etx_V ethTx), tx_R = big_String (etx_R ethTx), tx_S = big_String (etx_S ethTx)\<rparr>)"

definition model_receipt :: "ext \<Rightarrow> Transaction \<Rightarrow> Log list \<Rightarrow> string \<Rightarrow> u64 \<Rightarrow> nat \<Rightarrow> txGas \<Rightarrow> Receipt" where
  "model_receipt x tx txlogs bloomHex cumulativeGasUsed idx g =
     \<lparr>rc_Status = tx_Status tx, rc_CumulativeGasUsed = cumulativeGasUsed, rc_LogsBloom = bloomHex,
      rc_Logs = txlogs, rc_TransactionHash = tx_Hash tx, rc_BlockHash = tx_BlockHash tx,
      rc_GasUsed = tg_used g, rc_Type = ucast (tx_Type tx), rc_Round = tx_Round tx,
      rc_TransactionIndex = word_of_nat idx, rc_FromAddr = tx_FromAddr tx, rc_ToAddr = tx_ToAddr tx,
      rc_ContractAddress = [], rc_EffectiveGasPrice = big_String (tg_effectivePrice g)\<rparr>"

text \<open>
  The loop over the transactions of a block. The status, gas and result slices are indexed by
  the position of the transaction: a slice that is too short is an index panic.
\<close>

fun models_loop :: "ext \<Rightarrow> string \<Rightarrow> u64 \<Rightarrow> (string, Log list) gomap \<Rightarrow> string \<Rightarrow>
    nat \<Rightarrow> u64 \<Rightarrow> EthTx list \<Rightarrow> u8 list \<Rightarrow> txGas list \<Rightarrow> CallResult list \<Rightarrow>
    (Transaction list \<times> Receipt list \<times> u64) outcome" where
  "models_loop x bhash round txLogs bloomHex idx cum [] sts gs rs = Ok ([], [], cum)"
| "models_loop x bhash round txLogs bloomHex idx cum (e # es) (st # sts) (g # gs) (r # rs) =
     (let tx = model_tx x bhash round idx e st;
          cum' = cum + tg_used g;
          rc = model_receipt x tx (get_logs_of txLogs (tx_Hash tx)) bloomHex cum' idx g;
          rest = models_loop x bhash round txLogs bloomHex (Suc idx) cum' es sts gs rs;
          finish = (\<lambda>rc. case rest of
              Ok (txs, rcs, c) \<Rightarrow> Ok (tx # txs, rc # rcs, c)
            | Err e \<Rightarrow> Err e
            | Panic p \<Rightarrow> Panic p)
      in if tx_ToAddr tx = [] \<and> cr_IsSuccess r
         then (case cbor_Bytes x (cr_Ok r) of
                 Inl e \<Rightarrow> Err e
               | Inr out \<Rightarrow> finish (rc\<lparr>rc_ContractAddress := Address_Hex x (BytesToAddress x out)\<rparr>))
         else finish rc)"
| "models_loop x bhash round txLogs bloomHex idx cum (e # es) sts gs rs = Panic ''index out of range''"

definition blockToModels :: "ext \<Rightarrow> OasisBlock \<Rightarrow> EthTx list \<Rightarrow> EthLog list \<Rightarrow> u8 list \<Rightarrow> txGas list \<Rightarrow>
    CallResult list \<Rightarrow> u64 \<Rightarrow> int \<Rightarrow> (Block \<times> Transaction list \<times> Receipt list \<times> Log list) outcome" where
  "blockToModels x blk ethTxs logs txsStatus txsGas results blockGasLimit baseFee =
     (let (dbLogs, txLogs) = ethToModelLogs x logs;
          bhash = Hash_Hex x (HexToHash x (OasisHash_Hex x (ob_EncodedHash blk)));
          header = model_header x blk (ethTxs = []) logs blockGasLimit baseFee;
          bloomHex = hex_EncodeToString (map (\<lambda>c. of_char c) (hdr_Bloom header))
      in case models_loop x bhash (ob_Round blk) txLogs bloomHex 0 0 ethTxs txsStatus txsGas results of
           Ok (txs, rcs, cum) \<Rightarrow>
             Ok (\<lparr>blk_Hash = bhash, blk_Round = ob_Round blk,
                  blk_Header = header\<lparr>hdr_GasUsed := cum\<rparr>, blk_Transactions = txs\<rparr>, txs, rcs, dbLogs)
         | Err e \<Rightarrow> Err e
         | Panic p \<Rightarrow> Panic p)"

subsection \<open>Decoding the transactions of a runtime block\<close>

text \<open>What the loop over the events of one transaction accumulates.\<close>

record tx_events =
  te_GasUsed :: u64
  te_GasSpent :: int
  te_Logs :: "OasisLog list"

fun core_events_loop :: "core_event list \<Rightarrow> u64 \<Rightarrow> u64 outcome" where
  "core_events_loop [] used = Ok used"
| "core_events_loop (None # evs) used = Err (Errorf ''invalid core event'')"
| "core_events_loop (Some None # evs) used = core_events_loop evs used"
| "core_events_loop (Some (Some amount) # evs) used =
     (if used \<noteq> 0 then Err (Errorf ''multiple GasUsedEvent for a transaction'')
      else core_events_loop evs amount)"

fun accounts_events_loop :: "ext \<Rightarrow> accounts_event list \<Rightarrow> int \<Rightarrow> int" where
  "accounts_events_loop x [] spent = spent"
| "accounts_events_loop x (Some (Some te) # evs) spent =
     (if tr_To te \<noteq> FeeAccumulatorAddress x then accounts_events_loop x evs spent
      else if \<not> tr_IsNative te then accounts_events_loop x evs spent
      else accounts_events_loop x evs (spent + int (tr_Amount te)))"
| "accounts_events_loop x (_ # evs) spent = accounts_events_loop x evs spent"

definition event_step :: "ext \<Rightarrow> OasisEvent \<Rightarrow> tx_events \<Rightarrow> tx_events outcome" where
  "event_step x ev a =
     (if ev_Module ev = evm_ModuleName x \<and> ev_Code ev = 1 then
        (case cbor_Logs x (ev_Value ev) of
           Inr ls \<Rightarrow> Ok (a\<lparr>te_Logs := te_Logs a @ ls\<rparr>)
         | Inl e \<Rightarrow>
             (case cbor_Log x (ev_Value ev) of
                Inr l \<Rightarrow> Ok (a\<lparr>te_Logs := te_Logs a @ [l]\<rparr>)
              | Inl _ \<Rightarrow> Err e))
      else if ev_Module ev = core_ModuleName x then
        (case core_DecodeEvent x ev of
           Inl e \<Rightarrow> Err e
         | Inr evs \<Rightarrow>
             (case core_events_loop evs (te_GasUsed a) of
                Ok used \<Rightarrow> Ok (a\<lparr>te_GasUsed := used\<rparr>)
              | Err e \<Rightarrow> Err e
              | Panic p \<Rightarrow> Panic p))
      else if ev_Module ev = accounts_ModuleName x \<and> ev_Code ev = TransferEventCode x then
        (case accounts_DecodeEvent x ev of
           Inl _ \<Rightarrow> Ok a
         | Inr evs \<Rightarrow> Ok (a\<lparr>te_GasSpent := accounts_events_loop x evs (te_GasSpent a)\<rparr>))
      else Ok a)"

fun events_loop :: "ext \<Rightarrow> OasisEvent list \<Rightarrow> tx_events \<Rightarrow> tx_events outcome" where
  "events_loop x [] a = Ok a"
| "events_loop x (ev # evs) a =
     (case event_step x ev a of Ok a' \<Rightarrow> events_loop x evs a' | Err e \<Rightarrow> Err e | Panic p \<Rightarrow> Panic p)"

text \<open>\<open>big.Int.Div\<close> panics on a zero divisor.\<close>

definition effective_price :: "EthTx \<Rightarrow> u64 \<Rightarrow> int \<Rightarrow> int outcome" where
  "effective_price ethTx gasUsed gasSpent =
     (if gasSpent > 0
      then if gasUsed = 0 then Panic ''division by zero'' else Ok (gasSpent div int (unat gasUsed))
      else Ok (etx_GasPrice ethTx))"

record decoded =
  d_ethTxs :: "EthTx list"
  d_logs :: "EthLog list"
  d_status :: "u8 list"
  d_gas :: "txGas list"
  d_results :: "CallResult list"
  d_median :: "nat option"

definition is_ethereum_tx :: "TxWithResults \<Rightarrow> bool" where
  "is_ethereum_tx item \<longleftrightarrow> twr_AuthProofs item = [''evm.ethereum.v0'']"

text \<open>One iteration of the loop; \<open>n\<close> is the number of transactions in the block.\<close>

definition decode_tx :: "ext \<Rightarrow> OasisBlock \<Rightarrow> int \<Rightarrow> int \<Rightarrow> TxWithResults \<Rightarrow> decoded \<Rightarrow> decoded outcome" where
  "decode_tx x blk n txIndex item d =
     (if \<not> is_ethereum_tx item then
        (if n div 2 - 1 \<le> txIndex \<and> d_median d = None
         then (case cbor_TxGasPrice x (twr_Body item) of
                 Inl _ \<Rightarrow> Ok d
               | Inr price \<Rightarrow> Ok (d\<lparr>d_median := price\<rparr>))
         else Ok d)
      else case Tx_UnmarshalBinary x (twr_Body item) of
        Inl e \<Rightarrow> Err e
      | Inr ethTx \<Rightarrow>
         (let median =
                (if n div 2 - 1 < txIndex \<and> d_median d = None
                 then (case Quantity_FromBigInt x (etx_GasPrice ethTx) of Inl _ \<Rightarrow> None | Inr q \<Rightarrow> Some q)
                 else d_median d);
              status = (if cr_IsSuccess (twr_Result item) then ucast (ReceiptStatusSuccessful x)
                        else ucast (ReceiptStatusFailed x));
              ethTxs = d_ethTxs d @ [ethTx];
              bhash = HexToHash x (OasisHash_Hex x (ob_EncodedHash blk))
          in case events_loop x (twr_Events item) \<lparr>te_GasUsed = 0, te_GasSpent = 0, te_Logs = []\<rparr> of
               Err e \<Rightarrow> Err e
             | Panic p \<Rightarrow> Panic p
             | Ok a \<Rightarrow>
                (let logs = d_logs d @ Logs2EthLogs (te_Logs a) (ob_Round blk) bhash (etx_Hash ethTx)
                         (word_of_nat (length (d_logs d))) (word_of_nat (length ethTxs - 1));
                     used = (if te_GasUsed a = 0 then etx_Gas ethTx else te_GasUsed a)
                 in case effective_price ethTx used (te_GasSpent a) of
                      Err e \<Rightarrow> Err e
                    | Panic p \<Rightarrow> Panic p
                    | Ok price \<Rightarrow>
                       Ok \<lparr>d_ethTxs = ethTxs, d_logs = logs, d_status = d_status d @ [status],
                           d_gas = d_gas d @ [\<lparr>tg_used = used, tg_effectivePrice = price\<rparr>],
                           d_results = d_results d @ [twr_Result item], d_median = median\<rparr>)))"

fun decode_loop :: "ext \<Rightarrow> OasisBlock \<Rightarrow> int \<Rightarrow> int \<Rightarrow> TxWithResults list \<Rightarrow> decoded \<Rightarrow> decoded outcome" where
  "decode_loop x blk n i [] d = Ok d"
| "decode_loop x blk n i (item # items) d =
     (case decode_tx x blk n i item d of
        Ok d' \<Rightarrow> decode_loop x blk n (i + 1) items d' | Err e \<Rightarrow> Err e | Panic p \<Rightarrow> Panic p)"

definition empty_decoded :: decoded where
  "empty_decoded = \<lparr>d_ethTxs = [], d_logs = [], d_status = [], d_gas = [], d_results = [], d_median = None\<rparr>"

definition decode_txs :: "ext \<Rightarrow> OasisBlock \<Rightarrow> TxWithResults list \<Rightarrow> decoded outcome" where
  "decode_txs x blk items = decode_loop x blk (int (length items)) 0 items empty_decoded"

subsection \<open>Receipts for the RPC API\<close>

definition eth_log :: "ext \<Rightarrow> Log \<Rightarrow> EthLog" where
  "eth_log x l = \<lparr>el_Address = HexToAddress x (log_Address l), el_Topics = map (HexToHash x) (log_Topics l),
     el_Data = fst (hex_DecodeString (log_Data l)), el_BlockNumber = log_Round l,
     el_TxHash = HexToHash x (log_TxHash l), el_TxIndex = log_TxIndex l,
     el_BlockHash = HexToHash x (log_BlockHash l), el_Index = log_Index l, el_Removed = log_Removed l\<rparr>"

text \<open>The JSON object of a receipt; \<open>None\<close> is \<open>nil\<close>.\<close>

record EthReceipt =
  er_status :: u64
  er_cumulativeGasUsed :: u64
  er_logsBloom :: bytes
  er_logs :: "EthLog list"
  er_transactionHash :: string
  er_gasUsed :: u64
  er_type :: u64
  er_blockHash :: string
  er_blockNumber :: u64
  er_transactionIndex :: u64
  er_from :: "string option"
  er_to :: "string option"
  er_contractAddress :: "string option"
  er_effectiveGasPrice :: "int option"

definition non_empty :: "string \<Rightarrow> string option" where
  "non_empty s = (if s = [] then None else Some s)"

definition db2EthReceipt :: "ext \<Rightarrow> Receipt \<Rightarrow> EthReceipt" where
  "db2EthReceipt x r =
     (let ethLogs = map (eth_log x) (rc_Logs r) in
      \<lparr>er_status = rc_Status r, er_cumulativeGasUsed = rc_CumulativeGasUsed r,
       er_logsBloom = BytesToBloom x (logsBloom x ethLogs), er_logs = ethLogs,
       er_transactionHash = rc_TransactionHash r, er_gasUsed = rc_GasUsed r, er_type = rc_Type r,
       er_blockHash = rc_BlockHash r, er_blockNumber = rc_Round r,
       er_transactionIndex = rc_TransactionIndex r, er_from = non_empty (rc_FromAddr r),
       er_to = non_empty (rc_ToAddr r), er_contractAddress = non_empty (rc_ContractAddress r),
       er_effectiveGasPrice = big_SetString (rc_EffectiveGasPrice r)\<rparr>)"

subsection \<open>Shape of the decoded block\<close>

text \<open>
  The four slices run in parallel, log indices count up from zero through the whole block, and
  a log names the position and the hash of the transaction that emitted it.
\<close>

definition decoded_ok :: "decoded \<Rightarrow> bool" where
  "decoded_ok d \<longleftrightarrow> length (d_status d) = length (d_ethTxs d) \<and> length (d_gas d) = length (d_ethTxs d)
     \<and> length (d_results d) = length (d_ethTxs d)
     \<and> map el_Index (d_logs d) = map word_of_nat [0..<length (d_logs d)]
     \<and> (\<forall>l \<in> set (d_logs d). \<exists>k < length (d_ethTxs d).
          el_TxIndex l = ucast (word_of_nat k :: u32) \<and> el_TxHash l = etx_Hash (d_ethTxs d ! k))"

lemma length_Logs2EthLogs [simp]: "length (Logs2EthLogs ls n bh th si ti) = length ls"
  by (simp add: Logs2EthLogs_def)

lemma Logs2EthLogs_index:
  "map el_Index (Logs2EthLogs ls n bh th (word_of_nat k) ti) = map word_of_nat [k..<k + length ls]"
  by (rule nth_equalityI) (auto simp: Logs2EthLogs_def nth_enumerate_eq)

lemma Logs2EthLogs_tx:
  "l \<in> set (Logs2EthLogs ls n bh th si ti) \<Longrightarrow> el_TxIndex l = ucast ti \<and> el_TxHash l = th"
  by (auto simp: Logs2EthLogs_def)

lemma decode_tx_ok:
  assumes "decoded_ok d" and "decode_tx x blk n i item d = Ok d'"
  shows "decoded_ok d'"
proof (cases "is_ethereum_tx item")
  case False
  then consider "d' = d" | m where "d' = d\<lparr>d_median := m\<rparr>"
    using assms(2) by (auto simp: decode_tx_def split: if_splits sum.splits)
  then show ?thesis using assms(1) by cases (simp_all add: decoded_ok_def)
next
  case True
  with assms(2) obtain e where u: "Tx_UnmarshalBinary x (twr_Body item) = Inr e"
    by (auto simp: decode_tx_def split: sum.splits)
  with True assms(2) obtain a where ev:
      "events_loop x (twr_Events item) \<lparr>te_GasUsed = 0, te_GasSpent = 0, te_Logs = []\<rparr> = Ok a"
    by (auto simp: decode_tx_def Let_def split: outcome.splits)
  with True u assms(2) obtain p where
      pr: "effective_price e (if te_GasUsed a = 0 then etx_Gas e else te_GasUsed a) (te_GasSpent a) = Ok p"
    by (auto simp: decode_tx_def Let_def split: outcome.splits)
  have e: "d_ethTxs d' = d_ethTxs d @ [e]"
    and l: "d_logs d' = d_logs d @ Logs2EthLogs (te_Logs a) (ob_Round blk)
        (HexToHash x (OasisHash_Hex x (ob_EncodedHash blk))) (etx_Hash e)
        (word_of_nat (length (d_logs d))) (word_of_nat (length (d_ethTxs d)))"
    and r: "length (d_status d') = Suc (length (d_status d))" "length (d_gas d') = Suc (length (d_gas d))"
      "length (d_results d') = Suc (length (d_results d))"
    using True u ev pr assms(2) by (auto simp: decode_tx_def Let_def)
  have "\<exists>k < length (d_ethTxs d'). el_TxIndex y = ucast (word_of_nat k :: u32)
      \<and> el_TxHash y = etx_Hash (d_ethTxs d' ! k)" if "y \<in> set (d_logs d')" for y
  proof (cases "y \<in> set (d_logs d)")
    case True
    with assms(1) obtain k where "k < length (d_ethTxs d)" "el_TxIndex y = ucast (word_of_nat k :: u32)"
      "el_TxHash y = etx_Hash (d_ethTxs d ! k)" unfolding decoded_ok_def by blast
    then show ?thesis by (intro exI [of _ k]) (simp add: e nth_append)
  next
    case False
    with that l have "el_TxIndex y = ucast (word_of_nat (length (d_ethTxs d)) :: u32)" "el_TxHash y = etx_Hash e"
      by (auto dest: Logs2EthLogs_tx)
    then show ?thesis by (intro exI [of _ "length (d_ethTxs d)"]) (simp add: e)
  qed
  moreover have "map el_Index (d_logs d') = map word_of_nat [0..<length (d_logs d')]"
  proof -
    have "[0..<length (d_logs d')] = [0..<length (d_logs d)] @ [length (d_logs d)..<length (d_logs d')]"
      using l by (simp add: upt_add_eq_append [of 0, simplified])
    with assms(1) l show ?thesis by (simp add: decoded_ok_def Logs2EthLogs_index)
  qed
  ultimately show ?thesis using assms(1) e r by (simp add: decoded_ok_def)
qed

lemma decode_loop_ok: "decoded_ok d \<Longrightarrow> decode_loop x blk n i items d = Ok d' \<Longrightarrow> decoded_ok d'"
  by (induction items arbitrary: i d) (auto split: outcome.splits dest: decode_tx_ok)

lemma decode_txs_ok: "decode_txs x blk items = Ok d \<Longrightarrow> decoded_ok d"
  unfolding decode_txs_def
  by (erule decode_loop_ok [rotated]) (simp add: decoded_ok_def empty_decoded_def)

subsection \<open>Shape of the models\<close>

lemma ethToModelLogs_fold:
  assumes "fold (\<lambda>el (res, txLogs). let log = model_log x el; txHash = log_TxHash log in
             (res @ [log], gm_store txHash (get_logs_of txLogs txHash @ [log]) txLogs)) els (res, m) = (res', m')"
  shows "res' = res @ map (model_log x) els
    \<and> get_logs_of m' h = get_logs_of m h @ filter (\<lambda>l. log_TxHash l = h) (map (model_log x) els)"
  using assms
proof (induction els arbitrary: res m)
  case Nil
  then show ?case by simp
next
  case (Cons el els)
  let ?log = "model_log x el"
  let ?m1 = "gm_store (log_TxHash ?log) (get_logs_of m (log_TxHash ?log) @ [?log]) m"
  have "get_logs_of ?m1 h = get_logs_of m h @ (if log_TxHash ?log = h then [?log] else [])"
    by (auto simp: get_logs_of_def)
  with Cons.IH [of "res @ [?log]" ?m1] Cons.prems show ?case by (simp add: Let_def)
qed

text \<open>The logs of a transaction are the logs of the block with its hash, in block order.\<close>

lemma ethToModelLogs_spec:
  assumes "ethToModelLogs x els = (dbLogs, txLogs)"
  shows "dbLogs = map (model_log x) els" and "get_logs_of txLogs h = filter (\<lambda>l. log_TxHash l = h) dbLogs"
  using ethToModelLogs_fold [OF assms [unfolded ethToModelLogs_def], of h]
  by (simp_all add: get_logs_of_def)

lemma models_loop_spec:
  assumes "models_loop x bh n tls bl idx cum es sts gs rs = Ok (txs, rcs, c)"
  shows "length txs = length es \<and> length rcs = length es
    \<and> c = cum + sum_list (map tg_used (take (length es) gs))
    \<and> (\<forall>k < length es. txs ! k = model_tx x bh n (idx + k) (es ! k) (sts ! k)
         \<and> (\<exists>addr. rcs ! k = (model_receipt x (txs ! k) (get_logs_of tls (tx_Hash (txs ! k))) bl
                (cum + sum_list (map tg_used (take (Suc k) gs))) (idx + k) (gs ! k))\<lparr>rc_ContractAddress := addr\<rparr>))"
  using assms
proof (induction x bh n tls bl idx cum es sts gs rs arbitrary: txs rcs c rule: models_loop.induct)
  case (2 x bh n tls bl idx cum e es st sts g gs r rs)
  let ?tx = "model_tx x bh n idx e st"
  let ?rc = "model_receipt x ?tx (get_logs_of tls (tx_Hash ?tx)) bl (cum + tg_used g) idx g"
  from "2.prems" obtain txs' rcs' addr where
    rest: "models_loop x bh n tls bl (Suc idx) (cum + tg_used g) es sts gs rs = Ok (txs', rcs', c)"
    and eqs: "txs = ?tx # txs'" "rcs = ?rc\<lparr>rc_ContractAddress := addr\<rparr> # rcs'"
    by (simp add: Let_def model_receipt_def split: outcome.splits if_splits sum.splits prod.splits) blast+
  have IH: "length txs' = length es \<and> length rcs' = length es
    \<and> c = cum + tg_used g + sum_list (map tg_used (take (length es) gs))
    \<and> (\<forall>k < length es. txs' ! k = model_tx x bh n (Suc idx + k) (es ! k) (sts ! k)
         \<and> (\<exists>addr. rcs' ! k = (model_receipt x (txs' ! k) (get_logs_of tls (tx_Hash (txs' ! k))) bl
                (cum + tg_used g + sum_list (map tg_used (take (Suc k) gs))) (Suc idx + k) (gs ! k))\<lparr>rc_ContractAddress := addr\<rparr>))"
    by (rule "2.IH" [OF refl refl refl rest])
  show ?case
  proof (intro conjI allI impI)
    fix k assume "k < length (e # es)"
    with IH eqs show "txs ! k = model_tx x bh n (idx + k) ((e # es) ! k) ((st # sts) ! k)"
      by (cases k) auto
    show "\<exists>addr. rcs ! k = (model_receipt x (txs ! k)
        (get_logs_of tls (tx_Hash (txs ! k))) bl (cum + sum_list (map tg_used (take (Suc k) (g # gs)))) (idx + k)
        ((g # gs) ! k))\<lparr>rc_ContractAddress := addr\<rparr>"
    proof (cases k)
      case 0
      with eqs show ?thesis by auto
    next
      case (Suc j)
      with \<open>k < length (e # es)\<close> have "j < length es" by simp
      with IH obtain addr' where "rcs' ! j = (model_receipt x (txs' ! j) (get_logs_of tls (tx_Hash (txs' ! j))) bl
          (cum + tg_used g + sum_list (map tg_used (take (Suc j) gs))) (Suc idx + j) (gs ! j))\<lparr>rc_ContractAddress := addr'\<rparr>"
        by blast
      with Suc eqs show ?thesis by (intro exI [of _ addr']) (simp add: add.assoc)
    qed
  qed (use IH eqs in \<open>auto simp: add.assoc\<close>)
qed auto

lemma models_loop_no_panic:
  "length sts = length es \<Longrightarrow> length gs = length es \<Longrightarrow> length rs = length es \<Longrightarrow>
     models_loop x bh n tls bl idx cum es sts gs rs \<noteq> Panic p"
  by (induction x bh n tls bl idx cum es sts gs rs rule: models_loop.induct)
    (auto simp: Let_def split: outcome.splits sum.splits)

text \<open>Which transactions survive decoding, and with which status.\<close>

definition tx_status :: "ext \<Rightarrow> TxWithResults \<Rightarrow> u8" where
  "tx_status x item = (if cr_IsSuccess (twr_Result item) then ucast (ReceiptStatusSuccessful x)
     else ucast (ReceiptStatusFailed x))"

lemma decode_tx_result:
  assumes "decode_tx x blk n i item d = Ok d'"
  shows "(\<not> is_ethereum_tx item \<longrightarrow> d_ethTxs d' = d_ethTxs d \<and> d_status d' = d_status d \<and> d_results d' = d_results d)
    \<and> (is_ethereum_tx item \<longrightarrow> (\<exists>e. Tx_UnmarshalBinary x (twr_Body item) = Inr e \<and> d_ethTxs d' = d_ethTxs d @ [e])
         \<and> d_status d' = d_status d @ [tx_status x item] \<and> d_results d' = d_results d @ [twr_Result item])"
  using assms by (auto simp: decode_tx_def tx_status_def Let_def split: if_splits sum.splits outcome.splits)

lemma decode_loop_result:
  assumes "decode_loop x blk n i items d = Ok d'"
  shows "map Inr (d_ethTxs d') = map Inr (d_ethTxs d) @
      map (\<lambda>item. Tx_UnmarshalBinary x (twr_Body item)) (filter is_ethereum_tx items)
    \<and> d_status d' = d_status d @ map (tx_status x) (filter is_ethereum_tx items)
    \<and> d_results d' = d_results d @ map twr_Result (filter is_ethereum_tx items)"
  using assms
proof (induction items arbitrary: i d)
  case Nil
  then show ?case by simp
next
  case (Cons item items)
  then obtain d1 where step: "decode_tx x blk n i item d = Ok d1"
      and rest: "decode_loop x blk n (i + 1) items d1 = Ok d'"
    by (auto split: outcome.splits)
  from Cons.IH [OF rest] decode_tx_result [OF step] show ?case by auto
qed

subsection \<open>Properties\<close>

text \<open>
  C23: decoding a runtime block keeps exactly the Ethereum transactions, in block order, each
  with its call result and the receipt status that result stands for.
\<close>

theorem decode_keeps_ethereum_txs:
  assumes "decode_txs x blk items = Ok d"
  shows "map Inr (d_ethTxs d) = map (\<lambda>item. Tx_UnmarshalBinary x (twr_Body item)) (filter is_ethereum_tx items)
    \<and> d_status d = map (tx_status x) (filter is_ethereum_tx items)
    \<and> d_results d = map twr_Result (filter is_ethereum_tx items)"
  using decode_loop_result [OF assms [unfolded decode_txs_def]] by (simp add: empty_decoded_def)

definition example_block :: OasisBlock where
  "example_block = \<lparr>ob_Round = 7, ob_Timestamp = 0, ob_HeaderType = Normal, ob_PreviousHash = replicate 32 8,
     ob_StateRoot = replicate 32 9, ob_IORoot = replicate 32 10, ob_EncodedHash = replicate 32 11\<rparr>"

definition example_item :: "bytes \<Rightarrow> bool \<Rightarrow> TxWithResults" where
  "example_item body ok = \<lparr>twr_Body = body, twr_AuthProofs = [''evm.ethereum.v0''],
     twr_Result = \<lparr>cr_IsSuccess = ok, cr_Ok = []\<rparr>, twr_Events = []\<rparr>"

lemma example_decode:
  "decode_txs example_ext example_block [example_item [1] True, (example_item [2] True)\<lparr>twr_AuthProofs := []\<rparr>] =
     Ok \<lparr>d_ethTxs = [example_etx\<lparr>etx_Hash := replicate 32 1\<rparr>], d_logs = [], d_status = [1],
        d_gas = [\<lparr>tg_used = 21000, tg_effectivePrice = 7\<rparr>], d_results = [\<lparr>cr_IsSuccess = True, cr_Ok = []\<rparr>],
        d_median = None\<rparr>"
  by (simp add: decode_txs_def decode_tx_def empty_decoded_def is_ethereum_tx_def example_item_def
      example_ext_def example_etx_def Logs2EthLogs_def effective_price_def Let_def)

theorem decode_keeps_ethereum_txs_witness:
  "\<exists>d. decode_txs example_ext example_block [example_item [1] True, (example_item [2] True)\<lparr>twr_AuthProofs := []\<rparr>] = Ok d
     \<and> d_status d = [1]"
proof -
  let ?items = "[example_item [1] True, (example_item [2] True)\<lparr>twr_AuthProofs := []\<rparr>]"
  obtain d where d: "decode_txs example_ext example_block ?items = Ok d" using example_decode by blast
  from decode_keeps_ethereum_txs [OF d] have "d_status d = [1]"
    by (simp add: is_ethereum_tx_def example_item_def tx_status_def example_ext_def)
  with d show ?thesis by blast
qed

text \<open>
  C24: in a decoded block the transaction, status, gas and result slices run in parallel, the
  log indices count from zero through the whole block without a gap, and each log carries the
  position and the hash of the transaction, among the Ethereum transactions of the block, that
  emitted it.
\<close>

theorem decoded_block_shape:
  assumes "decode_txs x blk items = Ok d"
  shows "length (d_status d) = length (d_ethTxs d) \<and> length (d_gas d) = length (d_ethTxs d)
    \<and> length (d_results d) = length (d_ethTxs d)
    \<and> map el_Index (d_logs d) = map word_of_nat [0..<length (d_logs d)]
    \<and> (\<forall>l \<in> set (d_logs d). \<exists>k < length (d_ethTxs d).
          el_TxIndex l = ucast (word_of_nat k :: u32) \<and> el_TxHash l = etx_Hash (d_ethTxs d ! k))"
  using decode_txs_ok [OF assms] by (simp add: decoded_ok_def)

definition example_log_ext :: ext where
  "example_log_ext = example_ext\<lparr>cbor_Logs := (\<lambda>_. Inr [\<lparr>ol_Address = replicate 20 4, ol_Topics = [], ol_Data = [5]\<rparr>])\<rparr>"

definition example_log_item :: "bytes \<Rightarrow> TxWithResults" where
  "example_log_item body = (example_item body True)\<lparr>twr_Events := [\<lparr>ev_Module = ''evm'', ev_Code = 1, ev_Value = []\<rparr>]\<rparr>"

theorem decoded_block_shape_witness:
  "\<exists>d. decode_txs example_log_ext example_block [example_log_item [1], example_log_item [2]] = Ok d
     \<and> map el_Index (d_logs d) = [0, 1]"
proof -
  have "\<exists>d. decode_txs example_log_ext example_block [example_log_item [1], example_log_item [2]] = Ok d
      \<and> length (d_logs d) = 2"
    by (simp add: decode_txs_def decode_tx_def empty_decoded_def is_ethereum_tx_def example_item_def
      example_log_item_def example_log_ext_def example_ext_def example_etx_def event_step_def
      effective_price_def Let_def)
  then obtain d where d: "decode_txs example_log_ext example_block [example_log_item [1], example_log_item [2]] = Ok d"
    and l: "length (d_logs d) = 2" by blast
  from decoded_block_shape [OF d] have "map el_Index (d_logs d) = map word_of_nat [0..<length (d_logs d)]"
    by blast
  also have "\<dots> = map word_of_nat [0, 1]" unfolding l by (simp add: numeral_2_eq_2)
  finally have "map el_Index (d_logs d) = [0, 1]" by simp
  with d show ?thesis by (intro exI [of _ d] conjI)
qed

text \<open>
  converting a decoded block to database models never panics: no index of the status, gas
  or result slices is out of range, whatever the events and results of the transactions are.
\<close>

lemma block_to_models_no_panic:
  assumes "decode_txs x blk items = Ok d"
  shows "blockToModels x blk (d_ethTxs d) (d_logs d) (d_status d) (d_gas d) (d_results d) gasLimit baseFee \<noteq> Panic p"
proof -
  have "length (d_status d) = length (d_ethTxs d)" "length (d_gas d) = length (d_ethTxs d)"
    "length (d_results d) = length (d_ethTxs d)"
    using decode_txs_ok [OF assms] by (simp_all add: decoded_ok_def)
  from models_loop_no_panic [OF this] show ?thesis
    by (simp add: blockToModels_def Let_def split: outcome.splits prod.splits)
qed

lemma block_to_models_no_panic_example:
  "\<exists>d. decode_txs example_ext example_block [example_item [1] True, (example_item [2] True)\<lparr>twr_AuthProofs := []\<rparr>] = Ok d
     \<and> blockToModels example_ext example_block (d_ethTxs d) (d_logs d) (d_status d) (d_gas d) (d_results d) 0 0
        \<noteq> Panic ''index out of range''"
proof -
  let ?items = "[example_item [1] True, (example_item [2] True)\<lparr>twr_AuthProofs := []\<rparr>]"
  obtain d where d: "decode_txs example_ext example_block ?items = Ok d" using example_decode by blast
  from d block_to_models_no_panic [OF d] show ?thesis by blast
qed

end
