(* ===== verification/Eth_Utils.thy ===== *)
theory Eth_Utils
  imports Index_Convert
begin

text \<open>
  \<^verbatim>\<open>rpc/utils\<close>: the conversion of database rows to what the JSON-RPC API returns
  (transactions, blocks, logs and headers), and the topic filter. A pointer that may be nil is an
  option; in particular a decimal string that does not parse gives a nil number, as
  \<open>big.Int.SetString\<close> does.
\<close>

subsection \<open>Transactions\<close>

record RPCTransaction =
  rt_BlockHash :: "bytes option"
  rt_BlockNumber :: "int option"
  rt_From :: bytes
  rt_Gas :: u64
  rt_GasPrice :: "int option"
  rt_GasFeeCap :: "int option"
  rt_GasTipCap :: "int option"
  rt_Hash :: bytes
  rt_Input :: bytes
  rt_Nonce :: u64
  rt_To :: "bytes option"
  rt_TransactionIndex :: "u64 option"
  rt_Value :: "int option"
  rt_Type :: u64
  rt_Accesses :: "EthAccessTuple list option"
  rt_ChainID :: "int option"
  rt_V :: "int option"
  rt_R :: "int option"
  rt_S :: "int option"

definition rpc_access :: "ext \<Rightarrow> AccessTuple \<Rightarrow> EthAccessTuple" where
  "rpc_access x item = \<lparr>eat_Address = HexToAddress x (at_Address item),
     eat_StorageKeys = map (HexToHash x) (at_StorageKeys item)\<rparr>"

definition NewRPCTransaction :: "ext \<Rightarrow> Transaction \<Rightarrow> RPCTransaction" where
  "NewRPCTransaction x dbTx =
     \<lparr>rt_BlockHash = Some (HexToHash x (tx_BlockHash dbTx)), rt_BlockNumber = Some (uint (tx_Round dbTx)),
      rt_From = (if tx_FromAddr dbTx = [] then replicate 20 0 else HexToAddress x (tx_FromAddr dbTx)),
      rt_Gas = tx_Gas dbTx, rt_GasPrice = big_SetString (tx_GasPrice dbTx),
      rt_GasFeeCap = big_SetString (tx_GasFeeCap dbTx), rt_GasTipCap = big_SetString (tx_GasTipCap dbTx),
      rt_Hash = HexToHash x (tx_Hash dbTx), rt_Input = Hex2Bytes x (tx_Data dbTx), rt_Nonce = tx_Nonce dbTx,
      rt_To = (if tx_ToAddr dbTx = [] then None else Some (HexToAddress x (tx_ToAddr dbTx))),
      rt_TransactionIndex = Some (ucast (tx_Index dbTx)), rt_Value = big_SetString (tx_Value dbTx),
      rt_Type = ucast (tx_Type dbTx), rt_Accesses = Some (map (rpc_access x) (tx_AccessList dbTx)),
      rt_ChainID = big_SetString (tx_ChainID dbTx), rt_V = big_SetString (tx_V dbTx),
      rt_R = big_SetString (tx_R dbTx), rt_S = big_SetString (tx_S dbTx)\<rparr>"

text \<open>\<open>TransactionArgs\<close>: the arguments of \<open>eth_call\<close> and \<open>eth_estimateGas\<close>.\<close>

record TransactionArgs =
  ta_From :: "bytes option"
  ta_To :: "bytes option"
  ta_Gas :: "u64 option"
  ta_GasPrice :: "int option"
  ta_MaxFeePerGas :: "int option"
  ta_MaxPriorityFeePerGas :: "int option"
  ta_Value :: "int option"
  ta_Nonce :: "u64 option"
  ta_Data :: "bytes option"
  ta_Input :: "bytes option"
  ta_AccessList :: "EthAccessTuple list option"
  ta_ChainID :: "int option"

subsection \<open>Logs, headers and blocks\<close>

definition DB2EthLogs :: "ext \<Rightarrow> Log list \<Rightarrow> EthLog list" where
  "DB2EthLogs x dbLogs = map (\<lambda>l.
     \<lparr>el_Address = HexToAddress x (log_Address l), el_Topics = map (HexToHash x) (log_Topics l),
      el_Data = fst (hex_DecodeString (log_Data l)), el_BlockNumber = log_Round l,
      el_TxHash = HexToHash x (log_TxHash l), el_TxIndex = log_TxIndex l,
      el_BlockHash = HexToHash x (log_BlockHash l), el_Index = log_Index l, el_Removed = log_Removed l\<rparr>) dbLogs"

record EthHeader =
  eh_ParentHash :: bytes
  eh_UncleHash :: bytes
  eh_Coinbase :: bytes
  eh_Root :: bytes
  eh_TxHash :: bytes
  eh_ReceiptHash :: bytes
  eh_Bloom :: bytes
  eh_Difficulty :: "int option"
  eh_Number :: int
  eh_GasLimit :: u64
  eh_GasUsed :: u64
  eh_Time :: u64
  eh_Extra :: bytes
  eh_MixDigest :: bytes
  eh_Nonce :: bytes
  eh_BaseFee :: "int option"

text \<open>\<open>Header.Bloom[2:]\<close> is a slice expression: a bloom string shorter than two bytes is a panic.\<close>

definition DB2EthHeader :: "ext \<Rightarrow> Block \<Rightarrow> EthHeader outcome" where
  "DB2EthHeader x b =
     (let h = blk_Header b in
      if length (hdr_Bloom h) < 2 then Panic ''slice bounds out of range''
      else Ok \<lparr>eh_ParentHash = HexToHash x (hdr_ParentHash h), eh_UncleHash = HexToHash x (hdr_UncleHash h),
        eh_Coinbase = HexToAddress x (hdr_Coinbase h), eh_Root = HexToHash x (hdr_Root h),
        eh_TxHash = HexToHash x (hdr_TxHash h), eh_ReceiptHash = HexToHash x (hdr_ReceiptHash h),
        eh_Bloom = BytesToBloom x (fst (hex_DecodeString (drop 2 (hdr_Bloom h)))),
        eh_Difficulty = big_SetString (hdr_Difficulty h), eh_Number = uint (blk_Round b),
        eh_GasLimit = hdr_GasLimit h, eh_GasUsed = hdr_GasUsed h, eh_Time = hdr_Time h,
        eh_Extra = map of_char (hdr_Extra h), eh_MixDigest = HexToHash x (hdr_MixDigest h),
        eh_Nonce = EncodeNonce x (hdr_Nonce h), eh_BaseFee = big_SetString (hdr_BaseFee h)\<rparr>)"

datatype rpc_txs = FullTxs "RPCTransaction list" | TxHashes "bytes list"

text \<open>The JSON object of a block; \<open>extraData\<close> is the text \<^verbatim>\<open>0x\<close> for an empty header field.\<close>

record EthBlock =
  eb_header :: EthHeader
  eb_number :: u64
  eb_transactions :: rpc_txs
  eb_hash :: bytes
  eb_size :: nat
  eb_totalDifficulty :: int
  eb_uncles :: "Header list"
  eb_extraData :: "string + bytes"

definition ConvertToEthBlock :: "ext \<Rightarrow> Block \<Rightarrow> bool \<Rightarrow> EthBlock outcome" where
  "ConvertToEthBlock x b fullTx =
     (let txs = map (NewRPCTransaction x) (blk_Transactions b) in
      case DB2EthHeader x b of
        Err e \<Rightarrow> Err e
      | Panic p \<Rightarrow> Panic p
      | Ok h \<Rightarrow> Ok \<lparr>eb_header = h, eb_number = blk_Round b,
          eb_transactions = (if fullTx then FullTxs txs else TxHashes (map rt_Hash txs)),
          eb_hash = HexToHash x (blk_Hash b), eb_size = length (cbor_Marshal_Block x b), eb_totalDifficulty = 0,
          eb_uncles = [], eb_extraData = (if eh_Extra h = [] then Inl ''0x'' else Inr (eh_Extra h))\<rparr>)"

subsection \<open>Topics\<close>

text \<open>The loop over the positions; \<open>i\<close> is the index into the log's topics.\<close>

fun topics_loop :: "bytes list \<Rightarrow> nat \<Rightarrow> bytes list list \<Rightarrow> bool" where
  "topics_loop ts i [] = True"
| "topics_loop ts i (positionFilters # rest) =
     (if positionFilters = [] then topics_loop ts (Suc i) rest
      else if \<exists>topic \<in> set positionFilters. topic = ts ! i then topics_loop ts (Suc i) rest
      else False)"

definition TopicsMatch :: "EthLog \<Rightarrow> bytes list list \<Rightarrow> bool" where
  "TopicsMatch log filterTopics =
     (if length (el_Topics log) < length filterTopics then False else topics_loop (el_Topics log) 0 filterTopics)"

text \<open>The documented meaning: every non-empty position lists the log's topic at that position.\<close>

definition topics_spec :: "bytes list \<Rightarrow> bytes list list \<Rightarrow> bool" where
  "topics_spec ts fs \<longleftrightarrow> length fs \<le> length ts \<and> list_all2 (\<lambda>f t. f = [] \<or> t \<in> set f) fs (take (length fs) ts)"

lemma topics_loop_spec: "topics_loop ts i fs \<longleftrightarrow> (\<forall>k < length fs. fs ! k = [] \<or> ts ! (i + k) \<in> set (fs ! k))"
proof (induction fs arbitrary: i)
  case (Cons f fs)
  have "(\<forall>k < length (f # fs). (f # fs) ! k = [] \<or> ts ! (i + k) \<in> set ((f # fs) ! k)) \<longleftrightarrow>
      (f = [] \<or> ts ! i \<in> set f) \<and> (\<forall>k < length fs. fs ! k = [] \<or> ts ! (Suc i + k) \<in> set (fs ! k))"
    by (auto simp: nth_Cons less_Suc_eq_0_disj)
  with Cons show ?case by auto
qed simp

lemma TopicsMatch_iff: "TopicsMatch log fs \<longleftrightarrow> topics_spec (el_Topics log) fs"
  by (auto simp: TopicsMatch_def topics_spec_def topics_loop_spec list_all2_conv_all_nth)

text \<open>
  A filter matches exactly when it has no more positions than the log has topics and every non-empty
  position contains the log's topic at that position; an empty filter matches every log.
\<close>

lemma topics_match_documented:
  "TopicsMatch log fs \<longleftrightarrow> length fs \<le> length (el_Topics log)
     \<and> list_all2 (\<lambda>f t. f = [] \<or> t \<in> set f) fs (take (length fs) (el_Topics log))"
  by (simp add: TopicsMatch_iff topics_spec_def)

subsection \<open>Round trips through the database\<close>

definition eth_log_ok :: "EthLog \<Rightarrow> bool" where
  "eth_log_ok l \<longleftrightarrow> is_address (el_Address l) \<and> (\<forall>t \<in> set (el_Topics l). is_hash t)
     \<and> is_hash (el_TxHash l) \<and> is_hash (el_BlockHash l)"

lemma ethToModelLogs_logs: "fst (ethToModelLogs x ls) = map (model_log x) ls"
  using ethToModelLogs_spec by (metis prod.collapse)

lemma map_hash_codec: "hash_codec x \<Longrightarrow> \<forall>t \<in> set ts. is_hash t \<Longrightarrow> map (HexToHash x \<circ> Hash_Hex x) ts = ts"
  by (auto simp: hash_codec_def intro: map_idI)

lemma DB2EthLogs_model_log:
  assumes "hash_codec x" "addr_codec x" "\<forall>l \<in> set ls. eth_log_ok l"
  shows "DB2EthLogs x (map (model_log x) ls) = ls"
  using assms(3)
proof (induction ls)
  case (Cons l ls)
  then have l: "eth_log_ok l" by simp
  have "HexToAddress x (Address_Hex x (el_Address l)) = el_Address l" "HexToHash x (Hash_Hex x (el_TxHash l)) = el_TxHash l"
    "HexToHash x (Hash_Hex x (el_BlockHash l)) = el_BlockHash l" "map (HexToHash x \<circ> Hash_Hex x) (el_Topics l) = el_Topics l"
    using l assms(1,2) map_hash_codec [OF assms(1)] by (simp_all add: eth_log_ok_def addr_codec_def hash_codec_def)
  with Cons show ?case by (simp add: DB2EthLogs_def model_log_def)
qed (simp add: DB2EthLogs_def)

text \<open>
  logs survive storage: the logs of a block, converted to database rows and back for the API, are the
  logs the runtime emitted, in order, data and topics included.
\<close>

lemma log_roundtrip:
  assumes "hash_codec x" and "addr_codec x" and "\<forall>l \<in> set ls. eth_log_ok l"
  shows "DB2EthLogs x (fst (ethToModelLogs x ls)) = ls"
  by (simp add: ethToModelLogs_logs DB2EthLogs_model_log [OF assms])

definition example_eth_log :: EthLog where
  "example_eth_log = \<lparr>el_Address = replicate 20 4, el_Topics = [replicate 32 6], el_Data = [5], el_BlockNumber = 7,
     el_TxHash = replicate 32 1, el_TxIndex = 0, el_BlockHash = replicate 32 11, el_Index = 0, el_Removed = False\<rparr>"

lemma log_roundtrip_example:
  "DB2EthLogs example_ext (fst (ethToModelLogs example_ext [example_eth_log])) = [example_eth_log]"
proof (rule log_roundtrip)
  show "\<forall>l \<in> set [example_eth_log]. eth_log_ok l"
    by (simp add: eth_log_ok_def example_eth_log_def is_address_def is_hash_def)
qed (simp_all add: example_ext_codecs)

definition eth_tx_ok :: "EthTx \<Rightarrow> bool" where
  "eth_tx_ok e \<longleftrightarrow> is_hash (etx_Hash e) \<and> (\<forall>to. etx_To e = Some to \<longrightarrow> is_address to)
     \<and> (\<forall>a \<in> set (etx_AccessList e). is_address (eat_Address a) \<and> (\<forall>k \<in> set (eat_StorageKeys a). is_hash k))"

definition sender_of :: "ext \<Rightarrow> EthTx \<Rightarrow> bytes" where
  "sender_of x e = Signer_Sender x (if etx_ChainId e = 0 then None else Some (etx_ChainId e)) e"

lemma rpc_access_model:
  assumes "hash_codec x" "addr_codec x"
    and "is_address (eat_Address a)" "\<forall>k \<in> set (eat_StorageKeys a). is_hash k"
  shows "rpc_access x (model_access x a) = a"
  using assms map_hash_codec [OF assms(1,4)] by (simp add: rpc_access_def model_access_def addr_codec_def)

text \<open>
  transactions survive storage: what the API returns for a stored transaction is the original
  Ethereum transaction, with its recovered sender, block hash, round and index.
\<close>

lemma rpc_transaction_roundtrip:
  assumes "hash_codec x" and "addr_codec x" and "hex_codec x" and "eth_tx_ok e"
    and "is_address (sender_of x e)" and "idx < 2 ^ 32"
  shows "NewRPCTransaction x (model_tx x bhash round idx e status) =
     \<lparr>rt_BlockHash = Some (HexToHash x bhash), rt_BlockNumber = Some (uint round), rt_From = sender_of x e,
      rt_Gas = etx_Gas e, rt_GasPrice = Some (etx_GasPrice e), rt_GasFeeCap = Some (etx_GasFeeCap e),
      rt_GasTipCap = Some (etx_GasTipCap e), rt_Hash = etx_Hash e, rt_Input = etx_Data e, rt_Nonce = etx_Nonce e,
      rt_To = etx_To e, rt_TransactionIndex = Some (word_of_nat idx), rt_Value = Some (etx_Value e),
      rt_Type = ucast (etx_Type e), rt_Accesses = Some (etx_AccessList e), rt_ChainID = Some (etx_ChainId e),
      rt_V = Some (etx_V e), rt_R = Some (etx_R e), rt_S = Some (etx_S e)\<rparr>"
proof -
  have acc: "map (rpc_access x) (map (model_access x) (etx_AccessList e)) = etx_AccessList e"
    using assms(4) by (auto simp: eth_tx_ok_def intro!: map_idI rpc_access_model [OF assms(1,2)])
  have idx: "ucast (word_of_nat idx :: u32) = (word_of_nat idx :: u64)"
    using assms(6) by (simp add: unsigned_of_nat take_bit_nat_eq_self)
  have snd_ok: "Address_Hex x (sender_of x e) \<noteq> []" "HexToAddress x (Address_Hex x (sender_of x e)) = sender_of x e"
    using assms(2,5) by (simp_all add: addr_codec_def)
  have to: "(if (case etx_To e of None \<Rightarrow> [] | Some to \<Rightarrow> Address_Hex x to) = [] then None
      else Some (HexToAddress x (case etx_To e of None \<Rightarrow> [] | Some to \<Rightarrow> Address_Hex x to))) = etx_To e"
    using assms(2,4) by (auto simp: addr_codec_def eth_tx_ok_def split: option.split)
  have h: "HexToHash x (Hash_Hex x (etx_Hash e)) = etx_Hash e" using assms(1,4) by (simp add: hash_codec_def eth_tx_ok_def)
  have d: "Hex2Bytes x (hex_EncodeToString (etx_Data e)) = etx_Data e" using assms(3) by (simp add: hex_codec_def)
  show ?thesis
    using snd_ok to unfolding NewRPCTransaction_def model_tx_def Let_def sender_of_def [symmetric]
    by (simp add: h d idx acc [simplified] split: if_split_asm)
qed

lemma rpc_transaction_roundtrip_example:
  "rt_To (NewRPCTransaction example_ext (model_tx example_ext ''0x0b'' 7 0 example_etx 1)) = Some (replicate 20 2)"
proof -
  have c: "hash_codec example_ext" "addr_codec example_ext" "hex_codec example_ext" using example_ext_codecs by auto
  have t: "eth_tx_ok example_etx" by (simp add: eth_tx_ok_def example_etx_def is_hash_def is_address_def)
  have f: "is_address (sender_of example_ext example_etx)" by (simp add: sender_of_def example_ext_def is_address_def)
  show ?thesis using rpc_transaction_roundtrip [OF c t f, of 0 "''0x0b''" 7 1] by (simp add: example_etx_def)
qed

end
