(* ===== verification/Archive_Client.thy ===== *)
theory Archive_Client
  imports Eth_Utils
begin

text \<open>
  \<^verbatim>\<open>archive/archive.go\<close>: the client for an archival web3 gateway. The \<open>ethclient\<close> it wraps is a
  parameter, whose answers depend on the number of the call.
\<close>

record CallMsg =
  cm_From :: bytes
  cm_To :: "bytes option"
  cm_Gas :: u64
  cm_GasPrice :: "int option"
  cm_GasFeeCap :: "int option"
  cm_GasTipCap :: "int option"
  cm_Value :: "int option"
  cm_Data :: bytes
  cm_AccessList :: "EthAccessTuple list"

record ethclient =
  ec_BlockNumber :: "nat \<Rightarrow> gerror + u64"
  ec_StorageAt :: "nat \<Rightarrow> bytes \<Rightarrow> bytes \<Rightarrow> int \<Rightarrow> gerror + bytes"
  ec_BalanceAt :: "nat \<Rightarrow> bytes \<Rightarrow> int \<Rightarrow> gerror + int"
  ec_NonceAt :: "nat \<Rightarrow> bytes \<Rightarrow> int \<Rightarrow> gerror + u64"
  ec_CodeAt :: "nat \<Rightarrow> bytes \<Rightarrow> int \<Rightarrow> gerror + bytes"
  ec_CallContract :: "nat \<Rightarrow> CallMsg \<Rightarrow> int \<Rightarrow> gerror + bytes"

record Client =
  cl_inner :: ethclient
  cl_latestBlock :: u64

definition LatestBlock :: "Client \<Rightarrow> u64" where
  "LatestBlock c = cl_latestBlock c"

definition wrap_sum :: "string \<Rightarrow> gerror + 'a \<Rightarrow> 'a outcome" where
  "wrap_sum msg r = (case r of Inl e \<Rightarrow> Err (Wrapf msg e) | Inr y \<Rightarrow> Ok y)"

definition NewClient :: "(gerror + ethclient) \<Rightarrow> u64 \<Rightarrow> Client outcome" where
  "NewClient dialed heightMax = (case dialed of
       Inl e \<Rightarrow> Err (Wrapf ''archive: failed to dial archival web3 node'' e)
     | Inr c \<Rightarrow>
        (if heightMax = 0
         then (case ec_BlockNumber c 0 of
                 Inl e \<Rightarrow> Err (Wrapf ''archive: failed to query block number'' e)
               | Inr n \<Rightarrow> Ok \<lparr>cl_inner = c, cl_latestBlock = n\<rparr>)
         else Ok \<lparr>cl_inner = c, cl_latestBlock = heightMax\<rparr>))"

definition ar_GetStorageAt :: "Client \<Rightarrow> bytes \<Rightarrow> bytes \<Rightarrow> u64 \<Rightarrow> nat \<Rightarrow> bytes outcome" where
  "ar_GetStorageAt c address slot blockNr t =
     wrap_sum ''archive: failed to query storage'' (ec_StorageAt (cl_inner c) t address slot (uint blockNr))"

definition ar_GetBalance :: "Client \<Rightarrow> bytes \<Rightarrow> u64 \<Rightarrow> nat \<Rightarrow> int outcome" where
  "ar_GetBalance c address blockNr t =
     wrap_sum ''archive: failed to query balance'' (ec_BalanceAt (cl_inner c) t address (uint blockNr))"

definition ar_GetTransactionCount :: "Client \<Rightarrow> bytes \<Rightarrow> u64 \<Rightarrow> nat \<Rightarrow> u64 outcome" where
  "ar_GetTransactionCount c address blockNr t =
     wrap_sum ''archive: failed to query nonce'' (ec_NonceAt (cl_inner c) t address (uint blockNr))"

definition ar_GetCode :: "Client \<Rightarrow> bytes \<Rightarrow> u64 \<Rightarrow> nat \<Rightarrow> bytes outcome" where
  "ar_GetCode c address blockNr t =
     wrap_sum ''archive: failed to query code'' (ec_CodeAt (cl_inner c) t address (uint blockNr))"

definition call_msg :: "TransactionArgs \<Rightarrow> bytes \<Rightarrow> CallMsg" where
  "call_msg args from_addr =
     \<lparr>cm_From = from_addr, cm_To = ta_To args, cm_Gas = (case ta_Gas args of None \<Rightarrow> 0 | Some g \<Rightarrow> g),
      cm_GasPrice = ta_GasPrice args, cm_GasFeeCap = ta_MaxFeePerGas args, cm_GasTipCap = ta_MaxPriorityFeePerGas args,
      cm_Value = ta_Value args,
      cm_Data = (case ta_Input args of Some i \<Rightarrow> i | None \<Rightarrow> (case ta_Data args of Some d \<Rightarrow> d | None \<Rightarrow> [])),
      cm_AccessList = (case ta_AccessList args of None \<Rightarrow> [] | Some l \<Rightarrow> l)\<rparr>"

definition ar_Call :: "Client \<Rightarrow> TransactionArgs \<Rightarrow> u64 \<Rightarrow> nat \<Rightarrow> bytes outcome" where
  "ar_Call c args blockNr t = (case ta_From args of
       None \<Rightarrow> Err (Errorf ''archive: no `from` in call'')
     | Some from_addr \<Rightarrow>
        wrap_sum ''archive: failed to call contract'' (ec_CallContract (cl_inner c) t (call_msg args from_addr) (uint blockNr)))"

end
