(* ===== verification/Storage.thy ===== *)
theory Storage
  imports Db_Model "HOL-Library.Product_Lexorder"
begin

text \<open>
  The storage layer: the \<open>storage.Storage\<close> interface (\<^verbatim>\<open>storage/types.go\<close>), the tables and keys
  of the schema (\<^verbatim>\<open>db/migrations/20211213143752_initial.up.sql\<close>) and the SQL statements that
  \<^verbatim>\<open>storage/psql/psql.go\<close> runs on them. The statements are given the meaning SQL gives them;
  what the database server decides on its own is left open: any statement may fail
  (\<open>faults\<close>, one entry per statement), and rows come back in any order where the statement has
  no \<open>ORDER BY\<close> (\<open>scan_txs\<close>, \<open>scan_logs\<close>).
\<close>

subsection \<open>Keyed tables and the contract of the storage interface\<close>

text \<open>
  The contract documented in \<^verbatim>\<open>storage/types.go\<close>: \<open>Insert\<close> fails on a conflict,
  \<open>InsertIfNotExists\<close> keeps an existing record, \<open>Upsert\<close> replaces it, \<open>Delete\<close> removes the
  records with a round below the given one.
\<close>

locale record_store =
  fixes lookup :: "'t \<Rightarrow> 'k \<Rightarrow> 'r option"
    and key :: "'r \<Rightarrow> 'k"
    and round :: "'r \<Rightarrow> u64"
    and insert :: "'r \<Rightarrow> 't \<Rightarrow> gerror + 't"
    and insert_if_not_exists :: "'r \<Rightarrow> 't \<Rightarrow> 't"
    and upsert :: "'r \<Rightarrow> 't \<Rightarrow> 't"
    and delete_below :: "u64 \<Rightarrow> 't \<Rightarrow> 't"
    and invar :: "'t \<Rightarrow> bool"
  assumes insert_fresh: "invar t \<Longrightarrow> lookup t (key r) = None \<Longrightarrow>
      \<exists>t'. insert r t = Inr t' \<and> invar t' \<and> lookup t' = (lookup t)(key r \<mapsto> r)"
    and insert_conflict: "lookup t (key r) \<noteq> None \<Longrightarrow> \<exists>e. insert r t = Inl e"
    and lookup_insert_if_not_exists: "invar t \<Longrightarrow>
      lookup (insert_if_not_exists r t) =
        (if lookup t (key r) = None then (lookup t)(key r \<mapsto> r) else lookup t)"
    and lookup_upsert: "invar t \<Longrightarrow> lookup (upsert r t) = (lookup t)(key r \<mapsto> r)"
    and lookup_delete_below: "invar t \<Longrightarrow> lookup (delete_below n t) k =
        (case lookup t k of Some r \<Rightarrow> if round r < n then None else Some r | None \<Rightarrow> None)"
    and invar_insert_if_not_exists: "invar t \<Longrightarrow> invar (insert_if_not_exists r t)"
    and invar_upsert: "invar t \<Longrightarrow> invar (upsert r t)"
    and invar_delete_below: "invar t \<Longrightarrow> invar (delete_below n t)"
begin

lemma insert_ok_iff: "invar t \<Longrightarrow> (\<exists>t'. insert r t = Inr t') \<longleftrightarrow> lookup t (key r) = None"
  using insert_fresh insert_conflict by (metis sum.distinct(1))

lemma insert_okD: "invar t \<Longrightarrow> insert r t = Inr t' \<Longrightarrow>
    lookup t (key r) = None \<and> invar t' \<and> lookup t' = (lookup t)(key r \<mapsto> r)"
  using insert_fresh [of t r] insert_ok_iff [of t r] by auto

text \<open>Inserting an existing record changes nothing, upserting is last-writer-wins.\<close>

lemma insert_if_not_exists_existing:
  "invar t \<Longrightarrow> lookup t (key r) = Some r' \<Longrightarrow> lookup (insert_if_not_exists r t) = lookup t"
  by (simp add: lookup_insert_if_not_exists)

lemma upsert_upsert_same:
  "invar t \<Longrightarrow> key r = key r' \<Longrightarrow> lookup (upsert r (upsert r' t)) = lookup (upsert r t)"
  by (simp add: lookup_upsert invar_upsert)

text \<open>After a delete exactly the records of retained rounds are left.\<close>

lemma delete_below_retained:
  "invar t \<Longrightarrow> lookup (delete_below n t) k = Some r \<longleftrightarrow> lookup t k = Some r \<and> n \<le> round r"
  by (auto simp: lookup_delete_below not_less split: option.splits if_splits)

end

text \<open>A table is a list of rows; a primary key is a function of the row.\<close>

definition tbl_lookup :: "('r \<Rightarrow> 'k) \<Rightarrow> 'r list \<Rightarrow> 'k \<Rightarrow> 'r option" where
  "tbl_lookup pk rows k = find (\<lambda>r. pk r = k) rows"

definition duplicate_key :: gerror where
  "duplicate_key = ErrExt ''duplicate key value violates unique constraint''"

definition tbl_insert :: "('r \<Rightarrow> 'k) \<Rightarrow> 'r \<Rightarrow> 'r list \<Rightarrow> gerror + 'r list" where
  "tbl_insert pk r rows =
     (if tbl_lookup pk rows (pk r) = None then Inr (rows @ [r]) else Inl duplicate_key)"

definition tbl_insert_do_nothing :: "('r \<Rightarrow> 'k) \<Rightarrow> 'r \<Rightarrow> 'r list \<Rightarrow> 'r list" where
  "tbl_insert_do_nothing pk r rows = (if tbl_lookup pk rows (pk r) = None then rows @ [r] else rows)"

definition tbl_insert_do_update :: "('r \<Rightarrow> 'k) \<Rightarrow> 'r \<Rightarrow> 'r list \<Rightarrow> 'r list" where
  "tbl_insert_do_update pk r rows =
     (if tbl_lookup pk rows (pk r) = None then rows @ [r]
      else map (\<lambda>x. if pk x = pk r then r else x) rows)"

definition tbl_delete_below :: "('r \<Rightarrow> u64) \<Rightarrow> u64 \<Rightarrow> 'r list \<Rightarrow> 'r list" where
  "tbl_delete_below round n rows = filter (\<lambda>r. \<not> round r < n) rows"

definition tbl_unique :: "('r \<Rightarrow> 'k) \<Rightarrow> 'r list \<Rightarrow> bool" where
  "tbl_unique pk rows = distinct (map pk rows)"

lemmas tbl_defs = tbl_insert_def tbl_insert_do_nothing_def tbl_insert_do_update_def
  tbl_delete_below_def

lemma tbl_lookup_None_iff: "tbl_lookup pk rows k = None \<longleftrightarrow> k \<notin> pk ` set rows"
  by (auto simp: tbl_lookup_def find_None_iff)

lemma tbl_lookup_Nil [simp]: "tbl_lookup pk [] k = None"
  by (simp add: tbl_lookup_def)

lemma tbl_lookup_Cons: "tbl_lookup pk (r # rows) k = (if pk r = k then Some r else tbl_lookup pk rows k)"
  by (simp add: tbl_lookup_def)

lemma tbl_lookup_append: "tbl_lookup pk (xs @ ys) k =
    (case tbl_lookup pk xs k of Some r \<Rightarrow> Some r | None \<Rightarrow> tbl_lookup pk ys k)"
  by (simp add: tbl_lookup_def find_append split: option.split)

lemma tbl_lookup_SomeD: "tbl_lookup pk rows k = Some r \<Longrightarrow> r \<in> set rows \<and> pk r = k"
  by (auto simp: tbl_lookup_def find_Some_iff)

lemma tbl_lookup_unique:
  "tbl_unique pk rows \<Longrightarrow> r \<in> set rows \<Longrightarrow> tbl_lookup pk rows (pk r) = Some r"
  by (induction rows) (auto simp: tbl_unique_def tbl_lookup_Cons)

lemma tbl_lookup_update:
  "tbl_lookup pk (map (\<lambda>x. if pk x = pk r then r else x) rows) k =
     (if k = pk r \<and> tbl_lookup pk rows k \<noteq> None then Some r else tbl_lookup pk rows k)"
  by (induction rows) (auto simp: tbl_lookup_Cons)

lemma tbl_lookup_filter:
  "tbl_unique pk rows \<Longrightarrow> tbl_lookup pk (filter P rows) k =
     (case tbl_lookup pk rows k of Some r \<Rightarrow> if P r then Some r else None | None \<Rightarrow> None)"
proof (induction rows)
  case Nil
  then show ?case by simp
next
  case (Cons r rows)
  then have "tbl_unique pk rows" and "tbl_lookup pk rows (pk r) = None"
    by (auto simp: tbl_unique_def tbl_lookup_None_iff)
  with Cons.IH show ?case
    by (auto simp: tbl_lookup_Cons split: option.splits)
qed

lemma tbl_unique_append:
  "tbl_lookup pk rows (pk r) = None \<Longrightarrow> tbl_unique pk rows \<Longrightarrow> tbl_unique pk (rows @ [r])"
  by (auto simp: tbl_unique_def tbl_lookup_None_iff)

interpretation tbl: record_store "tbl_lookup pk" pk round "tbl_insert pk" "tbl_insert_do_nothing pk"
    "tbl_insert_do_update pk" "tbl_delete_below round" "tbl_unique pk"
  for pk :: "'r \<Rightarrow> 'k" and round :: "'r \<Rightarrow> u64"
proof unfold_locales
  fix t :: "'r list" and r :: 'r and k :: 'k and n :: u64
  show "tbl_unique pk t \<Longrightarrow> tbl_lookup pk t (pk r) = None \<Longrightarrow>
      \<exists>t'. tbl_insert pk r t = Inr t' \<and> tbl_unique pk t' \<and> tbl_lookup pk t' = (tbl_lookup pk t)(pk r \<mapsto> r)"
    by (auto simp: tbl_insert_def tbl_lookup_append tbl_lookup_Cons fun_eq_iff tbl_unique_append
        split: option.splits)
  show "tbl_lookup pk t (pk r) \<noteq> None \<Longrightarrow> \<exists>e. tbl_insert pk r t = Inl e"
    by (simp add: tbl_insert_def)
  show "tbl_unique pk t \<Longrightarrow> tbl_lookup pk (tbl_insert_do_nothing pk r t) =
      (if tbl_lookup pk t (pk r) = None then (tbl_lookup pk t)(pk r \<mapsto> r) else tbl_lookup pk t)"
    by (auto simp: tbl_insert_do_nothing_def tbl_lookup_append tbl_lookup_Cons fun_eq_iff
        split: option.splits)
  show "tbl_unique pk t \<Longrightarrow> tbl_lookup pk (tbl_insert_do_update pk r t) = (tbl_lookup pk t)(pk r \<mapsto> r)"
    by (auto simp: tbl_insert_do_update_def tbl_lookup_append tbl_lookup_Cons fun_eq_iff
        tbl_lookup_update split: option.splits)
  show "tbl_unique pk t \<Longrightarrow> tbl_lookup pk (tbl_delete_below round n t) k =
      (case tbl_lookup pk t k of Some r \<Rightarrow> if round r < n then None else Some r | None \<Rightarrow> None)"
    by (simp add: tbl_delete_below_def tbl_lookup_filter split: option.splits)
  show "tbl_unique pk t \<Longrightarrow> tbl_unique pk (tbl_insert_do_nothing pk r t)"
    by (auto simp: tbl_insert_do_nothing_def tbl_unique_def tbl_lookup_None_iff)
  show "tbl_unique pk t \<Longrightarrow> tbl_unique pk (tbl_insert_do_update pk r t)"
  proof -
    have "map pk (map (\<lambda>x. if pk x = pk r then r else x) t) = map pk t" by simp
    moreover assume "tbl_unique pk t"
    ultimately show ?thesis
      by (auto simp: tbl_insert_do_update_def tbl_unique_def tbl_lookup_None_iff simp del: map_map)
  qed
  show "tbl_unique pk t \<Longrightarrow> tbl_unique pk (tbl_delete_below round n t)"
    by (simp add: tbl_delete_below_def tbl_unique_def distinct_map_filter)
qed

end
