(* ===== verification/Psql.thy ===== *)
theory Psql
  imports Storage
begin

text \<open>
  \<^verbatim>\<open>storage/psql/psql.go\<close>: the PostgreSQL implementation of \<open>storage.Storage\<close>. A \<open>PostDB\<close>
  wraps either the connection pool or an open transaction (\<open>handle\<close>); the state is the
  committed tables, the statements of the open transaction, and what the server still has to
  decide (failures, row order).
\<close>

subsection \<open>Tables, statements and their effect\<close>

record tables =
  transactions :: "Transaction list"
  blocks :: "Block list"
  logs :: "Log list"
  receipts :: "Receipt list"
  indexed_rounds :: "IndexedRoundWithTip list"

definition empty_tables :: tables where
  "empty_tables = \<lparr>transactions = [], blocks = [], logs = [], receipts = [], indexed_rounds = []\<rparr>"

datatype row =
    RowTransaction Transaction
  | RowBlock Block
  | RowLog Log
  | RowReceipt Receipt
  | RowTip IndexedRoundWithTip

datatype tbl_name = TblTransaction | TblBlock | TblLog | TblReceipt | TblTip

text \<open>What an \<open>INSERT\<close> does on a primary key conflict.\<close>

datatype on_conflict = Raise | DoNothing | DoUpdate

datatype stmt = InsertStmt on_conflict row | DeleteStmt tbl_name u64

definition tbl_put :: "on_conflict \<Rightarrow> ('r \<Rightarrow> 'k) \<Rightarrow> 'r \<Rightarrow> 'r list \<Rightarrow> gerror + 'r list" where
  "tbl_put oc pk r rows = (case oc of
       Raise \<Rightarrow> tbl_insert pk r rows
     | DoNothing \<Rightarrow> Inr (tbl_insert_do_nothing pk r rows)
     | DoUpdate \<Rightarrow> Inr (tbl_insert_do_update pk r rows))"

definition log_pk :: "Log \<Rightarrow> string \<times> u64" where
  "log_pk l = (log_TxHash l, log_Index l)"

text \<open>
  A has-many relation is not a column: a block row carries no transactions, a receipt row no
  logs. The unique index \<open>block_on_round\<close> makes a second block of a round an error.
\<close>

definition block_row :: "Block \<Rightarrow> Block" where
  "block_row b = b\<lparr>blk_Transactions := []\<rparr>"

definition receipt_row :: "Receipt \<Rightarrow> Receipt" where
  "receipt_row r = r\<lparr>rc_Logs := []\<rparr>"

definition round_taken :: "Block \<Rightarrow> Block list \<Rightarrow> bool" where
  "round_taken b rows = (\<exists>b' \<in> set rows. blk_Round b' = blk_Round b \<and> blk_Hash b' \<noteq> blk_Hash b)"

definition map_right :: "('a \<Rightarrow> 'b) \<Rightarrow> gerror + 'a \<Rightarrow> gerror + 'b" where
  "map_right f x = (case x of Inl e \<Rightarrow> Inl e | Inr y \<Rightarrow> Inr (f y))"

fun run_stmt :: "stmt \<Rightarrow> tables \<Rightarrow> gerror + tables" where
  "run_stmt (InsertStmt oc (RowTransaction x)) t =
     map_right (\<lambda>rows. t\<lparr>transactions := rows\<rparr>) (tbl_put oc tx_Hash x (transactions t))"
| "run_stmt (InsertStmt oc (RowBlock x)) t =
     (if round_taken x (blocks t) then Inl duplicate_key
      else map_right (\<lambda>rows. t\<lparr>blocks := rows\<rparr>) (tbl_put oc blk_Hash (block_row x) (blocks t)))"
| "run_stmt (InsertStmt oc (RowLog x)) t =
     map_right (\<lambda>rows. t\<lparr>logs := rows\<rparr>) (tbl_put oc log_pk x (logs t))"
| "run_stmt (InsertStmt oc (RowReceipt x)) t =
     map_right (\<lambda>rows. t\<lparr>receipts := rows\<rparr>) (tbl_put oc rc_TransactionHash (receipt_row x) (receipts t))"
| "run_stmt (InsertStmt oc (RowTip x)) t =
     map_right (\<lambda>rows. t\<lparr>indexed_rounds := rows\<rparr>) (tbl_put oc ir_Tip x (indexed_rounds t))"
| "run_stmt (DeleteStmt TblTransaction n) t =
     Inr (t\<lparr>transactions := tbl_delete_below tx_Round n (transactions t)\<rparr>)"
| "run_stmt (DeleteStmt TblBlock n) t = Inr (t\<lparr>blocks := tbl_delete_below blk_Round n (blocks t)\<rparr>)"
| "run_stmt (DeleteStmt TblLog n) t = Inr (t\<lparr>logs := tbl_delete_below log_Round n (logs t)\<rparr>)"
| "run_stmt (DeleteStmt TblReceipt n) t =
     Inr (t\<lparr>receipts := tbl_delete_below rc_Round n (receipts t)\<rparr>)"
| "run_stmt (DeleteStmt TblTip n) t =
     Inr (t\<lparr>indexed_rounds := tbl_delete_below ir_Round n (indexed_rounds t)\<rparr>)"

definition apply_stmt :: "stmt \<Rightarrow> tables \<Rightarrow> tables" where
  "apply_stmt st t = (case run_stmt st t of Inl _ \<Rightarrow> t | Inr t' \<Rightarrow> t')"

subsection \<open>The server\<close>

record pgdb =
  committed :: tables
  tx_stmts :: "stmt list"
  tx_aborted :: bool
  faults :: "gerror option list"
  scan_txs :: "Transaction list \<Rightarrow> Transaction list"
  scan_logs :: "Log list \<Rightarrow> Log list"

datatype handle = Pool | InTx

text \<open>What a statement sees: the committed tables, and inside a transaction its own writes.\<close>

definition visible :: "handle \<Rightarrow> pgdb \<Rightarrow> tables" where
  "visible h db = (case h of Pool \<Rightarrow> committed db | InTx \<Rightarrow> fold apply_stmt (tx_stmts db) (committed db))"

text \<open>The server's verdict on the next statement (no entry left: it succeeds).\<close>

definition next_fault :: "pgdb \<Rightarrow> gerror option \<times> pgdb" where
  "next_fault db = (case faults db of [] \<Rightarrow> (None, db) | f # fs \<Rightarrow> (f, db\<lparr>faults := fs\<rparr>))"

text \<open>
  A failed statement aborts the transaction it runs in: PostgreSQL refuses every further
  statement of it.
\<close>

definition abort_tx :: "handle \<Rightarrow> pgdb \<Rightarrow> pgdb" where
  "abort_tx h db = (case h of Pool \<Rightarrow> db | InTx \<Rightarrow> db\<lparr>tx_aborted := True\<rparr>)"

definition in_failed_tx :: gerror where
  "in_failed_tx = ErrExt ''current transaction is aborted''"

definition statement :: "handle \<Rightarrow> (tables \<Rightarrow> gerror + 'a \<times> stmt list) \<Rightarrow> (pgdb, 'a) call" where
  "statement h f db =
     (if h = InTx \<and> tx_aborted db then (Err in_failed_tx, db)
      else case next_fault db of
        (Some e, db') \<Rightarrow> (Err e, abort_tx h db')
      | (None, db') \<Rightarrow>
          (case f (visible h db') of
             Inl e \<Rightarrow> (Err e, abort_tx h db')
           | Inr (x, writes) \<Rightarrow>
               (Ok x, case h of
                  Pool \<Rightarrow> db'\<lparr>committed := fold apply_stmt writes (committed db')\<rparr>
                | InTx \<Rightarrow> db'\<lparr>tx_stmts := tx_stmts db' @ writes\<rparr>)))"

definition exec_stmt :: "handle \<Rightarrow> stmt \<Rightarrow> (pgdb, unit) call" where
  "exec_stmt h st = statement h (\<lambda>t. case run_stmt st t of Inl e \<Rightarrow> Inl e | Inr _ \<Rightarrow> Inr ((), [st]))"

text \<open>
  A \<open>SELECT\<close> that scans into one model: no row is \<open>sql.ErrNoRows\<close>, which the client reports and
  which does not abort a transaction.
\<close>

definition query :: "handle \<Rightarrow> (tables \<Rightarrow> 'a) \<Rightarrow> (pgdb, 'a) call" where
  "query h q = statement h (\<lambda>t. Inr (q t, []))"

definition query_row :: "handle \<Rightarrow> (tables \<Rightarrow> 'a option) \<Rightarrow> (pgdb, 'a) call" where
  "query_row h q = and_then (query h q)
     (\<lambda>res db. case res of None \<Rightarrow> (Err ErrNoRows, db) | Some x \<Rightarrow> (Ok x, db))"

subsection \<open>Operations of PostDB\<close>

text \<open>\<open>value any\<close>: a model, or a slice of models.\<close>

datatype any_value = One row | Slice "row list"

text \<open>
  What bun answers when an index, an \<open>int\<close>, is passed as a model: it is not a model, and the
  statement is never sent.
\<close>

definition insert_index :: "(nat \<Rightarrow> gerror option) \<Rightarrow> nat \<Rightarrow> (pgdb, unit) call" where
  "insert_index bun_int i db = (case bun_int i of Some e \<Rightarrow> (Err e, db) | None \<Rightarrow> (Ok (), db))"

definition GetTransaction :: "handle \<Rightarrow> string \<Rightarrow> (pgdb, Transaction) call" where
  "GetTransaction h hash = query_row h (\<lambda>t. tbl_lookup tx_Hash (transactions t) hash)"

fun Insert :: "(nat \<Rightarrow> gerror option) \<Rightarrow> handle \<Rightarrow> any_value \<Rightarrow> (pgdb, unit) call" where
  "Insert bun_int h (Slice values) = for_each (insert_index bun_int) [0..<length values]"
| "Insert bun_int h (One value) = exec_stmt h (InsertStmt Raise value)"

definition insertSingle :: "handle \<Rightarrow> row \<Rightarrow> bool \<Rightarrow> (pgdb, unit) call" where
  "insertSingle h value upsert = exec_stmt h (InsertStmt (if upsert then DoUpdate else DoNothing) value)"

fun InsertIfNotExists :: "(nat \<Rightarrow> gerror option) \<Rightarrow> handle \<Rightarrow> any_value \<Rightarrow> (pgdb, unit) call" where
  "InsertIfNotExists bun_int h (Slice values) = for_each (insert_index bun_int) [0..<length values]"
| "InsertIfNotExists bun_int h (One value) = insertSingle h value False"

fun Upsert :: "(nat \<Rightarrow> gerror option) \<Rightarrow> handle \<Rightarrow> any_value \<Rightarrow> (pgdb, unit) call" where
  "Upsert bun_int h (Slice values) = for_each (insert_index bun_int) [0..<length values]"
| "Upsert bun_int h (One value) = insertSingle h value True"

definition Delete :: "handle \<Rightarrow> tbl_name \<Rightarrow> u64 \<Rightarrow> (pgdb, unit) call" where
  "Delete h tbl n = exec_stmt h (DeleteStmt tbl n)"

definition GetBlockRound :: "handle \<Rightarrow> string \<Rightarrow> (pgdb, u64) call" where
  "GetBlockRound h hash = and_then (query_row h (\<lambda>t. tbl_lookup blk_Hash (blocks t) hash))
     (\<lambda>b. ret (blk_Round b))"

definition GetBlockHash :: "handle \<Rightarrow> u64 \<Rightarrow> (pgdb, string) call" where
  "GetBlockHash h n = and_then (query_row h (\<lambda>t. tbl_lookup blk_Round (blocks t) n))
     (\<lambda>b. ret (blk_Hash b))"

text \<open>\<open>ORDER BY round DESC LIMIT 1\<close>.\<close>

definition latest_block :: "Block list \<Rightarrow> Block option" where
  "latest_block rows = (case rev (sort_key blk_Round rows) of [] \<Rightarrow> None | b # _ \<Rightarrow> Some b)"

definition GetLatestBlockHash :: "handle \<Rightarrow> (pgdb, string) call" where
  "GetLatestBlockHash h = and_then (query_row h (\<lambda>t. latest_block (blocks t))) (\<lambda>b. ret (blk_Hash b))"

definition GetLastIndexedRound :: "handle \<Rightarrow> (pgdb, u64) call" where
  "GetLastIndexedRound h db =
     (case query_row h (\<lambda>t. tbl_lookup ir_Tip (indexed_rounds t) Continues) db of
        (Ok r, db') \<Rightarrow> (Ok (ir_Round r), db')
      | (Err e, db') \<Rightarrow> if errors_Is e ErrNoRows then (Err ErrNoRoundsIndexed, db') else (Err e, db')
      | (Panic p, db') \<Rightarrow> (Panic p, db'))"

definition GetLastRetainedRound :: "handle \<Rightarrow> (pgdb, u64) call" where
  "GetLastRetainedRound h db =
     (case query_row h (\<lambda>t. tbl_lookup ir_Tip (indexed_rounds t) LastRetained) db of
        (Ok r, db') \<Rightarrow> (Ok (ir_Round r), db')
      | (Err e, db') \<Rightarrow> if errors_Is e ErrNoRows then (Ok 0, db') else (Err e, db')
      | (Panic p, db') \<Rightarrow> (Panic p, db'))"

definition GetLatestBlockNumber :: "handle \<Rightarrow> (pgdb, u64) call" where
  "GetLatestBlockNumber h =
     and_then (query_row h (\<lambda>t. latest_block (blocks t))) (\<lambda>b. ret (blk_Round b))"

text \<open>\<open>Relation("Transactions")\<close>: a second statement loads the rows with the block's hash.\<close>

definition with_transactions :: "handle \<Rightarrow> Block \<Rightarrow> (pgdb, Block) call" where
  "with_transactions h b db = and_then
     (query h (\<lambda>t. filter (\<lambda>x. tx_BlockHash x = blk_Hash b) (transactions t)))
     (\<lambda>txs. ret (b\<lparr>blk_Transactions := scan_txs db txs\<rparr>)) db"

definition GetBlockByHash :: "handle \<Rightarrow> string \<Rightarrow> (pgdb, Block) call" where
  "GetBlockByHash h hash =
     and_then (query_row h (\<lambda>t. tbl_lookup blk_Hash (blocks t) hash)) (with_transactions h)"

definition GetBlockByNumber :: "handle \<Rightarrow> u64 \<Rightarrow> (pgdb, Block) call" where
  "GetBlockByNumber h n =
     and_then (query_row h (\<lambda>t. tbl_lookup blk_Round (blocks t) n)) (with_transactions h)"

definition GetBlockTransactionCountByNumber :: "handle \<Rightarrow> u64 \<Rightarrow> (pgdb, nat) call" where
  "GetBlockTransactionCountByNumber h n =
     and_then (and_then (query_row h (\<lambda>t. tbl_lookup blk_Round (blocks t) n)) (with_transactions h))
       (\<lambda>b. ret (length (blk_Transactions b)))"

definition GetBlockTransactionCountByHash :: "handle \<Rightarrow> string \<Rightarrow> (pgdb, nat) call" where
  "GetBlockTransactionCountByHash h hash =
     and_then (and_then (query_row h (\<lambda>t. tbl_lookup blk_Hash (blocks t) hash)) (with_transactions h))
       (\<lambda>b. ret (length (blk_Transactions b)))"

text \<open>A negative index passes both checks and makes the slice access panic.\<close>

definition GetBlockTransaction :: "handle \<Rightarrow> string \<Rightarrow> int \<Rightarrow> (pgdb, Transaction) call" where
  "GetBlockTransaction h hash txIndex =
     and_then (and_then (query_row h (\<lambda>t. tbl_lookup blk_Hash (blocks t) hash)) (with_transactions h))
       (\<lambda>b db. let txs = blk_Transactions b in
          if length txs = 0 then (Err (Errorf ''the block doesn't have any transactions''), db)
          else if int (length txs) - 1 < txIndex then (Err (Errorf ''index out of range''), db)
          else case index_at txs txIndex of
                 Some tx \<Rightarrow> (Ok tx, db)
               | None \<Rightarrow> (Panic ''index out of range'', db))"

definition GetTransactionReceipt :: "handle \<Rightarrow> string \<Rightarrow> (pgdb, Receipt) call" where
  "GetTransactionReceipt h hash =
     and_then (query_row h (\<lambda>t. tbl_lookup rc_TransactionHash (receipts t) hash))
       (\<lambda>r db. and_then
          (query h (\<lambda>t. filter (\<lambda>l. log_TxHash l = rc_TransactionHash r) (logs t)))
          (\<lambda>ls. ret (r\<lparr>rc_Logs := scan_logs db ls\<rparr>)) db)"

definition GetLogs :: "handle \<Rightarrow> u64 \<Rightarrow> u64 \<Rightarrow> (pgdb, Log list) call" where
  "GetLogs h startRound endRound db = and_then
     (query h (\<lambda>t. filter (\<lambda>l. startRound \<le> log_Round l \<and> log_Round l \<le> endRound) (logs t)))
     (\<lambda>ls. ret (sort_key (\<lambda>l. (log_Round l, log_TxIndex l, log_Index l)) (scan_logs db ls))) db"

text \<open>
  \<open>bun.DB.RunInTx\<close>: \<open>BEGIN\<close>, the function, then \<open>COMMIT\<close> when it returns nil and \<open>ROLLBACK\<close>
  when it returns an error or panics. \<open>COMMIT\<close> of an aborted transaction is a rollback.
\<close>

definition close_tx :: "pgdb \<Rightarrow> pgdb" where
  "close_tx db = db\<lparr>tx_stmts := [], tx_aborted := False\<rparr>"

definition commit_tx :: "(pgdb, unit) call" where
  "commit_tx db = (case next_fault db of
       (Some e, db') \<Rightarrow> (Err e, close_tx db')
     | (None, db') \<Rightarrow>
         (Ok (), if tx_aborted db' then close_tx db'
                 else close_tx (db'\<lparr>committed := visible InTx db'\<rparr>)))"

text \<open>The value of \<open>fn\<close> is what it leaves in the variables it captures.\<close>

definition RunInTransaction :: "handle \<Rightarrow> (handle \<Rightarrow> (pgdb, 'a) call) \<Rightarrow> (pgdb, 'a) call" where
  "RunInTransaction h fn db = (case h of
       InTx \<Rightarrow> (Err (Errorf ''already in a transaction''), db)
     | Pool \<Rightarrow>
        (case next_fault db of
           (Some e, db') \<Rightarrow> (Err e, db')
         | (None, db') \<Rightarrow>
             (case fn InTx (close_tx db') of
                (Ok x, db'') \<Rightarrow> and_then commit_tx (\<lambda>_. ret x) db''
              | (r, db'') \<Rightarrow> (r, close_tx db''))))"

subsection \<open>Key constraints are an invariant of every statement\<close>

definition tables_ok :: "tables \<Rightarrow> bool" where
  "tables_ok t \<longleftrightarrow> tbl_unique tx_Hash (transactions t) \<and> tbl_unique blk_Hash (blocks t)
     \<and> tbl_unique blk_Round (blocks t) \<and> tbl_unique log_pk (logs t)
     \<and> tbl_unique rc_TransactionHash (receipts t) \<and> tbl_unique ir_Tip (indexed_rounds t)"

lemma tbl_put_unique: "tbl_unique pk rows \<Longrightarrow> tbl_put oc pk r rows = Inr rows' \<Longrightarrow> tbl_unique pk rows'"
  by (cases oc) (auto simp: tbl_put_def dest: tbl.insert_okD
      intro: tbl.invar_insert_if_not_exists tbl.invar_upsert)

lemma tbl_put_set: "tbl_put oc pk r rows = Inr rows' \<Longrightarrow>
    set rows' \<subseteq> insert r (set rows)"
  by (cases oc) (auto simp: tbl_put_def tbl_defs split: if_splits)

lemma map_right_Inr [simp]: "map_right f x = Inr z \<longleftrightarrow> (\<exists>y. x = Inr y \<and> z = f y)"
  by (auto simp: map_right_def split: sum.splits)

text \<open>Block rows keep distinct rounds: the unique index refuses a second block of a round.\<close>

lemma tbl_put_rounds:
  assumes u: "tbl_unique blk_Hash bs" "tbl_unique blk_Round bs" and nt: "\<not> round_taken b bs"
    and put: "tbl_put oc blk_Hash (block_row b) bs = Inr bs'"
  shows "tbl_unique blk_Round bs'"
proof -
  let ?b = "block_row b"
  have b [simp]: "blk_Hash ?b = blk_Hash b" "blk_Round ?b = blk_Round b" by (simp_all add: block_row_def)
  consider "bs' = bs" | "bs' = bs @ [?b]" "blk_Hash b \<notin> blk_Hash ` set bs"
    | "bs' = map (\<lambda>x. if blk_Hash x = blk_Hash b then ?b else x) bs"
    using put by (cases oc) (auto simp: tbl_put_def tbl_defs tbl_lookup_None_iff split: if_splits)
  then show ?thesis
  proof cases
    case 1
    then show ?thesis using u by simp
  next
    case 2
    have "blk_Round b \<notin> blk_Round ` set bs"
    proof
      assume "blk_Round b \<in> blk_Round ` set bs"
      then obtain x where x: "x \<in> set bs" "blk_Round x = blk_Round b" by auto
      with nt have "blk_Hash b = blk_Hash x" by (auto simp: round_taken_def)
      with x 2(2) show False by blast
    qed
    with 2 u show ?thesis by (simp add: tbl_unique_def)
  next
    case 3
    have inj: "inj_on blk_Round (set bs)"
      using u(2) by (simp add: tbl_unique_def distinct_map)
    have mem: "x = ?b \<or> x \<in> set bs \<and> blk_Hash x \<noteq> blk_Hash b" if "x \<in> set bs'" for x
      using that 3 by (auto split: if_splits)
    have free: "blk_Round x \<noteq> blk_Round b" if "x \<in> set bs" "blk_Hash x \<noteq> blk_Hash b" for x
      using that nt by (auto simp: round_taken_def)
    have "inj_on blk_Round (set bs')"
    proof (rule inj_onI)
      fix x y assume "x \<in> set bs'" "y \<in> set bs'" and eq: "blk_Round x = blk_Round y"
      then consider "x = ?b" "y = ?b" | "x = ?b" "y \<in> set bs" "blk_Hash y \<noteq> blk_Hash b"
        | "y = ?b" "x \<in> set bs" "blk_Hash x \<noteq> blk_Hash b" | "x \<in> set bs" "y \<in> set bs"
        using mem by blast
      then show "x = y"
        by cases (use eq free b inj in \<open>auto dest: inj_onD\<close>)
    qed
    moreover have "distinct bs'"
    proof -
      have "map blk_Hash bs' = map blk_Hash bs" using 3 by simp
      with u(1) show ?thesis by (metis distinct_map tbl_unique_def)
    qed
    ultimately show ?thesis by (simp add: tbl_unique_def distinct_map)
  qed
qed

lemma unique_filter: "tbl_unique pk rows \<Longrightarrow> tbl_unique pk (filter P rows)"
  by (simp add: tbl_unique_def distinct_map_filter)

lemma run_stmt_ok: "tables_ok t \<Longrightarrow> run_stmt st t = Inr t' \<Longrightarrow> tables_ok t'"
  by (cases "(st, t)" rule: run_stmt.cases)
    (auto simp: tables_ok_def block_row_def receipt_row_def tbl_delete_below_def unique_filter
      split: if_splits dest: tbl_put_unique tbl_put_rounds)

lemma apply_stmt_ok: "tables_ok t \<Longrightarrow> tables_ok (apply_stmt st t)"
  by (auto simp: apply_stmt_def dest: run_stmt_ok split: sum.splits)

lemma fold_apply_stmt_ok: "tables_ok t \<Longrightarrow> tables_ok (fold apply_stmt sts t)"
  by (induction sts arbitrary: t) (auto intro: apply_stmt_ok)

lemma visible_ok: "tables_ok (committed db) \<Longrightarrow> tables_ok (visible h db)"
  by (cases h) (auto simp: visible_def intro: fold_apply_stmt_ok)

subsection \<open>Calls that keep to their transaction\<close>

text \<open>
  A call is transaction-local when it leaves the committed tables alone, and a read when it
  changes neither the committed tables nor the statements of the transaction.
\<close>

named_theorems tx_local_intros

definition tx_local :: "(pgdb, 'a) call \<Rightarrow> bool" where
  "tx_local c \<longleftrightarrow> (\<forall>db. committed (snd (c db)) = committed db)"

lemma tx_localD: "tx_local c \<Longrightarrow> c db = (r, db') \<Longrightarrow> committed db' = committed db"
  unfolding tx_local_def by (metis snd_conv)

lemma tx_localI: "(\<And>db. committed (snd (c db)) = committed db) \<Longrightarrow> tx_local c"
  by (simp add: tx_local_def)

lemma next_fault_frame: "next_fault db = (f, db') \<Longrightarrow>
    committed db' = committed db \<and> tx_stmts db' = tx_stmts db \<and> tx_aborted db' = tx_aborted db"
  by (auto simp: next_fault_def split: list.splits)

lemma abort_tx_committed [simp]: "committed (abort_tx h db) = committed db"
  by (cases h) (simp_all add: abort_tx_def)

lemma tx_local_ret [tx_local_intros]: "tx_local (ret x)"
  by (simp add: tx_local_def ret_def)

lemma tx_local_and_then [tx_local_intros]:
  assumes "tx_local m" and "\<And>x. tx_local (f x)"
  shows "tx_local (and_then m f)"
proof (rule tx_localI)
  fix db
  obtain r db1 where m: "m db = (r, db1)" by (cases "m db")
  from tx_localD [OF assms(1) m] assms(2) show "committed (snd (and_then m f db)) = committed db"
    by (cases r) (auto simp: m tx_local_def)
qed

lemma tx_local_for_each [tx_local_intros]:
  "(\<And>x. tx_local (f x)) \<Longrightarrow> tx_local (for_each f xs)"
  by (induction xs) (auto intro!: tx_local_intros simp del: and_then.simps)

lemma tx_local_statement [tx_local_intros]: "tx_local (statement InTx f)"
  by (auto intro!: tx_localI simp: statement_def dest: next_fault_frame
      split: prod.splits option.splits sum.splits)

lemma tx_local_exec_stmt [tx_local_intros]: "tx_local (exec_stmt InTx st)"
  by (simp add: exec_stmt_def tx_local_statement)

lemma tx_local_query [tx_local_intros]: "tx_local (query h q)"
  by (cases h) (auto intro!: tx_localI
      simp: query_def statement_def dest: next_fault_frame split: prod.splits option.splits)

lemma tx_local_query_row [tx_local_intros]: "tx_local (query_row h q)"
  unfolding query_row_def
  by (rule tx_local_and_then [OF tx_local_query])
    (auto intro!: tx_localI split: option.splits)

subsection \<open>What a successful statement did\<close>

lemma next_fault_visible: "next_fault db = (f, db') \<Longrightarrow> visible h db' = visible h db"
  by (auto simp: visible_def next_fault_frame split: handle.splits)

lemma statement_OkD:
  assumes "statement h f db = (Ok x, db')"
  shows "\<exists>writes. f (visible h db) = Inr (x, writes) \<and> visible h db' = fold apply_stmt writes (visible h db)"
  using assms
  by (auto simp: statement_def visible_def next_fault_frame
      split: if_splits prod.splits option.splits sum.splits handle.splits)

lemma exec_stmt_OkD:
  "exec_stmt h st db = (Ok u, db') \<Longrightarrow> run_stmt st (visible h db) = Inr (visible h db')"
  unfolding exec_stmt_def
  by (auto dest!: statement_OkD simp: apply_stmt_def split: sum.splits)

lemma query_OkD: "query h q db = (Ok x, db') \<Longrightarrow> x = q (visible h db) \<and> visible h db' = visible h db"
  unfolding query_def by (auto dest!: statement_OkD)

lemma query_row_OkD:
  assumes "query_row h q db = (Ok x, db')"
  shows "q (visible h db) = Some x \<and> visible h db' = visible h db"
proof -
  from assms obtain y s' where y: "query h q db = (Ok y, s')"
    and res: "(case y of None \<Rightarrow> (Err ErrNoRows, s') | Some x \<Rightarrow> (Ok x, s')) = (Ok x, db')"
    unfolding query_row_def and_then_Ok_iff by blast
  from res have "y = Some x" and "s' = db'" by (auto split: option.splits)
  with query_OkD [OF y] show ?thesis by simp
qed

lemma GetTransaction_OkD: "GetTransaction h hash db = (Ok tx, db') \<Longrightarrow>
    tbl_lookup tx_Hash (transactions (visible h db)) hash = Some tx \<and> visible h db' = visible h db"
  unfolding GetTransaction_def by (auto dest: query_row_OkD)

text \<open>The effect of a successful write on the table it addresses.\<close>

lemma put_DoUpdate [simp]: "tbl_put DoUpdate pk r rows = Inr (tbl_insert_do_update pk r rows)"
  by (simp add: tbl_put_def)

lemma put_DoNothing [simp]: "tbl_put DoNothing pk r rows = Inr (tbl_insert_do_nothing pk r rows)"
  by (simp add: tbl_put_def)

lemma put_Raise [simp]: "tbl_put Raise pk r rows = tbl_insert pk r rows"
  by (simp add: tbl_put_def)

lemma map_right_Inr_simp [simp]: "map_right f (Inr y) = Inr (f y)"
  by (simp add: map_right_def)

lemma commit_txD: "commit_tx db = (r, db') \<Longrightarrow>
    committed db' = (if r = Ok () \<and> \<not> tx_aborted db then visible InTx db else committed db)"
  by (auto simp: commit_tx_def close_tx_def split: prod.splits option.splits if_splits
      dest: next_fault_frame next_fault_visible [where h = InTx])

text \<open>
  The transaction opens on the committed tables with no statement of its own and no failed
  statement; its end state is published only by a successful commit.
\<close>

lemma close_tx_simps [simp]:
  "committed (close_tx db) = committed db" "tx_stmts (close_tx db) = []" "\<not> tx_aborted (close_tx db)"
  "faults (close_tx db) = faults db"
  by (simp_all add: close_tx_def)

lemma next_fault_None: "next_fault db = (None, db') \<Longrightarrow> faults db' = tl (faults db)"
  by (auto simp: next_fault_def split: list.splits)

lemma run_in_transaction_cases:
  assumes loc: "\<forall>db1 r1 db2. committed db1 = committed db \<longrightarrow> fn InTx db1 = (r1, db2) \<longrightarrow> committed db2 = committed db"
    and run: "RunInTransaction h fn db = (r, db')"
  shows "(\<nexists>x. r = Ok x) \<and> committed db' = committed db \<or>
    (\<exists>x db1 db2. r = Ok x \<and> committed db1 = committed db \<and> tx_stmts db1 = [] \<and> \<not> tx_aborted db1 \<and> faults db1 = tl (faults db)
       \<and> fn InTx db1 = (Ok x, db2) \<and> committed db' = (if tx_aborted db2 then committed db else visible InTx db2))"
proof (cases h)
  case InTx
  with run show ?thesis by (auto simp: RunInTransaction_def)
next
  case Pool
  obtain f db0 where nf: "next_fault db = (f, db0)" by (cases "next_fault db")
  note c0 = next_fault_frame [OF nf]
  show ?thesis
  proof (cases f)
    case (Some e)
    with run nf Pool have "r = Err e" "db' = db0" by (simp_all add: RunInTransaction_def)
    with c0 show ?thesis by simp
  next
    case None
    obtain r2 db2 where fn: "fn InTx (close_tx db0) = (r2, db2)" by (cases "fn InTx (close_tx db0)")
    have "committed (close_tx db0) = committed db" using c0 by simp
    with loc fn have c2: "committed db2 = committed db" by blast
    show ?thesis
    proof (cases r2)
      case (Ok x)
      obtain rc db3 where cm: "commit_tx db2 = (rc, db3)" by (cases "commit_tx db2")
      have r: "(r, db') = (case rc of Ok _ \<Rightarrow> (Ok x, db3) | Err e \<Rightarrow> (Err e, db3) | Panic p \<Rightarrow> (Panic p, db3))"
        using run nf None Pool fn Ok cm by (simp add: RunInTransaction_def ret_def split: outcome.splits)
      have c3: "committed db3 = (if rc = Ok () \<and> \<not> tx_aborted db2 then visible InTx db2 else committed db)"
        using commit_txD [OF cm] c2 by simp
      show ?thesis
      proof (cases rc)
        case rc: (Ok u)
        have "committed (close_tx db0) = committed db \<and> tx_stmts (close_tx db0) = [] \<and> \<not> tx_aborted (close_tx db0)
            \<and> faults (close_tx db0) = tl (faults db) \<and> fn InTx (close_tx db0) = (Ok x, db2)"
          using c0 fn Ok next_fault_None nf None by simp
        moreover have "r = Ok x" "committed db' = (if tx_aborted db2 then committed db else visible InTx db2)"
          using r rc c3 by simp_all
        ultimately show ?thesis by blast
      qed (use r c3 in simp_all)
    next
      case (Err e)
      with run nf None Pool fn c2 show ?thesis by (auto simp: RunInTransaction_def)
    next
      case (Panic p)
      with run nf None Pool fn c2 show ?thesis by (auto simp: RunInTransaction_def)
    qed
  qed
qed

subsection \<open>Properties\<close>


definition example_db :: pgdb where
  "example_db = \<lparr>committed = empty_tables, tx_stmts = [], tx_aborted = False, faults = [],
     scan_txs = id, scan_logs = id\<rparr>"

definition example_tx :: Transaction where
  "example_tx = zero_Transaction\<lparr>tx_Hash := ''0xaa'', tx_Status := 1, tx_Round := 7\<rparr>"


text \<open>
  \<open>GetLogs\<close> answers with exactly the logs of the requested rounds, both ends included,
  sorted by round, transaction index and log index.
\<close>

lemma get_logs_exact:
  assumes "GetLogs h startRound endRound db = (Ok ls, db')"
    and "\<forall>xs. mset (scan_logs db xs) = mset xs"
  shows "mset ls = filter_mset (\<lambda>l. startRound \<le> log_Round l \<and> log_Round l \<le> endRound)
           (mset (logs (visible h db)))
    \<and> sorted (map (\<lambda>l. (log_Round l, log_TxIndex l, log_Index l)) ls)"
  using assms unfolding GetLogs_def and_then_Ok_iff
  by (auto dest!: query_OkD)

definition example_log :: "u64 \<Rightarrow> u64 \<Rightarrow> Log" where
  "example_log n i = zero_Log\<lparr>log_TxHash := ''0xaa'', log_Round := n, log_Index := i\<rparr>"

lemma get_logs_exact_example:
  "\<exists>ls db'. GetLogs Pool 3 5
       (example_db\<lparr>committed := empty_tables\<lparr>logs := [example_log 5 1, example_log 4 0, example_log 9 2]\<rparr>\<rparr>)
       = (Ok ls, db') \<and> mset ls = {#example_log 4 0, example_log 5 1#}"
proof -
  let ?db = "example_db\<lparr>committed := empty_tables\<lparr>logs := [example_log 5 1, example_log 4 0, example_log 9 2]\<rparr>\<rparr>"
  have "\<exists>ls db'. GetLogs Pool 3 5 ?db = (Ok ls, db')"
    by (simp add: GetLogs_def query_def statement_def next_fault_def example_db_def ret_def)
  then obtain ls db' where g: "GetLogs Pool 3 5 ?db = (Ok ls, db')" by blast
  have "\<forall>xs. mset (scan_logs ?db xs) = mset xs" by (simp add: example_db_def)
  from get_logs_exact [OF g this] have "mset ls = {#example_log 4 0, example_log 5 1#}"
    by (simp add: visible_def empty_tables_def example_log_def add_mset_commute)
  with g show ?thesis by blast
qed

text \<open>
  a record that was upserted is the one read back under its key, in the transaction or
  on the pool, and reading any other transaction gives what it gave before.
\<close>

lemma upsert_get_transaction:
  assumes "tables_ok (committed db)"
    and "Upsert bun_int h (One (RowTransaction tx)) db = (Ok (), db')"
    and "GetTransaction h hash db' = (r, db'')" and "\<exists>x. r = Ok x"
  shows "r = (if hash = tx_Hash tx then Ok tx else fst (GetTransaction h hash (db\<lparr>faults := [], tx_aborted := False\<rparr>)))"
proof -
  have u: "tbl_unique tx_Hash (transactions (visible h db))"
    using visible_ok [OF assms(1)] by (simp add: tables_ok_def)
  from assms(2) have v: "transactions (visible h db') = tbl_insert_do_update tx_Hash tx (transactions (visible h db))"
    by (auto simp: insertSingle_def dest!: exec_stmt_OkD dest: sym)
  from assms(4) obtain x where x: "r = Ok x" ..
  with assms(3) have "tbl_lookup tx_Hash (transactions (visible h db')) hash = Some x"
    by (auto dest: GetTransaction_OkD)
  then have l: "((tbl_lookup tx_Hash (transactions (visible h db)))(tx_Hash tx \<mapsto> tx)) hash = Some x"
    by (simp add: v tbl.lookup_upsert [OF u])
  have vis: "visible h (db\<lparr>faults := [], tx_aborted := False\<rparr>) = visible h db"
    by (cases h) (simp_all add: visible_def)
  show ?thesis
    using l x vis by (auto simp: GetTransaction_def query_row_def query_def statement_def next_fault_def
        split: if_splits)
qed

lemma upsert_get_transaction_example:
  "\<exists>db' db''. Upsert (\<lambda>_. None) Pool (One (RowTransaction example_tx)) example_db = (Ok (), db') \<and>
     GetTransaction Pool ''0xaa'' db' = (Ok example_tx, db'')"
proof -
  have ok: "tables_ok (committed example_db)"
    by (simp add: tables_ok_def example_db_def empty_tables_def tbl_unique_def)
  have "\<exists>db'. Upsert (\<lambda>_. None) Pool (One (RowTransaction example_tx)) example_db = (Ok (), db')
      \<and> transactions (committed db') = [example_tx] \<and> faults db' = []"
    by (simp add: insertSingle_def exec_stmt_def statement_def next_fault_def example_db_def
        visible_def empty_tables_def apply_stmt_def tbl_insert_do_update_def)
  then obtain db' where u: "Upsert (\<lambda>_. None) Pool (One (RowTransaction example_tx)) example_db = (Ok (), db')"
      and r: "transactions (committed db') = [example_tx]" "faults db' = []"
    by blast
  obtain r db'' where g: "GetTransaction Pool ''0xaa'' db' = (r, db'')"
    by (cases "GetTransaction Pool ''0xaa'' db'")
  have "\<exists>x. r = Ok x"
    using g r by (auto simp: GetTransaction_def query_row_def query_def statement_def next_fault_def
        visible_def tbl_lookup_Cons example_tx_def)
  from upsert_get_transaction [OF ok u g this] u g show ?thesis
    by (auto simp: example_tx_def)
qed

text \<open>
  passing a slice to \<open>Insert\<close>, \<open>InsertIfNotExists\<close> or \<open>Upsert\<close> never writes a row: the loop
  ranges over the indices of the slice and hands those, not its elements, to the database.
\<close>

lemma slice_insert_writes_nothing:
  "snd (Insert bun_int h (Slice rows) db) = db \<and> snd (InsertIfNotExists bun_int h (Slice rows) db) = db
     \<and> snd (Upsert bun_int h (Slice rows) db) = db"
proof -
  have "snd (for_each (insert_index bun_int) is db) = db" for "is"
    by (induction "is") (auto simp: ret_def insert_index_def split: option.splits)
  then show ?thesis by simp
qed

text \<open>
  The transactions of a block are loaded without an order, so the position in the answer need not be the position in the
  block: a server that returns two rows in the reverse order makes \<open>GetBlockTransaction\<close> answer index 0 with the transaction
  whose stored index is 1.
\<close>

lemma block_transaction_in_scan_order:
  fixes tx0 tx1 :: Transaction
  assumes "tx_BlockHash tx0 = blk_Hash b" and "tx_BlockHash tx1 = blk_Hash b" and "tx_Index tx0 = 0" and "tx_Index tx1 = 1"
  shows "\<exists>db db' tx. (\<forall>xs. mset (scan_txs db xs) = mset xs) \<and> blocks (committed db) = [b] \<and> transactions (committed db) = [tx0, tx1]
    \<and> GetBlockTransaction Pool (blk_Hash b) 0 db = (Ok tx, db') \<and> tx_Index tx \<noteq> 0"
  using assms
  by (intro exI [of _ "example_db\<lparr>committed := empty_tables\<lparr>blocks := [b], transactions := [tx0, tx1]\<rparr>, scan_txs := rev\<rparr>"])
    (simp add: GetBlockTransaction_def with_transactions_def query_row_def query_def statement_def next_fault_def
      example_db_def visible_def tbl_lookup_Cons ret_def index_at_def)

end
