(* ===== verification/Index_Backend.thy ===== *)
theory Index_Backend
  imports Psql Index_Convert
begin

text \<open>
  \<^verbatim>\<open>indexer/backend.go\<close> and the storing half of \<open>StoreBlockData\<close> (\<^verbatim>\<open>indexer/utils.go\<close>): the index
  backend writes a decoded block in one database transaction, then sends a chain event to the
  event system, notifies its observer and broadcasts the block data; it answers the queries of
  the RPC layer from storage and prunes old rounds. The observer is a parameter: its state is
  \<open>ib_observer\<close> and its callback the argument \<open>OnBlockIndexed\<close>, which may panic.
\<close>

subsection \<open>State\<close>

record BlockData =
  bd_Block :: Block
  bd_Receipts :: "Receipt list"
  bd_UniqueTxes :: "Transaction list"
  bd_Median :: "nat option"

record ChainEvent =
  ce_Block :: Block
  ce_Hash :: bytes
  ce_Logs :: "Log list"

text \<open>
  \<open>ib_chainChan\<close> is the channel of the subscribe backend: nil until an event system subscribes,
  then a buffer. \<open>ib_blockNotifier\<close> lists what was broadcast, oldest first.
\<close>

record 'o indexBackend =
  ib_storage :: pgdb
  ib_rtInfo :: "RuntimeInfo option"
  ib_chainChan :: "ChainEvent list option"
  ib_observer :: "'o option"
  ib_blockNotifier :: "BlockData list"

definition chainEvChanSize :: nat where
  "chainEvChanSize = 10"

definition NewIndexBackend :: "pgdb \<Rightarrow> ChainEvent list option \<Rightarrow> 'o indexBackend" where
  "NewIndexBackend db ch = \<lparr>ib_storage = db, ib_rtInfo = None, ib_chainChan = ch, ib_observer = None,
     ib_blockNotifier = []\<rparr>"

definition SetObserver :: "'o \<Rightarrow> 'o indexBackend \<Rightarrow> 'o indexBackend" where
  "SetObserver ob ib = ib\<lparr>ib_observer := Some ob\<rparr>"

subsection \<open>Storing a block\<close>

text \<open>
  The loops of the closure. One iteration adds what it upserted to the captured slice; \<open>None\<close>
  is the \<open>return err\<close> after a failed lookup, which returns the outer \<open>err\<close>, still nil: the
  closure ends there without an error.
\<close>

primrec store_loop :: "('a \<Rightarrow> (pgdb, 'b list option) call) \<Rightarrow> 'a list \<Rightarrow> (pgdb, bool \<times> 'b list) call" where
  "store_loop f [] = ret (False, [])"
| "store_loop f (y # ys) = and_then (f y) (\<lambda>r. case r of
      None \<Rightarrow> ret (True, [])
    | Some ups \<Rightarrow> and_then (store_loop f ys) (\<lambda>(early, rest). ret (early, ups @ rest)))"

definition upsert_tx :: "ext \<Rightarrow> handle \<Rightarrow> Transaction \<Rightarrow> (pgdb, Transaction list option) call" where
  "upsert_tx x h tx = and_then (Upsert (bun_Insert_int x) h (One (RowTransaction tx))) (\<lambda>_. ret (Some [tx]))"

definition store_tx :: "ext \<Rightarrow> handle \<Rightarrow> Transaction \<Rightarrow> (pgdb, Transaction list option) call" where
  "store_tx x h tx db =
     (if tx_Status tx = ReceiptStatusFailed x
      then and_then (InsertIfNotExists (bun_Insert_int x) h (One (RowTransaction tx))) (\<lambda>_. ret (Some [])) db
      else case GetTransaction h (tx_Hash tx) db of
        (Err e, db') \<Rightarrow> if errors_Is e ErrNoRows then upsert_tx x h tx db' else (Ok None, db')
      | (Ok earlierTx, db') \<Rightarrow>
          if tx_Status earlierTx \<noteq> ReceiptStatusFailed x
          then (Err (Errorf ''duplicate tx hash''), db') else upsert_tx x h tx db'
      | (Panic p, db') \<Rightarrow> (Panic p, db'))"

definition upsert_receipt :: "ext \<Rightarrow> handle \<Rightarrow> Receipt \<Rightarrow> (pgdb, Receipt list option) call" where
  "upsert_receipt x h rc = and_then (Upsert (bun_Insert_int x) h (One (RowReceipt rc))) (\<lambda>_. ret (Some [rc]))"

definition store_receipt :: "ext \<Rightarrow> handle \<Rightarrow> Receipt \<Rightarrow> (pgdb, Receipt list option) call" where
  "store_receipt x h rc db =
     (if rc_Status rc = ReceiptStatusFailed x
      then and_then (InsertIfNotExists (bun_Insert_int x) h (One (RowReceipt rc))) (\<lambda>_. ret (Some [])) db
      else case GetTransactionReceipt h (rc_TransactionHash rc) db of
        (Err e, db') \<Rightarrow> if errors_Is e ErrNoRows then upsert_receipt x h rc db' else (Ok None, db')
      | (Ok earlierReceipt, db') \<Rightarrow>
          if rc_Status earlierReceipt \<noteq> ReceiptStatusFailed x
          then (Err (Errorf ''duplicate receipt tx hash''), db') else upsert_receipt x h rc db'
      | (Panic p, db') \<Rightarrow> (Panic p, db'))"

definition store_rest :: "ext \<Rightarrow> Block \<Rightarrow> Log list \<Rightarrow> handle \<Rightarrow> (pgdb, unit) call" where
  "store_rest x blk dbLogs h =
     and_then (for_each (\<lambda>log. Insert (bun_Insert_int x) h (One (RowLog log))) dbLogs) (\<lambda>_.
     and_then (Insert (bun_Insert_int x) h (One (RowBlock blk))) (\<lambda>_.
       Upsert (bun_Insert_int x) h (One (RowTip \<lparr>ir_Tip = Continues, ir_Round = blk_Round blk\<rparr>))))"

text \<open>The closure; its value is the pair of captured slices.\<close>

definition store_models :: "ext \<Rightarrow> Block \<Rightarrow> Transaction list \<Rightarrow> Receipt list \<Rightarrow> Log list \<Rightarrow> handle \<Rightarrow>
    (pgdb, Transaction list \<times> Receipt list) call" where
  "store_models x blk txs rcs dbLogs h =
     and_then (store_loop (store_tx x h) txs) (\<lambda>(early, utxs).
       if early then ret (utxs, [])
       else and_then (store_loop (store_receipt x h) rcs) (\<lambda>(early, urcs).
         if early then ret (utxs, urcs)
         else and_then (store_rest x blk dbLogs h) (\<lambda>_. ret (utxs, urcs))))"

text \<open>A non-blocking send: a nil channel or a full buffer drops the event.\<close>

definition send_or_drop :: "ChainEvent \<Rightarrow> ChainEvent list option \<Rightarrow> ChainEvent list option" where
  "send_or_drop ev ch = (case ch of
       None \<Rightarrow> None
     | Some q \<Rightarrow> if length q < chainEvChanSize then Some (q @ [ev]) else Some q)"

definition publish :: "(BlockData \<Rightarrow> ('o, unit) call) \<Rightarrow> ChainEvent \<Rightarrow> BlockData \<Rightarrow> ('o indexBackend, unit) call" where
  "publish OnBlockIndexed ev bd ib =
     (let ib1 = ib\<lparr>ib_chainChan := send_or_drop ev (ib_chainChan ib)\<rparr>;
          broadcast = (\<lambda>ib. ib\<lparr>ib_blockNotifier := ib_blockNotifier ib @ [bd]\<rparr>)
      in case ib_observer ib1 of
           None \<Rightarrow> (Ok (), broadcast ib1)
         | Some ob \<Rightarrow>
            (case OnBlockIndexed bd ob of
               (Panic p, ob') \<Rightarrow> (Panic p, ib1\<lparr>ib_observer := Some ob'\<rparr>)
             | (_, ob') \<Rightarrow> (Ok (), broadcast (ib1\<lparr>ib_observer := Some ob'\<rparr>))))"

definition gas_limit_of :: "CoreParameters option \<Rightarrow> u64" where
  "gas_limit_of params = (case params of None \<Rightarrow> 0 | Some p \<Rightarrow> cp_MaxBatchGas p)"

definition min_gas_price_of :: "CoreParameters option \<Rightarrow> int" where
  "min_gas_price_of params = (case params of None \<Rightarrow> 0 | Some p \<Rightarrow> int (cp_MinGasPrice p))"

definition block_models :: "ext \<Rightarrow> OasisBlock \<Rightarrow> TxWithResults list \<Rightarrow> CoreParameters option \<Rightarrow>
    ((Block \<times> Transaction list \<times> Receipt list \<times> Log list) \<times> nat option) outcome" where
  "block_models x oblk items params = (case decode_txs x oblk items of
       Err e \<Rightarrow> Err e
     | Panic p \<Rightarrow> Panic p
     | Ok d \<Rightarrow>
        (case blockToModels x oblk (d_ethTxs d) (d_logs d) (d_status d) (d_gas d) (d_results d)
            (gas_limit_of params) (min_gas_price_of params) of
           Err e \<Rightarrow> Err e
         | Panic p \<Rightarrow> Panic p
         | Ok ms \<Rightarrow> Ok (ms, d_median d)))"

definition StoreBlockData :: "ext \<Rightarrow> (BlockData \<Rightarrow> ('o, unit) call) \<Rightarrow> OasisBlock \<Rightarrow> TxWithResults list \<Rightarrow>
    CoreParameters option \<Rightarrow> ('o indexBackend, unit) call" where
  "StoreBlockData x OnBlockIndexed oblk items params ib =
     (case block_models x oblk items params of
        Err e \<Rightarrow> (Err e, ib)
      | Panic p \<Rightarrow> (Panic p, ib)
      | Ok ((blk, txs, rcs, dbLogs), median) \<Rightarrow>
         (case RunInTransaction Pool (store_models x blk txs rcs dbLogs) (ib_storage ib) of
            (Err e, db) \<Rightarrow> (Err e, ib\<lparr>ib_storage := db\<rparr>)
          | (Panic p, db) \<Rightarrow> (Panic p, ib\<lparr>ib_storage := db\<rparr>)
          | (Ok (utxs, urcs), db) \<Rightarrow>
              publish OnBlockIndexed
                \<lparr>ce_Block = blk, ce_Hash = HexToHash x (OasisHash_Hex x (ob_EncodedHash oblk)), ce_Logs = dbLogs\<rparr>
                \<lparr>bd_Block = blk, bd_Receipts = urcs, bd_UniqueTxes = utxs, bd_Median = median\<rparr>
                (ib\<lparr>ib_storage := db\<rparr>)))"

definition Index :: "ext \<Rightarrow> (BlockData \<Rightarrow> ('o, unit) call) \<Rightarrow> OasisBlock \<Rightarrow> TxWithResults list \<Rightarrow>
    CoreParameters option \<Rightarrow> RuntimeInfo option \<Rightarrow> ('o indexBackend, unit) call" where
  "Index x OnBlockIndexed oblk items params rtInfo ib =
     (case StoreBlockData x OnBlockIndexed oblk items params ib of
        (Err e, ib') \<Rightarrow> (Err e, ib')
      | (Panic p, ib') \<Rightarrow> (Panic p, ib')
      | (Ok _, ib') \<Rightarrow> (Ok (), case rtInfo of None \<Rightarrow> ib' | Some ri \<Rightarrow> ib'\<lparr>ib_rtInfo := Some ri\<rparr>))"

subsection \<open>Pruning\<close>

definition on_storage :: "(pgdb, 'a) call \<Rightarrow> ('o indexBackend, 'a) call" where
  "on_storage c ib = (case c (ib_storage ib) of (r, db) \<Rightarrow> (r, ib\<lparr>ib_storage := db\<rparr>))"

definition storeLastRetainedRound :: "ext \<Rightarrow> u64 \<Rightarrow> (pgdb, unit) call" where
  "storeLastRetainedRound x n =
     Upsert (bun_Insert_int x) Pool (One (RowTip \<lparr>ir_Tip = LastRetained, ir_Round = n\<rparr>))"

text \<open>The tip is written through \<open>ib.storage\<close>, the pool, not through the transaction.\<close>

definition Prune :: "ext \<Rightarrow> u64 \<Rightarrow> ('o indexBackend, unit) call" where
  "Prune x n = on_storage (RunInTransaction Pool (\<lambda>s.
     and_then (storeLastRetainedRound x n) (\<lambda>_.
     and_then (Delete s TblBlock n) (\<lambda>_.
     and_then (Delete s TblLog n) (\<lambda>_.
     and_then (Delete s TblTransaction n) (\<lambda>_.
       Delete s TblReceipt n))))))"

subsection \<open>Queries\<close>

definition RuntimeInfoOf :: "'o indexBackend \<Rightarrow> RuntimeInfo option" where
  "RuntimeInfoOf ib = ib_rtInfo ib"

definition ib_BlockNumber :: "('o indexBackend, u64) call" where
  "ib_BlockNumber = on_storage (GetLatestBlockNumber Pool)"

definition ib_blockNumberFromRound :: "ext \<Rightarrow> u64 \<Rightarrow> ('o indexBackend, u64) call" where
  "ib_blockNumberFromRound x n = (if n = RoundLatest x then ib_BlockNumber else ret n)"

definition ib_QueryBlockRound :: "ext \<Rightarrow> bytes \<Rightarrow> ('o indexBackend, u64) call" where
  "ib_QueryBlockRound x blockHash = on_storage (GetBlockRound Pool (Hash_Hex x blockHash))"

definition ib_QueryBlockHash :: "ext \<Rightarrow> u64 \<Rightarrow> ('o indexBackend, bytes) call" where
  "ib_QueryBlockHash x n = on_storage (and_then
     (if n = RoundLatest x then GetLatestBlockHash Pool else GetBlockHash Pool n)
     (\<lambda>h. ret (HexToHash x h)))"

definition ib_QueryLastIndexedRound :: "('o indexBackend, u64) call" where
  "ib_QueryLastIndexedRound = on_storage (GetLastIndexedRound Pool)"

definition ib_QueryLastRetainedRound :: "('o indexBackend, u64) call" where
  "ib_QueryLastRetainedRound ib = (case on_storage (GetLastRetainedRound Pool) ib of
       (Ok n, ib') \<Rightarrow> (Ok n, ib')
     | (Err _, ib') \<Rightarrow> (Err ErrGetLastRetainedRound, ib')
     | (Panic p, ib') \<Rightarrow> (Panic p, ib'))"

definition ib_QueryTransaction :: "ext \<Rightarrow> bytes \<Rightarrow> ('o indexBackend, Transaction) call" where
  "ib_QueryTransaction x txHash = on_storage (GetTransaction Pool (Hash_Hex x txHash))"

definition ib_GetBlockByRound :: "ext \<Rightarrow> u64 \<Rightarrow> ('o indexBackend, Block) call" where
  "ib_GetBlockByRound x n =
     and_then (ib_blockNumberFromRound x n) (\<lambda>num. on_storage (GetBlockByNumber Pool num))"

definition ib_GetBlockByHash :: "ext \<Rightarrow> bytes \<Rightarrow> ('o indexBackend, Block) call" where
  "ib_GetBlockByHash x h = on_storage (GetBlockByHash Pool (Hash_Hex x h))"

definition ib_GetBlockTransactionCountByRound :: "ext \<Rightarrow> u64 \<Rightarrow> ('o indexBackend, nat) call" where
  "ib_GetBlockTransactionCountByRound x n =
     and_then (ib_blockNumberFromRound x n) (\<lambda>num. on_storage (GetBlockTransactionCountByNumber Pool num))"

definition ib_GetBlockTransactionCountByHash :: "ext \<Rightarrow> bytes \<Rightarrow> ('o indexBackend, nat) call" where
  "ib_GetBlockTransactionCountByHash x h = on_storage (GetBlockTransactionCountByHash Pool (Hash_Hex x h))"

definition ib_GetTransactionByBlockHashAndIndex :: "ext \<Rightarrow> bytes \<Rightarrow> int \<Rightarrow> ('o indexBackend, Transaction) call" where
  "ib_GetTransactionByBlockHashAndIndex x h i = on_storage (GetBlockTransaction Pool (Hash_Hex x h) i)"

definition ib_GetTransactionReceipt :: "ext \<Rightarrow> bytes \<Rightarrow> ('o indexBackend, EthReceipt) call" where
  "ib_GetTransactionReceipt x txHash = on_storage (and_then
     (GetTransactionReceipt Pool (Hash_Hex x txHash)) (\<lambda>r. ret (db2EthReceipt x r)))"

definition ib_GetLogs :: "u64 \<Rightarrow> u64 \<Rightarrow> ('o indexBackend, Log list) call" where
  "ib_GetLogs startRound endRound = on_storage (GetLogs Pool startRound endRound)"

subsection \<open>What calls inside a transaction keep of the tables\<close>

text \<open>
  A call keeps a relation when, however it ends, the tables the transaction sees before and
  after are related and the committed tables are untouched. For a preorder this composes; the
  interface is the locale below, interpreted on the relation \<open>tx_final\<close>.
\<close>

definition keeps :: "(tables \<Rightarrow> tables \<Rightarrow> bool) \<Rightarrow> (pgdb, 'a) call \<Rightarrow> bool" where
  "keeps R c \<longleftrightarrow> (\<forall>db r db'. tables_ok (committed db) \<longrightarrow> c db = (r, db') \<longrightarrow>
     committed db' = committed db \<and> R (visible InTx db) (visible InTx db'))"

lemma keepsD: "keeps R c \<Longrightarrow> tables_ok (committed db) \<Longrightarrow> c db = (r, db') \<Longrightarrow>
    committed db' = committed db \<and> R (visible InTx db) (visible InTx db')"
  unfolding keeps_def by blast

lemma keepsI: "(\<And>db r db'. tables_ok (committed db) \<Longrightarrow> c db = (r, db') \<Longrightarrow>
    committed db' = committed db \<and> R (visible InTx db) (visible InTx db')) \<Longrightarrow> keeps R c"
  unfolding keeps_def by blast

lemma visible_abort_tx [simp]: "visible h (abort_tx h' db) = visible h db"
  by (cases h; cases h') (simp_all add: visible_def abort_tx_def)

lemma statement_InTx_cases:
  assumes "statement InTx f db = (r, db')"
  shows "committed db' = committed db \<and>
    (visible InTx db' = visible InTx db \<or>
     (\<exists>y w. r = Ok y \<and> f (visible InTx db) = Inr (y, w) \<and> visible InTx db' = fold apply_stmt w (visible InTx db)))"
proof (cases "tx_aborted db")
  case True
  with assms show ?thesis by (simp add: statement_def)
next
  case False
  obtain v db1 where nf: "next_fault db = (v, db1)" by (cases "next_fault db")
  have c: "committed db1 = committed db" and v: "visible InTx db1 = visible InTx db"
    using next_fault_frame [OF nf] next_fault_visible [OF nf] by simp_all
  show ?thesis
  proof (cases v)
    case (Some e)
    with assms False nf have "db' = abort_tx InTx db1" by (simp add: statement_def)
    with c v show ?thesis by simp
  next
    case None
    show ?thesis
    proof (cases "f (visible InTx db)")
      case (Inl e)
      with assms False nf None v have "db' = abort_tx InTx db1" by (simp add: statement_def)
      with c v show ?thesis by simp
    next
      case (Inr yw)
      obtain y w where yw: "yw = (y, w)" by (cases yw)
      with assms False nf None v Inr have "r = Ok y" "db' = db1\<lparr>tx_stmts := tx_stmts db1 @ w\<rparr>"
        by (simp_all add: statement_def)
      with c v Inr yw show ?thesis by (simp add: visible_def)
    qed
  qed
qed

lemma exec_stmt_InTx_cases:
  assumes "exec_stmt InTx st db = (r, db')"
  shows "committed db' = committed db \<and>
    (visible InTx db' = visible InTx db \<or> (r = Ok () \<and> run_stmt st (visible InTx db) = Inr (visible InTx db')))"
proof -
  note c = statement_InTx_cases [OF assms [unfolded exec_stmt_def]]
  show ?thesis
  proof (cases "visible InTx db' = visible InTx db")
    case False
    with c obtain y w where yw: "r = Ok y"
        "(case run_stmt st (visible InTx db) of Inl e \<Rightarrow> Inl e | Inr _ \<Rightarrow> Inr ((), [st])) = Inr (y, w)"
        "visible InTx db' = fold apply_stmt w (visible InTx db)" by blast
    then obtain t where "run_stmt st (visible InTx db) = Inr t" "w = [st]" by (auto split: sum.splits)
    with yw c show ?thesis by (simp add: apply_stmt_def)
  qed (use c in blast)
qed

lemma query_InTx_frame: "query InTx q db = (r, db') \<Longrightarrow>
    committed db' = committed db \<and> visible InTx db' = visible InTx db"
  unfolding query_def by (drule statement_InTx_cases) auto

lemma query_row_InTx_frame: "query_row InTx q db = (r, db') \<Longrightarrow>
    committed db' = committed db \<and> visible InTx db' = visible InTx db"
  unfolding query_row_def
  by (cases "query InTx q db") (auto dest!: query_InTx_frame split: outcome.splits option.splits)

locale table_order =
  fixes R :: "tables \<Rightarrow> tables \<Rightarrow> bool"
  assumes R_refl: "R t t"
    and R_trans: "R t t' \<Longrightarrow> R t' t'' \<Longrightarrow> R t t''"
begin

lemma keeps_ret: "keeps R (ret y)"
  by (auto intro!: keepsI simp: ret_def R_refl)

lemma keeps_and_then:
  assumes "keeps R m" and "\<And>y. keeps R (f y)"
  shows "keeps R (and_then m f)"
proof (rule keepsI)
  fix db r db' assume ok: "tables_ok (committed db)" and run: "and_then m f db = (r, db')"
  obtain rm dbm where m: "m db = (rm, dbm)" by (cases "m db")
  note km = keepsD [OF assms(1) ok m]
  show "committed db' = committed db \<and> R (visible InTx db) (visible InTx db')"
  proof (cases rm)
    case (Ok y)
    with run m have "f y dbm = (r, db')" by simp
    with keepsD [OF assms(2), of dbm y r db'] km ok show ?thesis by (auto intro: R_trans)
  qed (use run m km in auto)
qed

lemma keeps_for_each: "(\<And>y. keeps R (f y)) \<Longrightarrow> keeps R (for_each f ys)"
  by (induction ys) (auto intro!: keeps_ret keeps_and_then simp del: and_then.simps)

lemma keeps_store_loop: "(\<And>y. keeps R (f y)) \<Longrightarrow> keeps R (store_loop f ys)"
  by (induction ys) (auto intro!: keeps_ret keeps_and_then simp del: and_then.simps split: option.split)

lemma keeps_exec_stmt:
  assumes "\<And>t t'. tables_ok t \<Longrightarrow> run_stmt st t = Inr t' \<Longrightarrow> R t t'"
  shows "keeps R (exec_stmt InTx st)"
proof (rule keepsI)
  fix db r db' assume ok: "tables_ok (committed db)" and run: "exec_stmt InTx st db = (r, db')"
  from exec_stmt_InTx_cases [OF run] assms [OF visible_ok [OF ok]]
  show "committed db' = committed db \<and> R (visible InTx db) (visible InTx db')"
    by (auto simp: R_refl)
qed

end

subsection \<open>Settled transactions\<close>

text \<open>
  A transaction is settled when its row has a status other than failed; a settled row is final,
  and a row never disappears while blocks are stored. The same for receipts.
\<close>

abbreviation tx_at :: "tables \<Rightarrow> string \<Rightarrow> Transaction option" where
  "tx_at t \<equiv> tbl_lookup tx_Hash (transactions t)"

abbreviation receipt_at :: "tables \<Rightarrow> string \<Rightarrow> Receipt option" where
  "receipt_at t \<equiv> tbl_lookup rc_TransactionHash (receipts t)"

definition rows_final :: "('r \<Rightarrow> bool) \<Rightarrow> (string \<Rightarrow> 'r option) \<Rightarrow> (string \<Rightarrow> 'r option) \<Rightarrow> bool" where
  "rows_final settled m m' \<longleftrightarrow> (\<forall>h r. m h = Some r \<longrightarrow>
     (settled r \<longrightarrow> m' h = Some r) \<and> m' h \<noteq> None)"

definition tx_final :: "ext \<Rightarrow> tables \<Rightarrow> tables \<Rightarrow> bool" where
  "tx_final x t t' \<longleftrightarrow> rows_final (\<lambda>r. tx_Status r \<noteq> ReceiptStatusFailed x) (tx_at t) (tx_at t')
     \<and> rows_final (\<lambda>r. rc_Status r \<noteq> ReceiptStatusFailed x) (receipt_at t) (receipt_at t')"

lemma rows_final_refl: "rows_final P m m"
  by (simp add: rows_final_def)

lemma rows_final_trans:
  assumes "rows_final P m m'" and "rows_final P m' m''"
  shows "rows_final P m m''"
  unfolding rows_final_def
proof (intro allI impI)
  fix h r assume r: "m h = Some r"
  with assms(1) have 1: "P r \<longrightarrow> m' h = Some r" "m' h \<noteq> None" unfolding rows_final_def by blast+
  then obtain r' where "m' h = Some r'" by blast
  with assms(2) have "P r' \<longrightarrow> m'' h = Some r'" "m'' h \<noteq> None" unfolding rows_final_def by blast+
  with 1 \<open>m' h = Some r'\<close> show "(P r \<longrightarrow> m'' h = Some r) \<and> m'' h \<noteq> None" by auto
qed

interpretation txo: table_order "tx_final x" for x
  by unfold_locales (auto simp: tx_final_def rows_final_refl intro: rows_final_trans)

text \<open>Writing a row keeps settled rows when the row written over is absent or not settled.\<close>

lemma rows_final_upd: "(\<And>r. m k = Some r \<Longrightarrow> \<not> P r) \<Longrightarrow> rows_final P m (m(k \<mapsto> v))"
  by (auto simp: rows_final_def)

lemma tables_okD:
  assumes "tables_ok t"
  shows "tbl_unique tx_Hash (transactions t)" "tbl_unique rc_TransactionHash (receipts t)"
    "tbl_unique blk_Hash (blocks t)" "tbl_unique blk_Round (blocks t)" "tbl_unique log_pk (logs t)"
    "tbl_unique ir_Tip (indexed_rounds t)"
  using assms by (simp_all add: tables_ok_def)

lemma tx_final_upsert_tx:
  assumes "tables_ok t" and "\<And>r. tx_at t (tx_Hash tx) = Some r \<Longrightarrow> tx_Status r = ReceiptStatusFailed x"
    and "run_stmt (InsertStmt DoUpdate (RowTransaction tx)) t = Inr t'"
  shows "tx_final x t t'"
  using assms by (auto simp: tx_final_def rows_final_refl tbl.lookup_upsert [OF tables_okD(1)] intro!: rows_final_upd)

lemma tx_final_insert_tx:
  assumes "tables_ok t" and "run_stmt (InsertStmt DoNothing (RowTransaction tx)) t = Inr t'"
  shows "tx_final x t t'"
  using assms
  by (auto simp: tx_final_def rows_final_refl tbl.lookup_insert_if_not_exists [OF tables_okD(1)] intro!: rows_final_upd)

lemma receipt_row_hash [simp]: "rc_TransactionHash (receipt_row r) = rc_TransactionHash r"
    "rc_Status (receipt_row r) = rc_Status r"
  by (simp_all add: receipt_row_def)

lemma tx_final_upsert_receipt:
  assumes "tables_ok t" and "\<And>r. receipt_at t (rc_TransactionHash rc) = Some r \<Longrightarrow> rc_Status r = ReceiptStatusFailed x"
    and "run_stmt (InsertStmt DoUpdate (RowReceipt rc)) t = Inr t'"
  shows "tx_final x t t'"
  using assms by (auto simp: tx_final_def rows_final_refl tbl.lookup_upsert [OF tables_okD(2)] intro!: rows_final_upd)

lemma tx_final_insert_receipt:
  assumes "tables_ok t" and "run_stmt (InsertStmt DoNothing (RowReceipt rc)) t = Inr t'"
  shows "tx_final x t t'"
  using assms
  by (auto simp: tx_final_def rows_final_refl tbl.lookup_insert_if_not_exists [OF tables_okD(2)] intro!: rows_final_upd)

text \<open>Other tables do not matter.\<close>

lemma tx_final_other: "transactions t' = transactions t \<Longrightarrow> receipts t' = receipts t \<Longrightarrow> tx_final x t t'"
  by (simp add: tx_final_def rows_final_refl)

text \<open>What a lookup says about the row it found or did not find.\<close>

lemma query_row_InTx_cases:
  assumes "query_row InTx q db = (r, db')"
  shows "committed db' = committed db \<and> visible InTx db' = visible InTx db \<and>
    (\<forall>y. r = Ok y \<longrightarrow> q (visible InTx db) = Some y)"
  using query_row_InTx_frame [OF assms] query_row_OkD [of InTx q db] assms by blast

lemma query_InTx_ErrD: "query InTx q db = (Err e, db') \<Longrightarrow> tx_aborted db'"
  by (auto simp: query_def statement_def abort_tx_def split: if_splits prod.splits option.splits)

lemma query_row_InTx_ErrD:
  assumes "query_row InTx q db = (Err e, db')"
  shows "tx_aborted db' \<or> q (visible InTx db) = None"
proof -
  obtain r1 db1 where st: "query InTx q db = (r1, db1)" by (cases "query InTx q db")
  show ?thesis
  proof (cases r1)
    case (Ok y)
    with query_OkD [of InTx q db y db1] st have "y = q (visible InTx db)" by simp
    with Ok st assms show ?thesis by (auto simp: query_row_def split: option.splits)
  next
    case (Err e1)
    with st have "tx_aborted db1" by (auto dest: query_InTx_ErrD)
    with Err st assms show ?thesis by (simp add: query_row_def)
  next
    case (Panic p)
    with st assms show ?thesis by (simp add: query_row_def)
  qed
qed

lemma exec_stmt_aborted: "tx_aborted db \<Longrightarrow> exec_stmt InTx st db = (Err in_failed_tx, db)"
  by (simp add: exec_stmt_def statement_def)

text \<open>
  A write after a lookup: related by \<open>R\<close> when the write is, on the tables where the lookup found
  what it found (or the transaction has failed and the write is refused).
\<close>

lemma write_keeps:
  assumes "table_order R" and "tables_ok (committed db)" and "and_then (exec_stmt InTx st) (\<lambda>_. ret y) db = (r, db')"
    and "\<And>t'. \<not> tx_aborted db \<Longrightarrow> run_stmt st (visible InTx db) = Inr t' \<Longrightarrow> R (visible InTx db) t'"
  shows "committed db' = committed db \<and> R (visible InTx db) (visible InTx db')"
proof -
  obtain r1 db1 where e: "exec_stmt InTx st db = (r1, db1)" by (cases "exec_stmt InTx st db")
  with assms(3) have [simp]: "db' = db1" by (cases r1) (auto simp: ret_def)
  show ?thesis
  proof (cases "tx_aborted db")
    case True
    with e exec_stmt_aborted table_order.R_refl [OF assms(1)] show ?thesis by simp
  next
    case False
    from exec_stmt_InTx_cases [OF e] assms(4) [OF False] table_order.R_refl [OF assms(1)] show ?thesis by auto
  qed
qed

lemmas tx_final_order = txo.table_order_axioms

text \<open>Look a row up, then write it unless the row found is settled: both store steps follow this.\<close>

lemma lookup_then_write:
  assumes ord: "table_order R" and ok: "tables_ok (committed db)"
    and frame: "committed dbq = committed db" "visible InTx dbq = visible InTx db"
    and found: "\<And>y. rq = Ok y \<Longrightarrow> \<exists>y0. q (visible InTx db) = Some y0 \<and> stat y = stat0 y0"
    and missing: "\<And>e. rq = Err e \<Longrightarrow> tx_aborted dbq \<or> q (visible InTx db) = None"
    and res: "(r, db') = (case rq of
        Err e \<Rightarrow> if errors_Is e ErrNoRows then and_then (exec_stmt InTx st) (\<lambda>_. ret z) dbq else (Ok None, dbq)
      | Ok y \<Rightarrow> if stat y \<noteq> failed then (Err dup, dbq) else and_then (exec_stmt InTx st) (\<lambda>_. ret z) dbq
      | Panic p \<Rightarrow> (Panic p, dbq))"
    and wr: "\<And>t'. (\<And>y0. q (visible InTx db) = Some y0 \<Longrightarrow> stat0 y0 = failed) \<Longrightarrow>
        run_stmt st (visible InTx db) = Inr t' \<Longrightarrow> R (visible InTx db) t'"
  shows "committed db' = committed db \<and> R (visible InTx db) (visible InTx db')"
proof -
  have same: ?thesis if "db' = dbq" using that frame table_order.R_refl [OF ord] by simp
  have ok1: "tables_ok (committed dbq)" using ok frame by simp
  have up: ?thesis if u: "and_then (exec_stmt InTx st) (\<lambda>_. ret z) dbq = (r, db')"
    and old: "\<not> tx_aborted dbq \<Longrightarrow> \<forall>y0. q (visible InTx db) = Some y0 \<longrightarrow> stat0 y0 = failed"
    using write_keeps [where R = R, OF ord ok1 u] wr old frame by simp
  show ?thesis
  proof (cases rq)
    case (Ok y)
    then obtain y0 where y0: "q (visible InTx db) = Some y0" "stat y = stat0 y0" using found by blast
    show ?thesis
    proof (cases "stat y = failed")
      case True
      with Ok res have "and_then (exec_stmt InTx st) (\<lambda>_. ret z) dbq = (r, db')" by (simp del: and_then.simps)
      moreover have "\<forall>y0. q (visible InTx db) = Some y0 \<longrightarrow> stat0 y0 = failed" using y0 True by simp
      ultimately show ?thesis by (rule up)
    next
      case False
      with Ok res have "db' = dbq" by simp
      then show ?thesis by (rule same)
    qed
  next
    case (Err e)
    with missing have none: "\<not> tx_aborted dbq \<Longrightarrow> q (visible InTx db) = None" by blast
    show ?thesis
    proof (cases "errors_Is e ErrNoRows")
      case True
      with Err res have "and_then (exec_stmt InTx st) (\<lambda>_. ret z) dbq = (r, db')" by (simp del: and_then.simps)
      moreover have "\<forall>y0. q (visible InTx db) = Some y0 \<longrightarrow> stat0 y0 = failed" if "\<not> tx_aborted dbq"
        using none [OF that] by simp
      ultimately show ?thesis by (rule up)
    next
      case False
      with Err res have "db' = dbq" by simp
      then show ?thesis by (rule same)
    qed
  next
    case (Panic p)
    with res have "db' = dbq" by simp
    then show ?thesis by (rule same)
  qed
qed

lemma store_tx_final: "keeps (tx_final x) (store_tx x InTx tx)"
proof (rule keepsI)
  fix db r db' assume ok: "tables_ok (committed db)" and run: "store_tx x InTx tx db = (r, db')"
  show "committed db' = committed db \<and> tx_final x (visible InTx db) (visible InTx db')"
  proof (cases "tx_Status tx = ReceiptStatusFailed x")
    case True
    with run have "and_then (exec_stmt InTx (InsertStmt DoNothing (RowTransaction tx))) (\<lambda>_. ret (Some [])) db = (r, db')"
      by (simp add: store_tx_def insertSingle_def)
    from write_keeps [OF tx_final_order ok this] tx_final_insert_tx [OF visible_ok [OF ok]] show ?thesis by blast
  next
    case False
    obtain rq db1 where q: "query_row InTx (\<lambda>t. tx_at t (tx_Hash tx)) db = (rq, db1)"
      by (cases "query_row InTx (\<lambda>t. tx_at t (tx_Hash tx)) db")
    note f = query_row_InTx_cases [OF q]
    show ?thesis
    proof (rule lookup_then_write [OF tx_final_order ok, where rq = rq and dbq = db1 and stat = tx_Status
          and stat0 = tx_Status and q = "\<lambda>t. tx_at t (tx_Hash tx)" and failed = "ReceiptStatusFailed x"
          and st = "InsertStmt DoUpdate (RowTransaction tx)" and z = "Some [tx]"])
      show "(r, db') = (case rq of
          Err e \<Rightarrow> if errors_Is e ErrNoRows
            then and_then (exec_stmt InTx (InsertStmt DoUpdate (RowTransaction tx))) (\<lambda>_. ret (Some [tx])) db1 else (Ok None, db1)
        | Ok y \<Rightarrow> if tx_Status y \<noteq> ReceiptStatusFailed x then (Err (Errorf ''duplicate tx hash''), db1)
            else and_then (exec_stmt InTx (InsertStmt DoUpdate (RowTransaction tx))) (\<lambda>_. ret (Some [tx])) db1
        | Panic p \<Rightarrow> (Panic p, db1))"
        using run False q unfolding store_tx_def GetTransaction_def upsert_tx_def Upsert.simps insertSingle_def
        by (cases rq) (auto simp del: and_then.simps split: if_splits)
      fix t' assume "\<And>y0. tx_at (visible InTx db) (tx_Hash tx) = Some y0 \<Longrightarrow> tx_Status y0 = ReceiptStatusFailed x"
        and "run_stmt (InsertStmt DoUpdate (RowTransaction tx)) (visible InTx db) = Inr t'"
      then show "tx_final x (visible InTx db) t'" by (rule tx_final_upsert_tx [OF visible_ok [OF ok]])
    next
      fix e assume e: "rq = Err e"
      show "tx_aborted db1 \<or> tx_at (visible InTx db) (tx_Hash tx) = None"
        using query_row_InTx_ErrD [OF q [unfolded e]] .
    qed (use f in auto)
  qed
qed

text \<open>Loading a receipt with its logs reads the receipt's row and changes nothing.\<close>

lemma GetTransactionReceipt_InTx_cases:
  assumes "GetTransactionReceipt InTx hash db = (r, db')"
  shows "committed db' = committed db" "visible InTx db' = visible InTx db"
    "\<And>y. r = Ok y \<Longrightarrow> \<exists>y0. receipt_at (visible InTx db) hash = Some y0 \<and> rc_Status y = rc_Status y0"
    "\<And>e. r = Err e \<Longrightarrow> tx_aborted db' \<or> receipt_at (visible InTx db) hash = None"
proof -
  obtain rq db1 where q: "query_row InTx (\<lambda>t. receipt_at t hash) db = (rq, db1)"
    by (cases "query_row InTx (\<lambda>t. receipt_at t hash) db")
  note f = query_row_InTx_cases [OF q]
  have "committed db' = committed db \<and> visible InTx db' = visible InTx db \<and>
    (\<forall>y. r = Ok y \<longrightarrow> (\<exists>y0. receipt_at (visible InTx db) hash = Some y0 \<and> rc_Status y = rc_Status y0)) \<and>
    (\<forall>e. r = Err e \<longrightarrow> tx_aborted db' \<or> receipt_at (visible InTx db) hash = None)"
  proof (cases rq)
    case (Ok y)
    obtain rl db2 where l: "query InTx (\<lambda>t. filter (\<lambda>l. log_TxHash l = rc_TransactionHash y) (logs t)) db1 = (rl, db2)"
      by (cases "query InTx (\<lambda>t. filter (\<lambda>l. log_TxHash l = rc_TransactionHash y) (logs t)) db1")
    have "db' = db2" and r: "r = (case rl of Ok ls \<Rightarrow> Ok (y\<lparr>rc_Logs := scan_logs db1 ls\<rparr>) | Err e \<Rightarrow> Err e | Panic p \<Rightarrow> Panic p)"
      using assms q Ok l by (cases rl; simp add: GetTransactionReceipt_def ret_def)+
    moreover have "tx_aborted db2" if "rl = Err e" for e
      using query_InTx_ErrD l that by blast
    ultimately show ?thesis using f Ok query_InTx_frame [OF l] by (cases rl) auto
  next
    case (Err e)
    with assms q have "r = Err e" "db' = db1" by (simp_all add: GetTransactionReceipt_def)
    moreover have "tx_aborted db1 \<or> receipt_at (visible InTx db) hash = None"
      using query_row_InTx_ErrD [OF q [unfolded Err]] .
    ultimately show ?thesis using f by auto
  next
    case (Panic p)
    with assms q have "r = Panic p" "db' = db1" by (simp_all add: GetTransactionReceipt_def)
    with f show ?thesis by auto
  qed
  then show "committed db' = committed db" "visible InTx db' = visible InTx db"
    "\<And>y. r = Ok y \<Longrightarrow> \<exists>y0. receipt_at (visible InTx db) hash = Some y0 \<and> rc_Status y = rc_Status y0"
    "\<And>e. r = Err e \<Longrightarrow> tx_aborted db' \<or> receipt_at (visible InTx db) hash = None" by auto
qed

lemma store_receipt_final: "keeps (tx_final x) (store_receipt x InTx rc)"
proof (rule keepsI)
  fix db r db' assume ok: "tables_ok (committed db)" and run: "store_receipt x InTx rc db = (r, db')"
  show "committed db' = committed db \<and> tx_final x (visible InTx db) (visible InTx db')"
  proof (cases "rc_Status rc = ReceiptStatusFailed x")
    case True
    with run have "and_then (exec_stmt InTx (InsertStmt DoNothing (RowReceipt rc))) (\<lambda>_. ret (Some [])) db = (r, db')"
      by (simp add: store_receipt_def insertSingle_def)
    from write_keeps [OF tx_final_order ok this] tx_final_insert_receipt [OF visible_ok [OF ok]] show ?thesis by blast
  next
    case False
    obtain rq db1 where q: "GetTransactionReceipt InTx (rc_TransactionHash rc) db = (rq, db1)"
      by (cases "GetTransactionReceipt InTx (rc_TransactionHash rc) db")
    note f = GetTransactionReceipt_InTx_cases [OF q]
    show ?thesis
    proof (rule lookup_then_write [OF tx_final_order ok f(1,2), where rq = rq and stat = rc_Status
          and stat0 = rc_Status and q = "\<lambda>t. receipt_at t (rc_TransactionHash rc)" and failed = "ReceiptStatusFailed x"
          and st = "InsertStmt DoUpdate (RowReceipt rc)" and z = "Some [rc]", OF f(3,4)])
      show "(r, db') = (case rq of
          Err e \<Rightarrow> if errors_Is e ErrNoRows
            then and_then (exec_stmt InTx (InsertStmt DoUpdate (RowReceipt rc))) (\<lambda>_. ret (Some [rc])) db1 else (Ok None, db1)
        | Ok y \<Rightarrow> if rc_Status y \<noteq> ReceiptStatusFailed x then (Err (Errorf ''duplicate receipt tx hash''), db1)
            else and_then (exec_stmt InTx (InsertStmt DoUpdate (RowReceipt rc))) (\<lambda>_. ret (Some [rc])) db1
        | Panic p \<Rightarrow> (Panic p, db1))"
        using run False q unfolding store_receipt_def upsert_receipt_def Upsert.simps insertSingle_def
        by (cases rq) (auto simp del: and_then.simps split: if_splits)
      fix t' assume "\<And>y0. receipt_at (visible InTx db) (rc_TransactionHash rc) = Some y0 \<Longrightarrow> rc_Status y0 = ReceiptStatusFailed x"
        and "run_stmt (InsertStmt DoUpdate (RowReceipt rc)) (visible InTx db) = Inr t'"
      then show "tx_final x (visible InTx db) t'" by (rule tx_final_upsert_receipt [OF visible_ok [OF ok]])
    qed
  qed
qed

text \<open>Log, block and tip rows touch neither transactions nor receipts.\<close>

lemma store_rest_final: "keeps (tx_final x) (store_rest x blk dbLogs InTx)"
proof -
  have "keeps (tx_final x) (exec_stmt InTx (InsertStmt oc row))"
    if "\<exists>l b i. row = RowLog l \<or> row = RowBlock b \<or> row = RowTip i" for oc row
    by (rule txo.keeps_exec_stmt) (use that in \<open>auto intro!: tx_final_other split: if_splits\<close>)
  then show ?thesis
    unfolding store_rest_def Insert.simps Upsert.simps insertSingle_def
    by (intro txo.keeps_and_then txo.keeps_for_each) auto
qed

lemma store_models_final: "keeps (tx_final x) (store_models x blk txs rcs dbLogs InTx)"
  unfolding store_models_def
  by (intro txo.keeps_and_then txo.keeps_store_loop store_tx_final store_receipt_final)
    (auto simp del: and_then.simps
      intro!: txo.keeps_ret txo.keeps_and_then txo.keeps_store_loop store_receipt_final store_rest_final)

subsection \<open>The three ways storing a block ends\<close>

lemma store_models_run:
  assumes ok: "tables_ok (committed db)"
    and run: "RunInTransaction Pool (store_models x blk txs rcs dbLogs) db = (r, db')"
  shows "(\<nexists>u. r = Ok u) \<and> committed db' = committed db \<or>
    (\<exists>u db1 db2. r = Ok u \<and> committed db1 = committed db \<and> tx_stmts db1 = [] \<and> \<not> tx_aborted db1 \<and> faults db1 = tl (faults db)
       \<and> store_models x blk txs rcs dbLogs InTx db1 = (Ok u, db2)
       \<and> committed db' = (if tx_aborted db2 then committed db else visible InTx db2))"
proof (rule run_in_transaction_cases [OF _ run], intro allI impI)
  fix db1 r1 db2 assume "committed db1 = committed db" "store_models x blk txs rcs dbLogs InTx db1 = (r1, db2)"
  with keepsD [OF store_models_final, of db1] ok show "committed db2 = committed db" by simp
qed

lemma visible_fresh_tx: "tx_stmts db = [] \<Longrightarrow> visible InTx db = committed db"
  by (simp add: visible_def)

lemma publish_storage [simp]: "ib_storage (snd (publish on_block ev bd ib)) = ib_storage ib"
  by (auto simp: publish_def Let_def split: option.splits prod.splits outcome.splits)

lemma store_models_committed_final:
  assumes "tables_ok (committed db)" and "RunInTransaction Pool (store_models x blk txs rcs dbLogs) db = (r, db')"
  shows "tx_final x (committed db) (committed db') \<and> tables_ok (committed db')"
  using store_models_run [OF assms]
proof (elim disjE exE conjE)
  fix u db1 db2 assume *: "committed db1 = committed db" "tx_stmts db1 = []"
    "store_models x blk txs rcs dbLogs InTx db1 = (Ok u, db2)"
    "committed db' = (if tx_aborted db2 then committed db else visible InTx db2)"
  with assms(1) have k: "committed db2 = committed db \<and> tx_final x (committed db) (visible InTx db2)"
    using keepsD [OF store_models_final _ *(3)] visible_fresh_tx [OF *(2)] by simp
  with assms(1) have "tables_ok (visible InTx db2)" by (intro visible_ok) simp
  with k * assms(1) show ?thesis by (simp add: txo.R_refl)
qed (use assms(1) in \<open>simp_all add: txo.R_refl\<close>)

lemma StoreBlockData_final:
  assumes "tables_ok (committed (ib_storage ib))"
    and "StoreBlockData x on_block oblk items params ib = (r, ib')"
  shows "tx_final x (committed (ib_storage ib)) (committed (ib_storage ib')) \<and> tables_ok (committed (ib_storage ib'))"
proof (cases "block_models x oblk items params")
  case (Ok mm)
  obtain blk txs rcs dbLogs median where mm: "mm = ((blk, txs, rcs, dbLogs), median)" by (metis prod.exhaust)
  obtain rt db' where rt: "RunInTransaction Pool (store_models x blk txs rcs dbLogs) (ib_storage ib) = (rt, db')"
    by (cases "RunInTransaction Pool (store_models x blk txs rcs dbLogs) (ib_storage ib)")
  have "ib_storage ib' = db'"
  proof (cases rt)
    case r: (Ok u)
    obtain utxs urcs where "u = (utxs, urcs)" by (cases u)
    with assms(2) Ok mm rt r have "publish on_block
        \<lparr>ce_Block = blk, ce_Hash = HexToHash x (OasisHash_Hex x (ob_EncodedHash oblk)), ce_Logs = dbLogs\<rparr>
        \<lparr>bd_Block = blk, bd_Receipts = urcs, bd_UniqueTxes = utxs, bd_Median = median\<rparr> (ib\<lparr>ib_storage := db'\<rparr>) = (r, ib')"
      by (simp add: StoreBlockData_def)
    then show ?thesis using publish_storage by (metis indexBackend.select_convs(1) indexBackend.surjective indexBackend.update_convs(1) snd_conv)
  qed (use assms(2) Ok mm rt in \<open>auto simp: StoreBlockData_def\<close>)
  with store_models_committed_final [OF assms(1) rt] show ?thesis by simp
qed (use assms in \<open>auto simp: StoreBlockData_def txo.R_refl\<close>)

lemma Index_final:
  assumes "tables_ok (committed (ib_storage ib))"
    and "Index x on_block oblk items params rtInfo ib = (r, ib')"
  shows "tx_final x (committed (ib_storage ib)) (committed (ib_storage ib')) \<and> tables_ok (committed (ib_storage ib'))"
proof -
  obtain r1 ib1 where s: "StoreBlockData x on_block oblk items params ib = (r1, ib1)"
    by (cases "StoreBlockData x on_block oblk items params ib")
  with assms(2) have "ib_storage ib' = ib_storage ib1"
    by (cases r1) (auto simp: Index_def split: option.splits)
  with StoreBlockData_final [OF assms(1) s] show ?thesis by simp
qed

text \<open>
  C4: a transaction whose row has a status other than failed is never replaced or removed by
  indexing: whatever block is indexed, however the call ends (success, error, panic, database
  failures at any statement), the row of that hash and the receipt row of that hash stay what
  they were.
\<close>

theorem index_settled_final:
  assumes "tables_ok (committed (ib_storage ib))"
    and "Index x on_block oblk items params rtInfo ib = (r, ib')"
  shows "(\<forall>tx. tx_at (committed (ib_storage ib)) hash = Some tx \<and> tx_Status tx \<noteq> ReceiptStatusFailed x
            \<longrightarrow> tx_at (committed (ib_storage ib')) hash = Some tx)
    \<and> (\<forall>rc. receipt_at (committed (ib_storage ib)) hash = Some rc \<and> rc_Status rc \<noteq> ReceiptStatusFailed x
            \<longrightarrow> receipt_at (committed (ib_storage ib')) hash = Some rc)
    \<and> tables_ok (committed (ib_storage ib'))"
  using Index_final [OF assms] by (simp add: tx_final_def rows_final_def)

subsection \<open>Storing a block on a server that does not fail\<close>

definition quiet :: "pgdb \<Rightarrow> bool" where
  "quiet db \<longleftrightarrow> faults db = [] \<and> \<not> tx_aborted db"

lemma query_row_quiet: "quiet db \<Longrightarrow> query_row InTx q db =
    (case q (visible InTx db) of None \<Rightarrow> (Err ErrNoRows, db) | Some y \<Rightarrow> (Ok y, db))"
  by (simp add: query_row_def query_def statement_def next_fault_def quiet_def split: option.split)

lemma exec_stmt_quiet:
  assumes "quiet db" and "exec_stmt InTx st db = (Ok u, db')"
  shows "quiet db' \<and> committed db' = committed db \<and> run_stmt st (visible InTx db) = Inr (visible InTx db')"
proof -
  have "quiet db'"
    using assms by (auto simp: exec_stmt_def statement_def next_fault_def quiet_def split: sum.splits)
  with exec_stmt_OkD [OF assms(2)] exec_stmt_InTx_cases [OF assms(2)] show ?thesis by simp
qed

text \<open>A stored row: present, and the very row that was stored unless it stands for a failure.\<close>

definition recorded_tx :: "ext \<Rightarrow> tables \<Rightarrow> Transaction \<Rightarrow> bool" where
  "recorded_tx x t tx \<longleftrightarrow> (\<exists>s. tx_at t (tx_Hash tx) = Some s
     \<and> (tx_Status tx \<noteq> ReceiptStatusFailed x \<longrightarrow> s = tx))"

definition recorded_receipt :: "ext \<Rightarrow> tables \<Rightarrow> Receipt \<Rightarrow> bool" where
  "recorded_receipt x t rc \<longleftrightarrow> (\<exists>s. receipt_at t (rc_TransactionHash rc) = Some s
     \<and> (rc_Status rc \<noteq> ReceiptStatusFailed x \<longrightarrow> s = receipt_row rc))"

lemma recorded_tx_final: "recorded_tx x t tx \<Longrightarrow> tx_final x t t' \<Longrightarrow> recorded_tx x t' tx"
  unfolding recorded_tx_def tx_final_def rows_final_def by (metis option.exhaust)

lemma recorded_receipt_final: "recorded_receipt x t rc \<Longrightarrow> tx_final x t t' \<Longrightarrow> recorded_receipt x t' rc"
  unfolding recorded_receipt_def tx_final_def rows_final_def by (metis option.exhaust receipt_row_hash(2))

text \<open>What one step of a store loop changes, and the loop over it.\<close>

definition only_txs :: "tables \<Rightarrow> tables \<Rightarrow> bool" where
  "only_txs t t' \<longleftrightarrow> (\<exists>rows. t' = t\<lparr>transactions := rows\<rparr>)"

definition only_receipts :: "tables \<Rightarrow> tables \<Rightarrow> bool" where
  "only_receipts t t' \<longleftrightarrow> (\<exists>rows. t' = t\<lparr>receipts := rows\<rparr>)"

interpretation ot: table_order only_txs
proof unfold_locales
  show "only_txs t t" for t unfolding only_txs_def by (intro exI [of _ "transactions t"]) simp
  show "only_txs t t' \<Longrightarrow> only_txs t' t'' \<Longrightarrow> only_txs t t''" for t t' t''
    unfolding only_txs_def by auto
qed

interpretation orc: table_order only_receipts
proof unfold_locales
  show "only_receipts t t" for t unfolding only_receipts_def by (intro exI [of _ "receipts t"]) simp
  show "only_receipts t t' \<Longrightarrow> only_receipts t' t'' \<Longrightarrow> only_receipts t t''" for t t' t''
    unfolding only_receipts_def by auto
qed

lemma store_loop_quiet:
  assumes ord: "table_order R"
    and step: "\<And>y db r db'. quiet db \<Longrightarrow> tables_ok (committed db) \<Longrightarrow> f y db = (Ok r, db') \<Longrightarrow>
        quiet db' \<and> committed db' = committed db \<and> r = Some (g y) \<and> R (visible InTx db) (visible InTx db')
        \<and> tx_final x (visible InTx db) (visible InTx db') \<and> Q y (visible InTx db')"
    and stable: "\<And>y t t'. Q y t \<Longrightarrow> tx_final x t t' \<Longrightarrow> Q y t'"
    and "quiet db" "tables_ok (committed db)" "store_loop f ys db = (Ok (early, ups), db')"
  shows "\<not> early \<and> ups = concat (map g ys) \<and> quiet db' \<and> committed db' = committed db
    \<and> R (visible InTx db) (visible InTx db') \<and> tx_final x (visible InTx db) (visible InTx db')
    \<and> (\<forall>y \<in> set ys. Q y (visible InTx db'))"
  using assms(4-6)
proof (induction ys arbitrary: db ups)
  case Nil
  then show ?case by (simp add: table_order.R_refl [OF ord] txo.R_refl)
next
  case (Cons y ys)
  obtain r1 db1 where f: "f y db = (Ok r1, db1)"
    using Cons.prems(3) by (auto split: prod.splits outcome.splits)
  note st = step [OF Cons.prems(1,2) f]
  have ok1: "tables_ok (committed db1)" using Cons.prems(2) st by simp
  obtain ups' where rest: "store_loop f ys db1 = (Ok (early, ups'), db')" and ups: "ups = g y @ ups'"
    using Cons.prems(3) f st by (auto simp: ret_def split: prod.splits outcome.splits)
  have "quiet db1" using st by simp
  note ih = Cons.IH [OF this ok1 rest]
  have "R (visible InTx db) (visible InTx db')" "tx_final x (visible InTx db) (visible InTx db')"
    using st ih table_order.R_trans [OF ord] txo.R_trans by blast+
  moreover have "Q y (visible InTx db')" using st ih stable by blast
  ultimately show ?case using st ih ups by simp
qed

lemma tx_at_upsert: "tables_ok t \<Longrightarrow> run_stmt (InsertStmt DoUpdate (RowTransaction tx)) t = Inr t' \<Longrightarrow>
    tx_at t' = (tx_at t)(tx_Hash tx \<mapsto> tx) \<and> only_txs t t'"
  by (auto simp: tbl.lookup_upsert [OF tables_okD(1)] only_txs_def)

lemma tx_at_insert: "tables_ok t \<Longrightarrow> run_stmt (InsertStmt DoNothing (RowTransaction tx)) t = Inr t' \<Longrightarrow>
    tx_at t' (tx_Hash tx) \<noteq> None \<and> only_txs t t'"
  by (auto simp: tbl.lookup_insert_if_not_exists [OF tables_okD(1)] only_txs_def)

lemma receipt_at_upsert: "tables_ok t \<Longrightarrow> run_stmt (InsertStmt DoUpdate (RowReceipt rc)) t = Inr t' \<Longrightarrow>
    receipt_at t' = (receipt_at t)(rc_TransactionHash rc \<mapsto> receipt_row rc) \<and> only_receipts t t'"
  by (auto simp: tbl.lookup_upsert [OF tables_okD(2)] only_receipts_def)

lemma receipt_at_insert: "tables_ok t \<Longrightarrow> run_stmt (InsertStmt DoNothing (RowReceipt rc)) t = Inr t' \<Longrightarrow>
    receipt_at t' (rc_TransactionHash rc) \<noteq> None \<and> only_receipts t t'"
  by (auto simp: tbl.lookup_insert_if_not_exists [OF tables_okD(2)] only_receipts_def)

lemma and_then_exec_OkD:
  "and_then (exec_stmt InTx st) (\<lambda>_. ret z) db = (Ok r, db') \<Longrightarrow> exec_stmt InTx st db = (Ok (), db') \<and> r = z"
  by (auto simp: ret_def split: prod.splits outcome.splits)

lemma store_tx_quiet:
  assumes q: "quiet db" and ok: "tables_ok (committed db)" and run: "store_tx x InTx tx db = (Ok r, db')"
  shows "quiet db' \<and> committed db' = committed db \<and> r = Some (if tx_Status tx = ReceiptStatusFailed x then [] else [tx])
    \<and> only_txs (visible InTx db) (visible InTx db') \<and> tx_final x (visible InTx db) (visible InTx db')
    \<and> recorded_tx x (visible InTx db') tx"
proof -
  have fin: "tx_final x (visible InTx db) (visible InTx db')"
    using keepsD [OF store_tx_final ok run] by simp
  note okv = visible_ok [OF ok, of InTx]
  show ?thesis
  proof (cases "tx_Status tx = ReceiptStatusFailed x")
    case True
    with run have "and_then (exec_stmt InTx (InsertStmt DoNothing (RowTransaction tx))) (\<lambda>_. ret (Some [])) db = (Ok r, db')"
      by (simp add: store_tx_def insertSingle_def del: and_then.simps)
    from and_then_exec_OkD [OF this] have e: "exec_stmt InTx (InsertStmt DoNothing (RowTransaction tx)) db = (Ok (), db')"
      and r: "r = Some []" by simp_all
    from exec_stmt_quiet [OF q e] have eq: "quiet db'" "committed db' = committed db"
      and st: "run_stmt (InsertStmt DoNothing (RowTransaction tx)) (visible InTx db) = Inr (visible InTx db')" by blast+
    from tx_at_insert [OF okv st] eq r True fin show ?thesis by (simp add: recorded_tx_def)
  next
    case False
    then have "upsert_tx x InTx tx db = (Ok r, db')"
      using run by (auto simp: store_tx_def GetTransaction_def query_row_quiet [OF q] split: option.splits if_splits)
    then have "and_then (exec_stmt InTx (InsertStmt DoUpdate (RowTransaction tx))) (\<lambda>_. ret (Some [tx])) db = (Ok r, db')"
      by (simp add: upsert_tx_def insertSingle_def del: and_then.simps)
    from and_then_exec_OkD [OF this] have e: "exec_stmt InTx (InsertStmt DoUpdate (RowTransaction tx)) db = (Ok (), db')"
      and r: "r = Some [tx]" by simp_all
    from exec_stmt_quiet [OF q e] have eq: "quiet db'" "committed db' = committed db"
      and st: "run_stmt (InsertStmt DoUpdate (RowTransaction tx)) (visible InTx db) = Inr (visible InTx db')" by blast+
    from tx_at_upsert [OF okv st] eq r False fin show ?thesis by (simp add: recorded_tx_def)
  qed
qed

lemma GetTransactionReceipt_quiet:
  assumes "quiet db"
  shows "\<exists>rc. GetTransactionReceipt InTx hash db =
      (case receipt_at (visible InTx db) hash of None \<Rightarrow> (Err ErrNoRows, db) | Some _ \<Rightarrow> (Ok rc, db))"
  using assms
  by (auto simp: GetTransactionReceipt_def query_row_quiet query_def statement_def next_fault_def quiet_def ret_def
      split: option.split)

lemma store_receipt_quiet:
  assumes q: "quiet db" and ok: "tables_ok (committed db)" and run: "store_receipt x InTx rc db = (Ok r, db')"
  shows "quiet db' \<and> committed db' = committed db \<and> r = Some (if rc_Status rc = ReceiptStatusFailed x then [] else [rc])
    \<and> only_receipts (visible InTx db) (visible InTx db') \<and> tx_final x (visible InTx db) (visible InTx db')
    \<and> recorded_receipt x (visible InTx db') rc"
proof -
  have fin: "tx_final x (visible InTx db) (visible InTx db')"
    using keepsD [OF store_receipt_final ok run] by simp
  note okv = visible_ok [OF ok, of InTx]
  show ?thesis
  proof (cases "rc_Status rc = ReceiptStatusFailed x")
    case True
    with run have "and_then (exec_stmt InTx (InsertStmt DoNothing (RowReceipt rc))) (\<lambda>_. ret (Some [])) db = (Ok r, db')"
      by (simp add: store_receipt_def insertSingle_def del: and_then.simps)
    from and_then_exec_OkD [OF this] have e: "exec_stmt InTx (InsertStmt DoNothing (RowReceipt rc)) db = (Ok (), db')"
      and r: "r = Some []" by simp_all
    from exec_stmt_quiet [OF q e] have eq: "quiet db'" "committed db' = committed db"
      and st: "run_stmt (InsertStmt DoNothing (RowReceipt rc)) (visible InTx db) = Inr (visible InTx db')" by blast+
    from receipt_at_insert [OF okv st] eq r True fin show ?thesis by (simp add: recorded_receipt_def)
  next
    case False
    obtain rc0 where "GetTransactionReceipt InTx (rc_TransactionHash rc) db =
        (case receipt_at (visible InTx db) (rc_TransactionHash rc) of None \<Rightarrow> (Err ErrNoRows, db) | Some _ \<Rightarrow> (Ok rc0, db))"
      using GetTransactionReceipt_quiet [OF q] by blast
    with False have "upsert_receipt x InTx rc db = (Ok r, db')"
      using run by (auto simp: store_receipt_def split: option.splits if_splits)
    then have "and_then (exec_stmt InTx (InsertStmt DoUpdate (RowReceipt rc))) (\<lambda>_. ret (Some [rc])) db = (Ok r, db')"
      by (simp add: upsert_receipt_def insertSingle_def del: and_then.simps)
    from and_then_exec_OkD [OF this] have e: "exec_stmt InTx (InsertStmt DoUpdate (RowReceipt rc)) db = (Ok (), db')"
      and r: "r = Some [rc]" by simp_all
    from exec_stmt_quiet [OF q e] have eq: "quiet db'" "committed db' = committed db"
      and st: "run_stmt (InsertStmt DoUpdate (RowReceipt rc)) (visible InTx db) = Inr (visible InTx db')" by blast+
    from receipt_at_upsert [OF okv st] eq r False fin show ?thesis by (simp add: recorded_receipt_def)
  qed
qed

text \<open>The logs, the block and the tip.\<close>

lemma store_logs_quiet:
  assumes "quiet db" and "for_each (\<lambda>log. exec_stmt InTx (InsertStmt Raise (RowLog log))) ls db = (Ok u, db')"
  shows "quiet db' \<and> committed db' = committed db
    \<and> visible InTx db' = (visible InTx db)\<lparr>logs := logs (visible InTx db) @ ls\<rparr>"
  using assms
proof (induction ls arbitrary: db)
  case Nil
  then show ?case by simp
next
  case (Cons l ls)
  obtain u1 db1 where e: "exec_stmt InTx (InsertStmt Raise (RowLog l)) db = (Ok u1, db1)"
    and rest: "for_each (\<lambda>log. exec_stmt InTx (InsertStmt Raise (RowLog log))) ls db1 = (Ok u, db')"
    using Cons.prems(2) by (auto split: prod.splits outcome.splits)
  note q = exec_stmt_quiet [OF Cons.prems(1) e]
  have "visible InTx db1 = (visible InTx db)\<lparr>logs := logs (visible InTx db) @ [l]\<rparr>"
    using q by (auto simp: tbl_insert_def split: if_splits)
  with q Cons.IH [OF _ rest] show ?case by simp
qed

lemma store_rest_quiet:
  assumes q: "quiet db" and run: "store_rest x blk ls InTx db = (Ok u, db')"
  shows "quiet db' \<and> committed db' = committed db
    \<and> visible InTx db' = (visible InTx db)\<lparr>logs := logs (visible InTx db) @ ls,
        blocks := blocks (visible InTx db) @ [block_row blk],
        indexed_rounds := tbl_insert_do_update ir_Tip \<lparr>ir_Tip = Continues, ir_Round = blk_Round blk\<rparr>
          (indexed_rounds (visible InTx db))\<rparr>
    \<and> \<not> round_taken blk (blocks (visible InTx db))
    \<and> tbl_lookup blk_Hash (blocks (visible InTx db)) (blk_Hash blk) = None"
proof -
  obtain u1 db1 u2 db2 where 1: "for_each (\<lambda>log. exec_stmt InTx (InsertStmt Raise (RowLog log))) ls db = (Ok u1, db1)"
    and 2: "exec_stmt InTx (InsertStmt Raise (RowBlock blk)) db1 = (Ok u2, db2)"
    and 3: "exec_stmt InTx (InsertStmt DoUpdate (RowTip \<lparr>ir_Tip = Continues, ir_Round = blk_Round blk\<rparr>)) db2 = (Ok u, db')"
    using run by (auto simp: store_rest_def insertSingle_def split: prod.splits outcome.splits)
  note v1 = store_logs_quiet [OF q 1]
  then have q1: "quiet db1" by simp
  note v2 = exec_stmt_quiet [OF q1 2]
  then have q2: "quiet db2" by simp
  note v3 = exec_stmt_quiet [OF q2 3]
  have h: "blk_Hash (block_row blk) = blk_Hash blk" by (simp add: block_row_def)
  have b: "visible InTx db2 = (visible InTx db1)\<lparr>blocks := blocks (visible InTx db1) @ [block_row blk]\<rparr>"
    "\<not> round_taken blk (blocks (visible InTx db1))"
    "tbl_lookup blk_Hash (blocks (visible InTx db1)) (blk_Hash blk) = None"
    using v2 h by (auto simp: tbl_insert_def split: if_splits)
  have t: "visible InTx db' = (visible InTx db2)\<lparr>indexed_rounds := tbl_insert_do_update ir_Tip
      \<lparr>ir_Tip = Continues, ir_Round = blk_Round blk\<rparr> (indexed_rounds (visible InTx db2))\<rparr>"
    using v3 by auto
  from v1 v2 v3 b t show ?thesis by simp
qed

text \<open>The whole closure: everything of the block is in the tables the transaction sees.\<close>

definition unfailed_txs :: "ext \<Rightarrow> Transaction list \<Rightarrow> Transaction list" where
  "unfailed_txs x = filter (\<lambda>tx. tx_Status tx \<noteq> ReceiptStatusFailed x)"

definition unfailed_receipts :: "ext \<Rightarrow> Receipt list \<Rightarrow> Receipt list" where
  "unfailed_receipts x = filter (\<lambda>rc. rc_Status rc \<noteq> ReceiptStatusFailed x)"

definition block_stored :: "ext \<Rightarrow> tables \<Rightarrow> Block \<Rightarrow> Transaction list \<Rightarrow> Receipt list \<Rightarrow> Log list \<Rightarrow> tables \<Rightarrow> bool" where
  "block_stored x t0 blk txs rcs ls t \<longleftrightarrow>
     blocks t = blocks t0 @ [block_row blk] \<and> logs t = logs t0 @ ls
     \<and> indexed_rounds t = tbl_insert_do_update ir_Tip \<lparr>ir_Tip = Continues, ir_Round = blk_Round blk\<rparr> (indexed_rounds t0)
     \<and> (\<forall>tx \<in> set txs. recorded_tx x t tx) \<and> (\<forall>rc \<in> set rcs. recorded_receipt x t rc)"

lemma concat_unfailed_txs: "concat (map (\<lambda>tx. if tx_Status tx = ReceiptStatusFailed x then [] else [tx]) txs) = unfailed_txs x txs"
  by (induction txs) (simp_all add: unfailed_txs_def)

lemma concat_unfailed_receipts:
  "concat (map (\<lambda>rc. if rc_Status rc = ReceiptStatusFailed x then [] else [rc]) rcs) = unfailed_receipts x rcs"
  by (induction rcs) (simp_all add: unfailed_receipts_def)

lemma store_txs_quiet:
  assumes "quiet db" "tables_ok (committed db)" "store_loop (store_tx x InTx) txs db = (Ok (early, ups), db')"
  shows "\<not> early \<and> ups = concat (map (\<lambda>tx. if tx_Status tx = ReceiptStatusFailed x then [] else [tx]) txs)
    \<and> quiet db' \<and> committed db' = committed db \<and> only_txs (visible InTx db) (visible InTx db')
    \<and> tx_final x (visible InTx db) (visible InTx db') \<and> (\<forall>tx \<in> set txs. recorded_tx x (visible InTx db') tx)"
  by (rule store_loop_quiet [OF ot.table_order_axioms _ _ assms])
    (rule store_tx_quiet, assumption+, erule recorded_tx_final, assumption)

lemma store_receipts_quiet:
  assumes "quiet db" "tables_ok (committed db)" "store_loop (store_receipt x InTx) rcs db = (Ok (early, ups), db')"
  shows "\<not> early \<and> ups = concat (map (\<lambda>rc. if rc_Status rc = ReceiptStatusFailed x then [] else [rc]) rcs)
    \<and> quiet db' \<and> committed db' = committed db \<and> only_receipts (visible InTx db) (visible InTx db')
    \<and> tx_final x (visible InTx db) (visible InTx db') \<and> (\<forall>rc \<in> set rcs. recorded_receipt x (visible InTx db') rc)"
  by (rule store_loop_quiet [OF orc.table_order_axioms _ _ assms])
    (rule store_receipt_quiet, assumption+, erule recorded_receipt_final, assumption)

lemma store_models_quiet:
  assumes q: "quiet db" and ok: "tables_ok (committed db)" and run: "store_models x blk txs rcs ls InTx db = (Ok u, db')"
  shows "quiet db' \<and> u = (unfailed_txs x txs, unfailed_receipts x rcs)
    \<and> block_stored x (visible InTx db) blk txs rcs ls (visible InTx db')
    \<and> tbl_lookup blk_Hash (blocks (visible InTx db)) (blk_Hash blk) = None
    \<and> blk_Round blk \<notin> blk_Round ` set (blocks (visible InTx db))"
proof -
  obtain e1 utxs db1 where 1: "store_loop (store_tx x InTx) txs db = (Ok (e1, utxs), db1)"
    using run by (auto simp: store_models_def split: prod.splits outcome.splits)
  note s1 = store_txs_quiet [OF q ok 1]
  then have q1: "quiet db1" and ok1: "tables_ok (committed db1)" and "\<not> e1" using ok by simp_all
  obtain e2 urcs db2 where 2: "store_loop (store_receipt x InTx) rcs db1 = (Ok (e2, urcs), db2)"
    using run 1 \<open>\<not> e1\<close> by (auto simp: store_models_def split: prod.splits outcome.splits)
  note s2 = store_receipts_quiet [OF q1 ok1 2]
  then have q2: "quiet db2" and "\<not> e2" by simp_all
  obtain u3 where 3: "store_rest x blk ls InTx db2 = (Ok u3, db')" and u: "u = (utxs, urcs)"
    using run 1 2 \<open>\<not> e1\<close> \<open>\<not> e2\<close> by (auto simp: store_models_def ret_def split: prod.splits outcome.splits)
  note s3 = store_rest_quiet [OF q2 3]
  obtain txrows where v1: "visible InTx db1 = (visible InTx db)\<lparr>transactions := txrows\<rparr>"
    using s1 unfolding only_txs_def by blast
  obtain rcrows where v2: "visible InTx db2 = (visible InTx db1)\<lparr>receipts := rcrows\<rparr>"
    using s2 unfolding only_receipts_def by blast
  have fin: "tx_final x (visible InTx db2) (visible InTx db')"
    using s3 by (simp add: tx_final_other)
  have "\<forall>tx \<in> set txs. recorded_tx x (visible InTx db') tx" "\<forall>rc \<in> set rcs. recorded_receipt x (visible InTx db') rc"
    using s1 s2 fin recorded_tx_final recorded_receipt_final by blast+
  moreover have "blocks (visible InTx db2) = blocks (visible InTx db)" "logs (visible InTx db2) = logs (visible InTx db)"
    "indexed_rounds (visible InTx db2) = indexed_rounds (visible InTx db)"
    using v1 v2 by simp_all
  moreover have "u = (unfailed_txs x txs, unfailed_receipts x rcs)"
    using s1 s2 u by (simp add: concat_unfailed_txs concat_unfailed_receipts)
  moreover have "blk_Round blk \<notin> blk_Round ` set (blocks (visible InTx db2))"
  proof
    assume "blk_Round blk \<in> blk_Round ` set (blocks (visible InTx db2))"
    then obtain b where b: "b \<in> set (blocks (visible InTx db2))" "blk_Round b = blk_Round blk" by force
    have "blk_Hash blk \<notin> blk_Hash ` set (blocks (visible InTx db2))" using s3 by (simp add: tbl_lookup_None_iff)
    with b have "blk_Hash b \<noteq> blk_Hash blk" by (metis imageI)
    with b s3 show False by (auto simp: round_taken_def)
  qed
  ultimately show ?thesis using s3 by (simp add: block_stored_def)
qed

lemma store_models_committed:
  assumes ok: "tables_ok (committed db)" and "faults db = []"
    and run: "RunInTransaction Pool (store_models x blk txs rcs ls) db = (Ok u, db')"
  shows "u = (unfailed_txs x txs, unfailed_receipts x rcs)
    \<and> block_stored x (committed db) blk txs rcs ls (committed db')
    \<and> blk_Round blk \<notin> blk_Round ` set (blocks (committed db))"
proof -
  obtain db1 db2 where *: "committed db1 = committed db" "tx_stmts db1 = []" "\<not> tx_aborted db1" "faults db1 = tl (faults db)"
    "store_models x blk txs rcs ls InTx db1 = (Ok u, db2)"
    "committed db' = (if tx_aborted db2 then committed db else visible InTx db2)"
    using store_models_run [OF ok run] by blast
  with assms(2) have "quiet db1" by (simp add: quiet_def)
  moreover have "tables_ok (committed db1)" using ok *(1) by simp
  ultimately have m: "quiet db2 \<and> u = (unfailed_txs x txs, unfailed_receipts x rcs)
      \<and> block_stored x (visible InTx db1) blk txs rcs ls (visible InTx db2)
      \<and> tbl_lookup blk_Hash (blocks (visible InTx db1)) (blk_Hash blk) = None
      \<and> blk_Round blk \<notin> blk_Round ` set (blocks (visible InTx db1))"
    by (rule store_models_quiet [OF _ _ *(5)])
  then have "committed db' = visible InTx db2" using *(6) by (simp add: quiet_def)
  with m visible_fresh_tx [OF *(2)] *(1) show ?thesis by simp
qed

lemma StoreBlockData_OkE:
  assumes "StoreBlockData x on_block oblk items params ib = (Ok u, ib')"
  obtains blk txs rcs dbLogs median utxs urcs db'
  where "block_models x oblk items params = Ok ((blk, txs, rcs, dbLogs), median)"
    and "RunInTransaction Pool (store_models x blk txs rcs dbLogs) (ib_storage ib) = (Ok (utxs, urcs), db')"
    and "publish on_block
        \<lparr>ce_Block = blk, ce_Hash = HexToHash x (OasisHash_Hex x (ob_EncodedHash oblk)), ce_Logs = dbLogs\<rparr>
        \<lparr>bd_Block = blk, bd_Receipts = urcs, bd_UniqueTxes = utxs, bd_Median = median\<rparr>
        (ib\<lparr>ib_storage := db'\<rparr>) = (Ok u, ib')"
proof (cases "block_models x oblk items params")
  case (Ok mm)
  obtain blk txs rcs dbLogs median where mm: "mm = ((blk, txs, rcs, dbLogs), median)" by (metis prod.exhaust)
  obtain rt db' where rt: "RunInTransaction Pool (store_models x blk txs rcs dbLogs) (ib_storage ib) = (rt, db')"
    by (cases "RunInTransaction Pool (store_models x blk txs rcs dbLogs) (ib_storage ib)")
  show thesis
  proof (cases rt)
    case r: (Ok v)
    obtain utxs urcs where v: "v = (utxs, urcs)" by (cases v)
    show thesis
      by (rule that [of blk txs rcs dbLogs median utxs urcs db'])
        (use assms Ok mm rt r v in \<open>simp_all add: StoreBlockData_def\<close>)
  qed (use assms Ok mm rt in \<open>simp_all add: StoreBlockData_def\<close>)
qed (use assms in \<open>simp_all add: StoreBlockData_def\<close>)

lemma publish_OkD:
  "publish on_block ev bd ib = (Ok u, ib') \<Longrightarrow>
     ib_storage ib' = ib_storage ib \<and> ib_blockNotifier ib' = ib_blockNotifier ib @ [bd]
     \<and> ib_chainChan ib' = send_or_drop ev (ib_chainChan ib)"
  by (auto simp: publish_def Let_def split: option.splits prod.splits outcome.splits)

lemma index_announces:
  assumes "tables_ok (committed (ib_storage ib))" and "faults (ib_storage ib) = []"
    and "Index x on_block oblk items params rtInfo ib = (Ok u, ib')"
  shows "\<exists>blk txs rcs ls median. block_models x oblk items params = Ok ((blk, txs, rcs, ls), median)
    \<and> ib_blockNotifier ib' = ib_blockNotifier ib @ [\<lparr>bd_Block = blk, bd_Receipts = unfailed_receipts x rcs,
         bd_UniqueTxes = unfailed_txs x txs, bd_Median = median\<rparr>]
    \<and> ib_chainChan ib' = send_or_drop \<lparr>ce_Block = blk, ce_Hash = HexToHash x (OasisHash_Hex x (ob_EncodedHash oblk)),
         ce_Logs = ls\<rparr> (ib_chainChan ib)"
proof -
  obtain v ib1 where s: "StoreBlockData x on_block oblk items params ib = (Ok v, ib1)"
    and i: "ib_blockNotifier ib' = ib_blockNotifier ib1" "ib_chainChan ib' = ib_chainChan ib1"
    using assms(3) by (auto simp: Index_def split: prod.splits outcome.splits option.splits)
  obtain blk txs rcs ls median utxs urcs db' where m: "block_models x oblk items params = Ok ((blk, txs, rcs, ls), median)"
    and rt: "RunInTransaction Pool (store_models x blk txs rcs ls) (ib_storage ib) = (Ok (utxs, urcs), db')"
    and p: "publish on_block
        \<lparr>ce_Block = blk, ce_Hash = HexToHash x (OasisHash_Hex x (ob_EncodedHash oblk)), ce_Logs = ls\<rparr>
        \<lparr>bd_Block = blk, bd_Receipts = urcs, bd_UniqueTxes = utxs, bd_Median = median\<rparr>
        (ib\<lparr>ib_storage := db'\<rparr>) = (Ok v, ib1)"
    by (rule StoreBlockData_OkE [OF s])
  show ?thesis using m i publish_OkD [OF p] store_models_committed [OF assms(1,2) rt] by simp
qed

lemma tip_after_upsert: "tbl_unique ir_Tip rows \<Longrightarrow>
    tbl_lookup ir_Tip (tbl_insert_do_update ir_Tip i rows) (ir_Tip i) = Some i"
  by (simp add: tbl.lookup_upsert)

subsection \<open>An example run\<close>

definition example_ib :: "unit indexBackend" where
  "example_ib = NewIndexBackend example_db (Some [])"

definition no_observer :: "BlockData \<Rightarrow> (unit, unit) call" where
  "no_observer bd = ret ()"

lemma example_ib_ok: "tables_ok (committed (ib_storage example_ib))" "faults (ib_storage example_ib) = []"
  by (simp_all add: example_ib_def NewIndexBackend_def example_db_def empty_tables_def tables_ok_def tbl_unique_def)

lemma example_block_models:
  "\<exists>blk tx rc. block_models example_ext example_block [example_item [1] True] None = Ok ((blk, [tx], [rc], []), Some 7)
     \<and> tx_Status tx = 1 \<and> rc_Status rc = 1 \<and> blk_Round blk = 7 \<and> tx_Hash tx = hex0x (replicate 32 1)"
  by (simp add: block_models_def decode_txs_def decode_tx_def empty_decoded_def is_ethereum_tx_def example_item_def
      example_ext_def Logs2EthLogs_def effective_price_def Let_def blockToModels_def
      ethToModelLogs_def model_tx_def model_receipt_def gas_limit_of_def min_gas_price_of_def example_etx_def hex0x_def
      example_block_def)

lemma example_store:
  assumes "tx_Status tx = 1" "rc_Status rc = 1"
  shows "\<exists>db'. RunInTransaction Pool (store_models example_ext blk [tx] [rc] []) example_db = (Ok ([tx], [rc]), db')"
proof -
  have f: "ReceiptStatusFailed example_ext = 0" by (simp add: example_ext_def)
  show ?thesis
    by (simp add: RunInTransaction_def example_db_def next_fault_def close_tx_def store_models_def store_tx_def
        store_receipt_def assms f GetTransaction_def query_row_def query_def statement_def visible_def empty_tables_def
        upsert_tx_def upsert_receipt_def insertSingle_def exec_stmt_def ret_def GetTransactionReceipt_def
        store_rest_def apply_stmt_def tbl_insert_def round_taken_def commit_tx_def tbl_insert_do_update_def)
qed

lemma example_index:
  "\<exists>ib'. Index example_ext no_observer example_block [example_item [1] True] None None example_ib = (Ok (), ib')"
proof -
  obtain blk tx rc where m: "block_models example_ext example_block [example_item [1] True] None = Ok ((blk, [tx], [rc], []), Some 7)"
    and st: "tx_Status tx = 1" "rc_Status rc = 1"
    using example_block_models by blast
  obtain db' where "RunInTransaction Pool (store_models example_ext blk [tx] [rc] []) example_db = (Ok ([tx], [rc]), db')"
    using example_store [OF st] by blast
  with m show ?thesis
    by (simp add: Index_def StoreBlockData_def publish_def Let_def example_ib_def NewIndexBackend_def)
qed

text \<open>
  C5: on a database that does not fail, a block that \<open>Index\<close> accepted is completely in
  storage: its row answers for its round, the last indexed round is its round, its logs are
  appended, and every transaction and receipt has a row, the very one of this block unless it
  failed. The event system is offered the block, and exactly one \<open>BlockData\<close> is broadcast,
  with the transactions and receipts of the block that did not fail.
\<close>

theorem index_stores_block:
  assumes "tables_ok (committed (ib_storage ib))" and "faults (ib_storage ib) = []"
    and "Index x on_block oblk items params rtInfo ib = (Ok u, ib')"
  shows "\<exists>blk txs rcs ls median. block_models x oblk items params = Ok ((blk, txs, rcs, ls), median)
    \<and> (let t = committed (ib_storage ib'); t0 = committed (ib_storage ib) in
         tbl_lookup blk_Round (blocks t) (blk_Round blk) = Some (block_row blk)
       \<and> tbl_lookup ir_Tip (indexed_rounds t) Continues = Some \<lparr>ir_Tip = Continues, ir_Round = blk_Round blk\<rparr>
       \<and> logs t = logs t0 @ ls
       \<and> (\<forall>tx \<in> set txs. recorded_tx x t tx) \<and> (\<forall>rc \<in> set rcs. recorded_receipt x t rc))
    \<and> ib_blockNotifier ib' = ib_blockNotifier ib @ [\<lparr>bd_Block = blk, bd_Receipts = unfailed_receipts x rcs,
         bd_UniqueTxes = unfailed_txs x txs, bd_Median = median\<rparr>]
    \<and> ib_chainChan ib' = send_or_drop \<lparr>ce_Block = blk, ce_Hash = HexToHash x (OasisHash_Hex x (ob_EncodedHash oblk)),
         ce_Logs = ls\<rparr> (ib_chainChan ib)"
proof -
  obtain u1 ib1 where s: "StoreBlockData x on_block oblk items params ib = (Ok u1, ib1)"
    and i: "ib_storage ib' = ib_storage ib1" "ib_blockNotifier ib' = ib_blockNotifier ib1" "ib_chainChan ib' = ib_chainChan ib1"
    using assms(3) by (auto simp: Index_def split: prod.splits outcome.splits option.splits)
  obtain blk txs rcs ls median utxs urcs db' where m: "block_models x oblk items params = Ok ((blk, txs, rcs, ls), median)"
    and rt: "RunInTransaction Pool (store_models x blk txs rcs ls) (ib_storage ib) = (Ok (utxs, urcs), db')"
    and p: "publish on_block
        \<lparr>ce_Block = blk, ce_Hash = HexToHash x (OasisHash_Hex x (ob_EncodedHash oblk)), ce_Logs = ls\<rparr>
        \<lparr>bd_Block = blk, bd_Receipts = urcs, bd_UniqueTxes = utxs, bd_Median = median\<rparr>
        (ib\<lparr>ib_storage := db'\<rparr>) = (Ok u1, ib1)"
    by (rule StoreBlockData_OkE [OF s])
  note st = store_models_committed [OF assms(1,2) rt]
  have db': "ib_storage ib1 = db'" and n: "ib_blockNotifier ib1 = ib_blockNotifier ib @
      [\<lparr>bd_Block = blk, bd_Receipts = urcs, bd_UniqueTxes = utxs, bd_Median = median\<rparr>]"
    and ch: "ib_chainChan ib1 = send_or_drop \<lparr>ce_Block = blk, ce_Hash = HexToHash x (OasisHash_Hex x (ob_EncodedHash oblk)),
        ce_Logs = ls\<rparr> (ib_chainChan ib)"
    using publish_OkD [OF p] by simp_all
  have "tbl_lookup blk_Round (blocks (committed db')) (blk_Round blk) = Some (block_row blk)"
  proof -
    have "tbl_lookup blk_Round (blocks (committed (ib_storage ib))) (blk_Round blk) = None"
      using st by (simp add: tbl_lookup_None_iff)
    with st show ?thesis by (simp add: block_stored_def tbl_lookup_append tbl_lookup_Cons block_row_def)
  qed
  moreover have "tbl_lookup ir_Tip (indexed_rounds (committed db')) Continues =
      Some \<lparr>ir_Tip = Continues, ir_Round = blk_Round blk\<rparr>"
    using st tip_after_upsert [OF tables_okD(6) [OF assms(1)], of "\<lparr>ir_Tip = Continues, ir_Round = blk_Round blk\<rparr>"]
    by (simp add: block_stored_def)
  ultimately show ?thesis
    using m st i db' n ch by (simp add: block_stored_def Let_def)
qed

theorem index_stores_block_witness:
  "\<exists>ib'. Index example_ext no_observer example_block [example_item [1] True] None None example_ib = (Ok (), ib')
     \<and> tbl_lookup ir_Tip (indexed_rounds (committed (ib_storage ib'))) Continues = Some \<lparr>ir_Tip = Continues, ir_Round = 7\<rparr>"
proof -
  obtain blk tx rc where m: "block_models example_ext example_block [example_item [1] True] None = Ok ((blk, [tx], [rc], []), Some 7)"
    and r: "blk_Round blk = 7"
    using example_block_models by blast
  obtain ib' where i: "Index example_ext no_observer example_block [example_item [1] True] None None example_ib = (Ok (), ib')"
    using example_index by blast
  have "tbl_lookup ir_Tip (indexed_rounds (committed (ib_storage ib'))) Continues = Some \<lparr>ir_Tip = Continues, ir_Round = 7\<rparr>"
    using index_stores_block [OF example_ib_ok i] m r by (auto simp: Let_def)
  with i show ?thesis by blast
qed

text \<open>
  C20: a call of \<open>Index\<close> that returns an error leaves no trace: the committed tables, the chain
  event channel, the observer, the broadcasts and the runtime info are what they were.
\<close>

theorem index_error_no_effect:
  assumes "tables_ok (committed (ib_storage ib))"
    and "Index x on_block oblk items params rtInfo ib = (Err e, ib')"
  shows "committed (ib_storage ib') = committed (ib_storage ib) \<and> ib_chainChan ib' = ib_chainChan ib
    \<and> ib_observer ib' = ib_observer ib \<and> ib_blockNotifier ib' = ib_blockNotifier ib \<and> ib_rtInfo ib' = ib_rtInfo ib"
proof -
  have s: "StoreBlockData x on_block oblk items params ib = (Err e, ib')"
    using assms(2) by (auto simp: Index_def split: prod.splits outcome.splits)
  show ?thesis
  proof (cases "block_models x oblk items params")
    case (Ok mm)
    obtain blk txs rcs dbLogs median where mm: "mm = ((blk, txs, rcs, dbLogs), median)" by (metis prod.exhaust)
    obtain rt db' where rt: "RunInTransaction Pool (store_models x blk txs rcs dbLogs) (ib_storage ib) = (rt, db')"
      by (cases "RunInTransaction Pool (store_models x blk txs rcs dbLogs) (ib_storage ib)")
    show ?thesis
    proof (cases rt)
      case r: (Ok v)
      have "fst (publish on_block ev bd ib0) \<noteq> Err e" for ev bd ib0
        by (auto simp: publish_def Let_def split: option.splits prod.splits outcome.splits)
      with s Ok mm rt r show ?thesis by (auto simp: StoreBlockData_def split: prod.splits) (metis fst_conv)+
    next
      case (Err e')
      with s Ok mm rt have "ib' = ib\<lparr>ib_storage := db'\<rparr>" by (simp add: StoreBlockData_def)
      moreover from store_models_run [OF assms(1) rt] Err have "committed db' = committed (ib_storage ib)" by auto
      ultimately show ?thesis by simp
    next
      case (Panic p)
      with s Ok mm rt show ?thesis by (simp add: StoreBlockData_def)
    qed
  qed (use s in \<open>auto simp: StoreBlockData_def\<close>)
qed

theorem index_error_no_effect_witness:
  "\<exists>e ib'. Index example_ext no_observer example_block [example_item [] True] None None example_ib = (Err e, ib')
     \<and> ib_blockNotifier ib' = []"
proof -
  have "\<exists>e ib'. Index example_ext no_observer example_block [example_item [] True] None None example_ib = (Err e, ib')"
    by (simp add: Index_def StoreBlockData_def block_models_def decode_txs_def decode_tx_def is_ethereum_tx_def
        example_item_def example_ext_def)
  then obtain e ib' where i: "Index example_ext no_observer example_block [example_item [] True] None None example_ib = (Err e, ib')"
    by blast
  from i index_error_no_effect [OF example_ib_ok(1) i] show ?thesis
    by (auto simp: example_ib_def NewIndexBackend_def)
qed

definition example_settled_ib :: "unit indexBackend" where
  "example_settled_ib = example_ib\<lparr>ib_storage := example_db\<lparr>committed := empty_tables\<lparr>transactions := [example_tx]\<rparr>\<rparr>\<rparr>"

theorem index_settled_final_witness:
  "tx_at (committed (ib_storage (snd (Index example_ext no_observer example_block [example_item [1] True] None None
      example_settled_ib)))) ''0xaa'' = Some example_tx"
proof -
  obtain r ib' where i: "Index example_ext no_observer example_block [example_item [1] True] None None example_settled_ib = (r, ib')"
    by (cases "Index example_ext no_observer example_block [example_item [1] True] None None example_settled_ib")
  have ok: "tables_ok (committed (ib_storage example_settled_ib))"
    by (simp add: example_settled_ib_def empty_tables_def tables_ok_def tbl_unique_def)
  have "tx_at (committed (ib_storage example_settled_ib)) ''0xaa'' = Some example_tx"
    "tx_Status example_tx \<noteq> ReceiptStatusFailed example_ext"
    by (simp_all add: example_settled_ib_def example_tx_def tbl_lookup_Cons example_ext_def)
  with index_settled_final [OF ok i] i show ?thesis by simp
qed

subsection \<open>A server that never fails\<close>

text \<open>A call is calm when it consumes no failure that is not there.\<close>

named_theorems calm_intros

definition calm :: "(pgdb, 'a) call \<Rightarrow> bool" where
  "calm c \<longleftrightarrow> (\<forall>db. faults db = [] \<longrightarrow> faults (snd (c db)) = [])"

lemma calmD: "calm c \<Longrightarrow> faults db = [] \<Longrightarrow> c db = (r, db') \<Longrightarrow> faults db' = []"
  unfolding calm_def by (metis snd_conv)

lemma calm_ret [calm_intros]: "calm (ret y)"
  by (simp add: calm_def ret_def)

lemma calm_and_then [calm_intros]:
  assumes "calm m" and "\<And>y. calm (f y)"
  shows "calm (and_then m f)"
  unfolding calm_def
proof (intro allI impI)
  fix db :: pgdb assume "faults db = []"
  obtain r db1 where m: "m db = (r, db1)" by (cases "m db")
  from calmD [OF assms(1) \<open>faults db = []\<close> m] assms(2) show "faults (snd (and_then m f db)) = []"
    by (cases r) (auto simp: m calm_def)
qed

lemma calm_for_each [calm_intros]: "(\<And>y. calm (f y)) \<Longrightarrow> calm (for_each f ys)"
  by (induction ys) (auto intro!: calm_intros simp del: and_then.simps)

lemma calm_store_loop [calm_intros]: "(\<And>y. calm (f y)) \<Longrightarrow> calm (store_loop f ys)"
  by (induction ys) (auto intro!: calm_intros simp del: and_then.simps split: option.split)

lemma calm_statement [calm_intros]: "calm (statement h f)"
  by (cases h) (auto simp: calm_def statement_def next_fault_def abort_tx_def split: sum.split)

lemma calm_exec_stmt [calm_intros]: "calm (exec_stmt h st)"
  by (simp add: exec_stmt_def calm_statement)

lemma calm_query [calm_intros]: "calm (query h q)"
  by (simp add: query_def calm_statement)

lemma calm_query_row [calm_intros]: "calm (query_row h q)"
  unfolding query_row_def by (rule calm_and_then [OF calm_query]) (simp add: calm_def split: option.split)

lemma calm_GetTransactionReceipt: "calm (GetTransactionReceipt h hash)"
proof -
  have "calm (\<lambda>db. and_then (query h q) (\<lambda>ls. ret (r\<lparr>rc_Logs := scan_logs db ls\<rparr>)) db)" for q r
    unfolding calm_def
  proof (intro allI impI)
    fix db :: pgdb assume "faults db = []"
    moreover have "calm (and_then (query h q) (\<lambda>ls. ret (r\<lparr>rc_Logs := scan_logs db ls\<rparr>)))" by (intro calm_intros)
    ultimately show "faults (snd (and_then (query h q) (\<lambda>ls. ret (r\<lparr>rc_Logs := scan_logs db ls\<rparr>)) db)) = []"
      unfolding calm_def by blast
  qed
  then show ?thesis unfolding GetTransactionReceipt_def by (intro calm_and_then calm_query_row)
qed

lemma calm_lookup_then:
  assumes "calm look" and "calm up"
  shows "calm (\<lambda>db. case look db of
      (Err e, db') \<Rightarrow> if errors_Is e ErrNoRows then up db' else (Ok None, db')
    | (Ok y, db') \<Rightarrow> if P y then (Err dup, db') else up db'
    | (Panic p, db') \<Rightarrow> (Panic p, db'))"
  unfolding calm_def
proof (intro allI impI)
  fix db :: pgdb assume "faults db = []"
  obtain r db1 where l: "look db = (r, db1)" by (cases "look db")
  from calmD [OF assms(1) \<open>faults db = []\<close> l] assms(2)
  show "faults (snd (case look db of
      (Err e, db') \<Rightarrow> if errors_Is e ErrNoRows then up db' else (Ok None, db')
    | (Ok y, db') \<Rightarrow> if P y then (Err dup, db') else up db'
    | (Panic p, db') \<Rightarrow> (Panic p, db'))) = []"
    by (cases r) (auto simp: l calm_def)
qed

lemma calm_store_tx: "calm (store_tx x h tx)"
proof (cases "tx_Status tx = ReceiptStatusFailed x")
  case True
  have "calm (and_then (exec_stmt h (InsertStmt DoNothing (RowTransaction tx))) (\<lambda>_. ret (Some ([] :: Transaction list))))"
    by (intro calm_intros)
  with True show ?thesis unfolding calm_def by (simp add: store_tx_def insertSingle_def del: and_then.simps)
next
  case False
  have "calm (upsert_tx x h tx)" unfolding upsert_tx_def Upsert.simps insertSingle_def by (intro calm_intros)
  from calm_lookup_then [OF calm_query_row [of h "\<lambda>t. tx_at t (tx_Hash tx)"] this, of
      "\<lambda>y. tx_Status y \<noteq> ReceiptStatusFailed x" "Errorf ''duplicate tx hash''"] False
  show ?thesis unfolding calm_def by (simp add: store_tx_def GetTransaction_def)
qed

lemma calm_store_receipt: "calm (store_receipt x h rc)"
proof (cases "rc_Status rc = ReceiptStatusFailed x")
  case True
  have "calm (and_then (exec_stmt h (InsertStmt DoNothing (RowReceipt rc))) (\<lambda>_. ret (Some ([] :: Receipt list))))"
    by (intro calm_intros)
  with True show ?thesis unfolding calm_def by (simp add: store_receipt_def insertSingle_def del: and_then.simps)
next
  case False
  have "calm (upsert_receipt x h rc)" unfolding upsert_receipt_def Upsert.simps insertSingle_def by (intro calm_intros)
  from calm_lookup_then [OF calm_GetTransactionReceipt [of h "rc_TransactionHash rc"] this, of
      "\<lambda>y. rc_Status y \<noteq> ReceiptStatusFailed x" "Errorf ''duplicate receipt tx hash''"] False
  show ?thesis unfolding calm_def by (simp add: store_receipt_def)
qed

lemma calm_store_models: "calm (store_models x blk txs rcs ls h)"
proof -
  have rest: "calm (store_rest x blk ls h)"
    unfolding store_rest_def Insert.simps Upsert.simps insertSingle_def by (intro calm_intros)
  show ?thesis
    unfolding store_models_def
    by (intro calm_and_then calm_store_loop calm_store_tx)
      (auto simp del: and_then.simps intro!: calm_intros calm_store_receipt rest)
qed

lemma calm_commit_tx: "calm commit_tx"
  by (simp add: calm_def commit_tx_def next_fault_def)

lemma RunInTransaction_calm:
  assumes "calm (fn InTx)"
  shows "calm (RunInTransaction Pool fn)"
  unfolding calm_def
proof (intro allI impI)
  fix db :: pgdb assume f: "faults db = []"
  obtain r db1 where fn: "fn InTx (close_tx db) = (r, db1)" by (cases "fn InTx (close_tx db)")
  have f1: "faults db1 = []" using calmD [OF assms _ fn] f by simp
  have "calm (and_then commit_tx (\<lambda>_. ret y))" for y :: 'a by (intro calm_and_then calm_commit_tx calm_ret)
  with f1 show "faults (snd (RunInTransaction Pool fn db)) = []"
    by (cases r) (simp_all add: RunInTransaction_def next_fault_def f fn calm_def del: and_then.simps)
qed

lemma StoreBlockData_calm:
  assumes "faults (ib_storage ib) = []" and "StoreBlockData x on_block oblk items params ib = (r, ib')"
  shows "faults (ib_storage ib') = []"
proof (cases "block_models x oblk items params")
  case (Ok mm)
  obtain blk txs rcs ls median where mm: "mm = ((blk, txs, rcs, ls), median)" by (metis prod.exhaust)
  obtain rt db' where rt: "RunInTransaction Pool (store_models x blk txs rcs ls) (ib_storage ib) = (rt, db')"
    by (cases "RunInTransaction Pool (store_models x blk txs rcs ls) (ib_storage ib)")
  have "faults db' = []" using calmD [OF RunInTransaction_calm [OF calm_store_models] assms(1) rt] .
  moreover have "ib_storage ib' = db'"
  proof (cases rt)
    case r: (Ok u)
    obtain utxs urcs where "u = (utxs, urcs)" by (cases u)
    with assms(2) Ok mm rt r have "publish on_block
        \<lparr>ce_Block = blk, ce_Hash = HexToHash x (OasisHash_Hex x (ob_EncodedHash oblk)), ce_Logs = ls\<rparr>
        \<lparr>bd_Block = blk, bd_Receipts = urcs, bd_UniqueTxes = utxs, bd_Median = median\<rparr> (ib\<lparr>ib_storage := db'\<rparr>) = (r, ib')"
      by (simp add: StoreBlockData_def)
    then have "ib' = snd (publish on_block
        \<lparr>ce_Block = blk, ce_Hash = HexToHash x (OasisHash_Hex x (ob_EncodedHash oblk)), ce_Logs = ls\<rparr>
        \<lparr>bd_Block = blk, bd_Receipts = urcs, bd_UniqueTxes = utxs, bd_Median = median\<rparr> (ib\<lparr>ib_storage := db'\<rparr>))" by simp
    then show ?thesis by simp
  qed (use assms(2) Ok mm rt in \<open>auto simp: StoreBlockData_def\<close>)
  ultimately show ?thesis by simp
qed (use assms in \<open>auto simp: StoreBlockData_def\<close>)

subsection \<open>A lookup failure while storing\<close>

text \<open>
  a database failure of the lookup that precedes the first transaction's write is not
  reported. \<open>Index\<close> returns success, nothing of the block is in the committed tables, the last
  indexed round does not move, and the block is still announced to the observers.
\<close>

lemma index_lookup_failure_lost:
  assumes m: "block_models x oblk items params = Ok ((blk, tx # txs, rcs, ls), median)"
    and nf: "tx_Status tx \<noteq> ReceiptStatusFailed x" and e: "\<not> errors_Is e ErrNoRows"
    and flt: "faults (ib_storage ib) = [None, Some e, None]" and no: "ib_observer ib = None"
  shows "\<exists>ib'. Index x on_block oblk items params rtInfo ib = (Ok (), ib')
    \<and> committed (ib_storage ib') = committed (ib_storage ib)
    \<and> ib_blockNotifier ib' = ib_blockNotifier ib @ [\<lparr>bd_Block = blk, bd_Receipts = [], bd_UniqueTxes = [], bd_Median = median\<rparr>]"
proof -
  have "\<exists>db'. RunInTransaction Pool (store_models x blk (tx # txs) rcs ls) (ib_storage ib) = (Ok ([], []), db')
      \<and> committed db' = committed (ib_storage ib)"
    using flt nf e
    by (simp add: RunInTransaction_def next_fault_def close_tx_def store_models_def store_tx_def GetTransaction_def
        query_row_def query_def statement_def abort_tx_def ret_def commit_tx_def)
  then obtain db' where "RunInTransaction Pool (store_models x blk (tx # txs) rcs ls) (ib_storage ib) = (Ok ([], []), db')"
    and c: "committed db' = committed (ib_storage ib)" by blast
  with m no show ?thesis
    by (simp add: Index_def StoreBlockData_def publish_def Let_def split: option.split)
qed

definition example_faulty_ib :: "unit indexBackend" where
  "example_faulty_ib = example_ib\<lparr>ib_storage := example_db\<lparr>faults := [None, Some (ErrExt ''timeout''), None]\<rparr>\<rparr>"

lemma index_lookup_failure_lost_example:
  "\<exists>ib'. Index example_ext no_observer example_block [example_item [1] True] None None example_faulty_ib = (Ok (), ib')
     \<and> committed (ib_storage ib') = empty_tables \<and> length (ib_blockNotifier ib') = 1"
proof -
  obtain blk tx rc where m: "block_models example_ext example_block [example_item [1] True] None = Ok ((blk, [tx], [rc], []), Some 7)"
    and st: "tx_Status tx = 1"
    using example_block_models by blast
  have nf: "tx_Status tx \<noteq> ReceiptStatusFailed example_ext" using st by (simp add: example_ext_def)
  have e: "\<not> errors_Is (ErrExt ''timeout'') ErrNoRows" by simp
  have flt: "faults (ib_storage example_faulty_ib) = [None, Some (ErrExt ''timeout''), None]"
    and no: "ib_observer example_faulty_ib = None"
    by (simp_all add: example_faulty_ib_def example_ib_def NewIndexBackend_def)
  obtain ib' where "Index example_ext no_observer example_block [example_item [1] True] None None example_faulty_ib = (Ok (), ib')"
    and "committed (ib_storage ib') = committed (ib_storage example_faulty_ib)"
    and "ib_blockNotifier ib' = ib_blockNotifier example_faulty_ib @
        [\<lparr>bd_Block = blk, bd_Receipts = [], bd_UniqueTxes = [], bd_Median = Some 7\<rparr>]"
    using index_lookup_failure_lost [OF m nf e flt no] by blast
  then show ?thesis by (simp add: example_faulty_ib_def example_ib_def NewIndexBackend_def example_db_def)
qed

subsection \<open>Pruning\<close>

definition retained :: "u64 \<Rightarrow> tables \<Rightarrow> tables" where
  "retained n t = t\<lparr>blocks := tbl_delete_below blk_Round n (blocks t), logs := tbl_delete_below log_Round n (logs t),
     transactions := tbl_delete_below tx_Round n (transactions t), receipts := tbl_delete_below rc_Round n (receipts t)\<rparr>"

definition with_last_retained :: "u64 \<Rightarrow> tables \<Rightarrow> tables" where
  "with_last_retained n t =
     t\<lparr>indexed_rounds := tbl_insert_do_update ir_Tip \<lparr>ir_Tip = LastRetained, ir_Round = n\<rparr> (indexed_rounds t)\<rparr>"

lemma exec_InTx_Ok_not_aborted: "exec_stmt InTx st db = (Ok u, db') \<Longrightarrow> \<not> tx_aborted db'"
  by (auto simp: exec_stmt_def statement_def dest!: next_fault_frame split: if_splits prod.splits option.splits sum.splits)

lemma Delete_InTx_Ok:
  assumes "Delete InTx tb n db = (Ok u, db')"
  shows "committed db' = committed db \<and> \<not> tx_aborted db' \<and> Inr (visible InTx db') = run_stmt (DeleteStmt tb n) (visible InTx db)"
  using assms exec_stmt_OkD [of InTx "DeleteStmt tb n" db u db'] exec_stmt_InTx_cases [of "DeleteStmt tb n" db "Ok u" db']
    exec_InTx_Ok_not_aborted [of "DeleteStmt tb n" db u db'] by (simp add: Delete_def)

lemma Delete_InTx_committed: "Delete InTx tb n db = (r, db') \<Longrightarrow> committed db' = committed db"
  using exec_stmt_InTx_cases by (simp add: Delete_def)

definition prune_deletes :: "u64 \<Rightarrow> handle \<Rightarrow> (pgdb, unit) call" where
  "prune_deletes n s = and_then (Delete s TblBlock n) (\<lambda>_. and_then (Delete s TblLog n) (\<lambda>_.
     and_then (Delete s TblTransaction n) (\<lambda>_. Delete s TblReceipt n)))"

lemma prune_deletes_committed:
  assumes "prune_deletes n InTx db = (r, db')"
  shows "committed db' = committed db"
proof -
  have loc: "tx_local (Delete InTx tb n)" for tb by (simp add: Delete_def tx_local_exec_stmt)
  have "tx_local (prune_deletes n InTx)"
    unfolding prune_deletes_def by (intro tx_local_and_then loc)
  from tx_localD [OF this assms] show ?thesis .
qed

lemma prune_deletes_Ok:
  assumes "prune_deletes n InTx db = (Ok u, db')"
  shows "\<not> tx_aborted db' \<and> visible InTx db' = retained n (visible InTx db)"
proof -
  obtain db1 db2 db3 where "Delete InTx TblBlock n db = (Ok (), db1)" "Delete InTx TblLog n db1 = (Ok (), db2)"
      "Delete InTx TblTransaction n db2 = (Ok (), db3)" "Delete InTx TblReceipt n db3 = (Ok u, db')"
    using assms by (auto simp: prune_deletes_def split: prod.splits outcome.splits)
  note d = this [THEN Delete_InTx_Ok]
  from d show ?thesis by (simp add: retained_def)
qed

lemma store_last_retained_cases:
  assumes "storeLastRetainedRound x n db = (r, db')"
  shows "tx_stmts db' = tx_stmts db \<and> tx_aborted db' = tx_aborted db
    \<and> committed db' = (if r = Ok () then with_last_retained n (committed db) else committed db)"
proof -
  obtain f db1 where nf: "next_fault db = (f, db1)" by (cases "next_fault db")
  note c = next_fault_frame [OF nf]
  show ?thesis
  proof (cases f)
    case (Some e)
    with assms nf have "r = Err e" "db' = db1"
      by (simp_all add: storeLastRetainedRound_def insertSingle_def exec_stmt_def statement_def abort_tx_def)
    with c show ?thesis by simp
  next
    case None
    with assms nf have "r = Ok ()" "db' = db1\<lparr>committed := with_last_retained n (committed db1)\<rparr>"
      by (simp_all add: storeLastRetainedRound_def insertSingle_def exec_stmt_def statement_def visible_def
          apply_stmt_def with_last_retained_def)
    with c show ?thesis by simp
  qed
qed

lemma Prune_closure:
  "Prune x n = on_storage (RunInTransaction Pool (\<lambda>s. and_then (storeLastRetainedRound x n) (\<lambda>_. prune_deletes n s)))"
  by (simp add: Prune_def prune_deletes_def)

lemma prune_cases:
  assumes "Prune x n ib = (r, ib')"
  shows "(r = Ok () \<longrightarrow> committed (ib_storage ib') = retained n (with_last_retained n (committed (ib_storage ib))))
    \<and> (r \<noteq> Ok () \<longrightarrow> committed (ib_storage ib') = committed (ib_storage ib)
          \<or> committed (ib_storage ib') = with_last_retained n (committed (ib_storage ib)))"
proof -
  let ?fn = "\<lambda>s. and_then (storeLastRetainedRound x n) (\<lambda>_. prune_deletes n s)"
  let ?db = "ib_storage ib"
  obtain db' where run: "RunInTransaction Pool ?fn ?db = (r, db')" and ib': "ib_storage ib' = db'"
    using assms by (auto simp: Prune_closure on_storage_def split: prod.splits)
  obtain f db0 where nf: "next_fault ?db = (f, db0)" by (cases "next_fault ?db")
  note c0 = next_fault_frame [OF nf]
  show ?thesis
  proof (cases f)
    case (Some e)
    with run nf have "r = Err e" "db' = db0" by (simp_all add: RunInTransaction_def)
    with c0 ib' show ?thesis by simp
  next
    case None
    obtain rs db1 where s: "storeLastRetainedRound x n (close_tx db0) = (rs, db1)"
      by (cases "storeLastRetainedRound x n (close_tx db0)")
    note cs = store_last_retained_cases [OF s]
    show ?thesis
    proof (cases "rs = Ok ()")
      case False
      with run nf None s have "r = rs" "db' = close_tx db1"
        by (cases rs; simp add: RunInTransaction_def)+
      with False cs c0 ib' show ?thesis by simp
    next
      case True
      obtain rd db2 where d: "prune_deletes n InTx db1 = (rd, db2)" by (cases "prune_deletes n InTx db1")
      have c2: "committed db2 = with_last_retained n (committed ?db)"
        using prune_deletes_committed [OF d] cs True c0 by simp
      show ?thesis
      proof (cases "rd = Ok ()")
        case False
        with run nf None s True d have "r = rd" "db' = close_tx db2"
          by (cases rd; simp add: RunInTransaction_def)+
        with False c2 ib' show ?thesis by simp
      next
        case rd: True
        obtain rc db3 where cm: "commit_tx db2 = (rc, db3)" by (cases "commit_tx db2")
        with run nf None s True d rd have "r = rc" "db' = db3"
          by (cases rc; simp add: RunInTransaction_def ret_def)+
        moreover have "visible InTx db2 = retained n (with_last_retained n (committed ?db))" "\<not> tx_aborted db2"
          using prune_deletes_Ok [OF d [unfolded rd]] cs True c0 visible_fresh_tx [of db1] by simp_all
        ultimately show ?thesis using commit_txD [OF cm] c2 ib' by auto
      qed
    qed
  qed
qed

lemma prune_run: "Prune x n ib = (Ok (), ib') \<Longrightarrow>
    committed (ib_storage ib') = retained n (with_last_retained n (committed (ib_storage ib)))"
  using prune_cases by blast



text \<open>
  pruning is not atomic: when the first delete fails, the call reports the error, every
  row of data is still there, and the stored last retained round has moved.
\<close>

lemma prune_failure_moves_tip:
  assumes "faults (ib_storage ib) = [None, None, Some e]"
  shows "\<exists>ib'. Prune x n ib = (Err e, ib')
    \<and> committed (ib_storage ib') = with_last_retained n (committed (ib_storage ib))"
  using assms
  by (simp add: Prune_def on_storage_def RunInTransaction_def next_fault_def close_tx_def storeLastRetainedRound_def
      insertSingle_def exec_stmt_def statement_def Delete_def abort_tx_def with_last_retained_def visible_def apply_stmt_def)

lemma prune_failure_moves_tip_example:
  "\<exists>ib'. Prune example_ext 8 (example_ib\<lparr>ib_storage := example_db\<lparr>faults := [None, None, Some (ErrExt ''timeout'')]\<rparr>\<rparr>)
       = (Err (ErrExt ''timeout''), ib')
     \<and> indexed_rounds (committed (ib_storage ib')) = [\<lparr>ir_Tip = LastRetained, ir_Round = 8\<rparr>]"
proof -
  let ?ib = "example_ib\<lparr>ib_storage := example_db\<lparr>faults := [None, None, Some (ErrExt ''timeout'')]\<rparr>\<rparr>"
  have "faults (ib_storage ?ib) = [None, None, Some (ErrExt ''timeout'')]" by simp
  from prune_failure_moves_tip [OF this, of example_ext 8] show ?thesis
    by (auto simp: with_last_retained_def example_db_def empty_tables_def tbl_insert_do_update_def)
qed

end
