(* ===== verification/Cache_Backend.thy ===== *)
theory Cache_Backend
  imports Index_Backend
begin

text \<open>
  \<^verbatim>\<open>indexer/backend_cache.go\<close>: the cache of recently indexed blocks in front of the index
  backend. The cache is the observer of the backend it wraps, so the state is the cache
  together with the inner backend, and indexing a block runs the inner \<open>Index\<close> with
  \<open>OnBlockIndexed\<close> as its observer callback.
\<close>

subsection \<open>State\<close>

record txCacheEntry =
  tce_tx :: Transaction
  tce_blockNumber :: u64

record receiptCacheEntry =
  rce_receipt :: Receipt
  rce_blockNumber :: u64

record cacheMetrics =
  cm_hits :: u64
  cm_misses :: u64

definition OnHit :: "cacheMetrics \<Rightarrow> cacheMetrics" where
  "OnHit m = m\<lparr>cm_hits := cm_hits m + 1\<rparr>"

definition OnMiss :: "cacheMetrics \<Rightarrow> cacheMetrics" where
  "OnMiss m = m\<lparr>cm_misses := cm_misses m + 1\<rparr>"

record CachingBackend =
  cacheSize :: u64
  maxCacheSize :: u64
  blockDataByNumber :: "(u64, BlockData) gomap"
  blockByHashHex :: "(string, Block) gomap"
  logsByBlockNumber :: "(u64, Log list) gomap"
  txByHashHex :: "(string, txCacheEntry) gomap"
  receiptByTxHashHex :: "(string, receiptCacheEntry) gomap"
  lastIndexedRound :: u64
  lastRetainedRound :: u64
  lastRetainedRoundValid :: u64
  metricsBlockCache :: cacheMetrics
  metricsTxCache :: cacheMetrics
  metricsLogCache :: cacheMetrics
  metricsReceiptCache :: cacheMetrics
  trackMetrics :: bool

text \<open>The cache with the backend it wraps (the field \<open>inner\<close>).\<close>

type_synonym caching = "CachingBackend \<times> CachingBackend indexBackend"

record CacheConfig =
  cc_BlockSize :: u64
  cc_Metrics :: bool

definition zero_metrics :: cacheMetrics where
  "zero_metrics = \<lparr>cm_hits = 0, cm_misses = 0\<rparr>"

definition NewCache :: "CacheConfig option \<Rightarrow> CachingBackend" where
  "NewCache cfg =
     (let cfg1 = (case cfg of None \<Rightarrow> \<lparr>cc_BlockSize = 0, cc_Metrics = False\<rparr> | Some c \<Rightarrow> c);
          size = (if cc_BlockSize cfg1 = 0 then 128 else cc_BlockSize cfg1)
      in \<lparr>cacheSize = 0, maxCacheSize = size, blockDataByNumber = [], blockByHashHex = [], logsByBlockNumber = [],
          txByHashHex = [], receiptByTxHashHex = [], lastIndexedRound = 0, lastRetainedRound = 0,
          lastRetainedRoundValid = 0, metricsBlockCache = zero_metrics, metricsTxCache = zero_metrics,
          metricsLogCache = zero_metrics, metricsReceiptCache = zero_metrics, trackMetrics = cc_Metrics cfg1\<rparr>)"

definition NewCachingBackend :: "CachingBackend indexBackend \<Rightarrow> CacheConfig option \<Rightarrow> caching" where
  "NewCachingBackend backend cfg = (NewCache cfg, SetObserver (NewCache cfg) backend)"

definition cb_SetObserver :: "(caching, unit) call" where
  "cb_SetObserver s = (Panic ''indexer: caching backend does not support an observer'', s)"

subsection \<open>Filling and pruning the cache\<close>

definition cacheTxes :: "u64 \<Rightarrow> Transaction list \<Rightarrow> CachingBackend \<Rightarrow> CachingBackend" where
  "cacheTxes n txes c = c\<lparr>txByHashHex :=
     fold (\<lambda>tx. gm_store (tx_Hash tx) \<lparr>tce_tx = tx, tce_blockNumber = n\<rparr>) txes (txByHashHex c)\<rparr>"

definition cacheReceipts :: "u64 \<Rightarrow> Receipt list \<Rightarrow> CachingBackend \<Rightarrow> CachingBackend" where
  "cacheReceipts n rcs c = c\<lparr>receiptByTxHashHex :=
     fold (\<lambda>rc. gm_store (rc_TransactionHash rc) \<lparr>rce_receipt = rc, rce_blockNumber = n\<rparr>) rcs (receiptByTxHashHex c)\<rparr>"

definition cacheLogsByBlockNumber :: "u64 \<Rightarrow> Receipt list \<Rightarrow> CachingBackend \<Rightarrow> CachingBackend" where
  "cacheLogsByBlockNumber n rcs c =
     c\<lparr>logsByBlockNumber := gm_store n (concat (map rc_Logs rcs)) (logsByBlockNumber c)\<rparr>"

definition cachedBlockDataByNumber :: "u64 \<Rightarrow> CachingBackend \<Rightarrow> BlockData option" where
  "cachedBlockDataByNumber n c = gm_load (blockDataByNumber c) n"

definition pruneCache :: "u64 \<Rightarrow> (CachingBackend, unit) call" where
  "pruneCache blockNumber c = (case cachedBlockDataByNumber blockNumber c of
       None \<Rightarrow> (Ok (), c)
     | Some bd \<Rightarrow>
        if blk_Round (bd_Block bd) \<noteq> blockNumber
        then (Panic ''indexer: cached entry block height != queried height'', c)
        else (Ok (), c\<lparr>
          txByHashHex := fold (\<lambda>tx m. case gm_load m (tx_Hash tx) of
              Some e \<Rightarrow> if tce_blockNumber e = blockNumber then gm_delete (tx_Hash tx) m else m
            | None \<Rightarrow> m) (bd_UniqueTxes bd) (txByHashHex c),
          receiptByTxHashHex := fold (\<lambda>rc m. case gm_load m (rc_TransactionHash rc) of
              Some e \<Rightarrow> if rce_blockNumber e = blockNumber then gm_delete (rc_TransactionHash rc) m else m
            | None \<Rightarrow> m) (bd_Receipts bd) (receiptByTxHashHex c),
          blockByHashHex := gm_delete (blk_Hash (bd_Block bd)) (blockByHashHex c),
          logsByBlockNumber := gm_delete (blk_Round (bd_Block bd)) (logsByBlockNumber c),
          blockDataByNumber := gm_delete blockNumber (blockDataByNumber c),
          cacheSize := cacheSize c - 1\<rparr>))"

fun prune_rounds :: "u64 list \<Rightarrow> (CachingBackend, unit) call" where
  "prune_rounds [] c = (Ok (), c)"
| "prune_rounds (idx # rounds) c = (case pruneCache idx c of
       (Ok _, c') \<Rightarrow> if cacheSize c' \<le> maxCacheSize c' then (Ok (), c') else prune_rounds rounds c'
     | (r, c') \<Rightarrow> (r, c'))"

definition insert_block :: "BlockData \<Rightarrow> CachingBackend \<Rightarrow> CachingBackend" where
  "insert_block bd c =
     (let n = blk_Round (bd_Block bd);
          c1 = c\<lparr>blockDataByNumber := gm_store n bd (blockDataByNumber c)\<rparr>;
          c2 = c1\<lparr>blockByHashHex := gm_store (blk_Hash (bd_Block bd)) (bd_Block bd) (blockByHashHex c1)\<rparr>;
          c3 = cacheLogsByBlockNumber n (bd_Receipts bd) c2;
          c4 = cacheTxes n (bd_UniqueTxes bd) c3;
          c5 = cacheReceipts n (bd_Receipts bd) c4;
          c6 = c5\<lparr>cacheSize := cacheSize c5 + 1\<rparr>
      in if lastIndexedRound c6 < n then c6\<lparr>lastIndexedRound := n\<rparr> else c6)"

definition OnBlockIndexed :: "BlockData \<Rightarrow> (CachingBackend, unit) call" where
  "OnBlockIndexed bd c =
     (let c' = insert_block bd c in
      if maxCacheSize c' < cacheSize c'
      then prune_rounds (sort (gm_keys (blockDataByNumber c'))) c'
      else (Ok (), c'))"

definition OnLastRetainedRound :: "u64 \<Rightarrow> CachingBackend \<Rightarrow> CachingBackend" where
  "OnLastRetainedRound n c = c\<lparr>lastRetainedRound := n\<rparr>"

subsection \<open>Cache lookups\<close>

definition note_block :: "bool \<Rightarrow> CachingBackend \<Rightarrow> CachingBackend" where
  "note_block hit c = (if trackMetrics c
     then c\<lparr>metricsBlockCache := (if hit then OnHit else OnMiss) (metricsBlockCache c)\<rparr> else c)"

definition cachedBlockByNumber :: "u64 \<Rightarrow> CachingBackend \<Rightarrow> Block option \<times> CachingBackend" where
  "cachedBlockByNumber n c = (case cachedBlockDataByNumber n c of
       Some entry \<Rightarrow> (Some (bd_Block entry), note_block True c)
     | None \<Rightarrow> (None, note_block False c))"

definition cachedBlockByHash :: "ext \<Rightarrow> bytes \<Rightarrow> CachingBackend \<Rightarrow> Block option \<times> CachingBackend" where
  "cachedBlockByHash x blockHash c = (case gm_load (blockByHashHex c) (Hash_Hex x blockHash) of
       Some b \<Rightarrow> (Some b, note_block True c)
     | None \<Rightarrow> (None, note_block False c))"

definition cachedTxByHash :: "ext \<Rightarrow> bytes \<Rightarrow> CachingBackend \<Rightarrow> Transaction option \<times> CachingBackend" where
  "cachedTxByHash x h c = (case gm_load (txByHashHex c) (Hash_Hex x h) of
       Some e \<Rightarrow> (Some (tce_tx e), if trackMetrics c then c\<lparr>metricsTxCache := OnHit (metricsTxCache c)\<rparr> else c)
     | None \<Rightarrow> (None, if trackMetrics c then c\<lparr>metricsTxCache := OnMiss (metricsTxCache c)\<rparr> else c))"

definition cachedReceiptByTxHash :: "ext \<Rightarrow> bytes \<Rightarrow> CachingBackend \<Rightarrow> Receipt option \<times> CachingBackend" where
  "cachedReceiptByTxHash x h c = (case gm_load (receiptByTxHashHex c) (Hash_Hex x h) of
       Some e \<Rightarrow> (Some (rce_receipt e),
         if trackMetrics c then c\<lparr>metricsReceiptCache := OnHit (metricsReceiptCache c)\<rparr> else c)
     | None \<Rightarrow> (None,
         if trackMetrics c then c\<lparr>metricsReceiptCache := OnMiss (metricsReceiptCache c)\<rparr> else c))"

definition cachedLogsByNumber :: "u64 \<Rightarrow> CachingBackend \<Rightarrow> Log list option" where
  "cachedLogsByNumber n c = gm_load (logsByBlockNumber c) n"

subsection \<open>Operations of the caching backend\<close>

text \<open>A call on the inner backend, and a lookup in the cache with the inner call as fallback.\<close>

definition on_inner :: "(CachingBackend indexBackend, 'a) call \<Rightarrow> (caching, 'a) call" where
  "on_inner f s = (case s of (c, ib) \<Rightarrow> (case f ib of (r, ib') \<Rightarrow> (r, (c, ib'))))"

definition or_inner :: "(CachingBackend \<Rightarrow> 'b option \<times> CachingBackend) \<Rightarrow> ('b \<Rightarrow> 'a outcome) \<Rightarrow>
    (CachingBackend indexBackend, 'a) call \<Rightarrow> (caching, 'a) call" where
  "or_inner look hit f s = (case s of (c, ib) \<Rightarrow>
     (case look c of
        (Some y, c') \<Rightarrow> (hit y, (c', ib))
      | (None, c') \<Rightarrow> on_inner f (c', ib)))"

definition cb_Index :: "ext \<Rightarrow> OasisBlock \<Rightarrow> TxWithResults list \<Rightarrow> CoreParameters option \<Rightarrow> RuntimeInfo option \<Rightarrow>
    (caching, unit) call" where
  "cb_Index x oblk items params rtInfo s = (case s of (c, ib) \<Rightarrow>
     (case Index x OnBlockIndexed oblk items params rtInfo (SetObserver c ib) of
        (r, ib') \<Rightarrow> (r, (case ib_observer ib' of Some c' \<Rightarrow> c' | None \<Rightarrow> c, ib'))))"

definition cb_Prune :: "ext \<Rightarrow> u64 \<Rightarrow> (caching, unit) call" where
  "cb_Prune x n = on_inner (Prune x n)"

definition cb_BlockNumber :: "(caching, u64) call" where
  "cb_BlockNumber s = (case s of (c, ib) \<Rightarrow>
     (if lastIndexedRound c = 0 then Err ErrNoRoundsIndexed else Ok (lastIndexedRound c), s))"

definition cb_blockNumberFromRound :: "ext \<Rightarrow> u64 \<Rightarrow> (caching, u64) call" where
  "cb_blockNumberFromRound x n = (if n = RoundLatest x then cb_BlockNumber else ret n)"

definition cb_QueryBlockRound :: "ext \<Rightarrow> bytes \<Rightarrow> (caching, u64) call" where
  "cb_QueryBlockRound x h = or_inner (cachedBlockByHash x h) (\<lambda>b. Ok (blk_Round b)) (ib_QueryBlockRound x h)"

definition cb_QueryBlockHash :: "ext \<Rightarrow> u64 \<Rightarrow> (caching, bytes) call" where
  "cb_QueryBlockHash x n = and_then (cb_blockNumberFromRound x n) (\<lambda>num.
     or_inner (cachedBlockByNumber num) (\<lambda>b. Ok (HexToHash x (blk_Hash b))) (ib_QueryBlockHash x n))"

definition cb_QueryLastIndexedRound :: "(caching, u64) call" where
  "cb_QueryLastIndexedRound s = (case s of (c, ib) \<Rightarrow>
     if lastIndexedRound c \<noteq> 0 then (Ok (lastIndexedRound c), s) else on_inner ib_QueryLastIndexedRound s)"

definition cb_QueryTransaction :: "ext \<Rightarrow> bytes \<Rightarrow> (caching, Transaction) call" where
  "cb_QueryTransaction x h = or_inner (cachedTxByHash x h) Ok (ib_QueryTransaction x h)"

definition cb_GetBlockByRound :: "ext \<Rightarrow> u64 \<Rightarrow> (caching, Block) call" where
  "cb_GetBlockByRound x n = and_then (cb_blockNumberFromRound x n) (\<lambda>num.
     or_inner (cachedBlockByNumber num) Ok (ib_GetBlockByRound x num))"

definition cb_GetBlockByHash :: "ext \<Rightarrow> bytes \<Rightarrow> (caching, Block) call" where
  "cb_GetBlockByHash x h = or_inner (cachedBlockByHash x h) Ok (ib_GetBlockByHash x h)"

definition cb_GetBlockTransactionCountByRound :: "ext \<Rightarrow> u64 \<Rightarrow> (caching, nat) call" where
  "cb_GetBlockTransactionCountByRound x n = and_then (cb_blockNumberFromRound x n) (\<lambda>num.
     or_inner (cachedBlockByNumber num) (\<lambda>b. Ok (length (blk_Transactions b))) (ib_GetBlockTransactionCountByRound x num))"

definition cb_GetBlockTransactionCountByHash :: "ext \<Rightarrow> bytes \<Rightarrow> (caching, nat) call" where
  "cb_GetBlockTransactionCountByHash x h =
     or_inner (cachedBlockByHash x h) (\<lambda>b. Ok (length (blk_Transactions b))) (ib_GetBlockTransactionCountByHash x h)"

definition cb_GetTransactionByBlockHashAndIndex :: "ext \<Rightarrow> bytes \<Rightarrow> int \<Rightarrow> (caching, Transaction) call" where
  "cb_GetTransactionByBlockHashAndIndex x h txIndex =
     or_inner (cachedBlockByHash x h)
       (\<lambda>b. let txs = blk_Transactions b in
          if length txs = 0 then Err (Errorf ''the block doesn't have any transactions'')
          else if int (length txs) - 1 < txIndex then Err (Errorf ''index out of range'')
          else case index_at txs txIndex of Some tx \<Rightarrow> Ok tx | None \<Rightarrow> Panic ''index out of range'')
       (ib_GetTransactionByBlockHashAndIndex x h txIndex)"

definition cb_GetTransactionReceipt :: "ext \<Rightarrow> bytes \<Rightarrow> (caching, EthReceipt) call" where
  "cb_GetTransactionReceipt x h =
     or_inner (cachedReceiptByTxHash x h) (\<lambda>rc. Ok (db2EthReceipt x rc)) (ib_GetTransactionReceipt x h)"

definition cb_RuntimeInfo :: "caching \<Rightarrow> RuntimeInfo option" where
  "cb_RuntimeInfo s = RuntimeInfoOf (snd s)"

text \<open>
  \<open>GetLogs\<close>: the loop \<open>for i := startRound; i <= endRound; i++\<close> never ends by its condition when
  \<open>endRound\<close> is the largest \<open>uint64\<close>, so it is a partial function; \<open>None\<close> is not returning.
\<close>

partial_function (option) cached_logs_loop :: "CachingBackend \<Rightarrow> u64 \<Rightarrow> u64 \<Rightarrow> Log list \<Rightarrow> bool \<Rightarrow> (Log list \<times> bool) option" where
  "cached_logs_loop c i e acc ok =
     (if i \<le> e
      then (case cachedLogsByNumber i c of
              None \<Rightarrow> Some (acc, False)
            | Some ls \<Rightarrow> cached_logs_loop c (i + 1) e (acc @ ls) True)
      else Some (acc, ok))"

definition note_logs :: "bool \<Rightarrow> CachingBackend \<Rightarrow> CachingBackend" where
  "note_logs hit c = (if trackMetrics c
     then c\<lparr>metricsLogCache := (if hit then OnHit else OnMiss) (metricsLogCache c)\<rparr> else c)"

definition cb_GetLogs :: "u64 \<Rightarrow> u64 \<Rightarrow> caching \<Rightarrow> (Log list outcome \<times> caching) option" where
  "cb_GetLogs startRound endRound s = (case s of (c, ib) \<Rightarrow>
     (let miss = on_inner (ib_GetLogs startRound endRound) (note_logs False c, ib) in
      if endRound - startRound + 1 < maxCacheSize c
      then (case cached_logs_loop c startRound endRound [] False of
              None \<Rightarrow> None
            | Some (ls, ok) \<Rightarrow> Some (if ok then (Ok ls, (note_logs True c, ib)) else miss))
      else Some miss))"

text \<open>
  \<open>QueryLastRetainedRound\<close>: a compare-and-swap loop. Between the load and the swap of an
  iteration another goroutine may store into \<open>lastRetainedRound\<close>: \<open>env\<close> lists what it stores, one
  entry per iteration, \<open>None\<close> for nothing. The iterations are bounded by \<open>fuel\<close>; \<open>None\<close> is not
  having returned within it.
\<close>

fun cas_loop :: "nat \<Rightarrow> u64 option list \<Rightarrow> u64 \<Rightarrow> caching \<Rightarrow> (u64 outcome \<times> caching) option" where
  "cas_loop 0 env lastRetained s = None"
| "cas_loop (Suc fuel) env lastRetained (c, ib) =
     (case ib_QueryLastRetainedRound ib of
        (Err e, ib') \<Rightarrow> Some (Err e, (c, ib'))
      | (Panic p, ib') \<Rightarrow> Some (Panic p, (c, ib'))
      | (Ok n, ib') \<Rightarrow>
         (let c' = (case env of Some v # _ \<Rightarrow> c\<lparr>lastRetainedRound := v\<rparr> | _ \<Rightarrow> c) in
          if lastRetainedRound c' = lastRetained
          then Some (Ok n, (c'\<lparr>lastRetainedRound := n, lastRetainedRoundValid := 1\<rparr>, ib'))
          else cas_loop fuel (case env of [] \<Rightarrow> [] | _ # env' \<Rightarrow> env') n (c', ib')))"

definition cb_QueryLastRetainedRound :: "nat \<Rightarrow> u64 option list \<Rightarrow> caching \<Rightarrow> (u64 outcome \<times> caching) option" where
  "cb_QueryLastRetainedRound fuel env s = (case s of (c, ib) \<Rightarrow>
     if lastRetainedRoundValid c = 0 then cas_loop fuel env (lastRetainedRound c) s
     else Some (Ok (lastRetainedRound c), s))"

text \<open>\<open>Start\<close>, up to the wait for the end of the context: an error leaves a zero round.\<close>

definition cb_Start :: "caching \<Rightarrow> caching" where
  "cb_Start s = (case s of (c, ib) \<Rightarrow>
     (case ib_QueryLastIndexedRound ib of (r1, ib1) \<Rightarrow>
     (case ib_QueryLastRetainedRound ib1 of (r2, ib2) \<Rightarrow>
       (let c1 = c\<lparr>lastIndexedRound := (case r1 of Ok n \<Rightarrow> n | _ \<Rightarrow> 0)\<rparr> in
        (case r2 of
           Ok n \<Rightarrow> c1\<lparr>lastRetainedRound := n, lastRetainedRoundValid := 1\<rparr>
         | _ \<Rightarrow> c1\<lparr>lastRetainedRound := 0\<rparr>, ib2)))))"

subsection \<open>The invariant of the cache\<close>

text \<open>
  Block data is filed under its round; every other entry comes from block data that is still
  cached; the log cache covers exactly the cached rounds. These are the parts of
  \<open>cache_ok\<close>, which adds the size counter.
\<close>

abbreviation bdata :: "CachingBackend \<Rightarrow> u64 \<Rightarrow> BlockData option" where
  "bdata c \<equiv> gm_load (blockDataByNumber c)"

definition cached_rounds :: "CachingBackend \<Rightarrow> u64 set" where
  "cached_rounds c = set (gm_keys (blockDataByNumber c))"

definition entries_ok :: "CachingBackend \<Rightarrow> bool" where
  "entries_ok c \<longleftrightarrow>
     (\<forall>n bd. bdata c n = Some bd \<longrightarrow> blk_Round (bd_Block bd) = n)
   \<and> (\<forall>h b. gm_load (blockByHashHex c) h = Some b \<longrightarrow>
        (\<exists>bd. bdata c (blk_Round b) = Some bd \<and> bd_Block bd = b \<and> blk_Hash b = h))
   \<and> (\<forall>h e. gm_load (txByHashHex c) h = Some e \<longrightarrow>
        (\<exists>bd. bdata c (tce_blockNumber e) = Some bd \<and> tce_tx e \<in> set (bd_UniqueTxes bd) \<and> tx_Hash (tce_tx e) = h))
   \<and> (\<forall>h e. gm_load (receiptByTxHashHex c) h = Some e \<longrightarrow>
        (\<exists>bd. bdata c (rce_blockNumber e) = Some bd \<and> rce_receipt e \<in> set (bd_Receipts bd)
           \<and> rc_TransactionHash (rce_receipt e) = h))
   \<and> (\<forall>n. gm_load (logsByBlockNumber c) n =
        map_option (\<lambda>bd. concat (map rc_Logs (bd_Receipts bd))) (bdata c n))"

definition size_ok :: "CachingBackend \<Rightarrow> bool" where
  "size_ok c \<longleftrightarrow> unat (cacheSize c) = length (gm_keys (blockDataByNumber c))"

definition cache_ok :: "CachingBackend \<Rightarrow> bool" where
  "cache_ok c \<longleftrightarrow> entries_ok c \<and> size_ok c \<and> cacheSize c \<le> maxCacheSize c"

lemma entries_okD:
  assumes "entries_ok c"
  shows "bdata c n = Some bd \<Longrightarrow> blk_Round (bd_Block bd) = n"
    and "gm_load (blockByHashHex c) h = Some b \<Longrightarrow>
        \<exists>bd. bdata c (blk_Round b) = Some bd \<and> bd_Block bd = b \<and> blk_Hash b = h"
    and "gm_load (txByHashHex c) h = Some e \<Longrightarrow>
        \<exists>bd. bdata c (tce_blockNumber e) = Some bd \<and> tce_tx e \<in> set (bd_UniqueTxes bd) \<and> tx_Hash (tce_tx e) = h"
    and "gm_load (receiptByTxHashHex c) h = Some f \<Longrightarrow>
        \<exists>bd. bdata c (rce_blockNumber f) = Some bd \<and> rce_receipt f \<in> set (bd_Receipts bd)
           \<and> rc_TransactionHash (rce_receipt f) = h"
    and "gm_load (logsByBlockNumber c) n =
        map_option (\<lambda>bd. concat (map rc_Logs (bd_Receipts bd))) (bdata c n)"
  using assms unfolding entries_ok_def by blast+

lemma mem_cached_rounds: "n \<in> cached_rounds c \<longleftrightarrow> bdata c n \<noteq> None"
  by (simp add: cached_rounds_def gm.keys_load)

lemma finite_cached_rounds [simp]: "finite (cached_rounds c)"
  by (simp add: cached_rounds_def)

lemma size_ok_card: "size_ok c \<longleftrightarrow> unat (cacheSize c) = card (cached_rounds c)"
  by (simp add: size_ok_def cached_rounds_def distinct_card gm.keys_distinct)

text \<open>The state after inserting a block.\<close>

lemma insert_block_fields [simp]:
  "blockDataByNumber (insert_block bd c) = gm_store (blk_Round (bd_Block bd)) bd (blockDataByNumber c)"
  "blockByHashHex (insert_block bd c) = gm_store (blk_Hash (bd_Block bd)) (bd_Block bd) (blockByHashHex c)"
  "logsByBlockNumber (insert_block bd c) =
     gm_store (blk_Round (bd_Block bd)) (concat (map rc_Logs (bd_Receipts bd))) (logsByBlockNumber c)"
  "txByHashHex (insert_block bd c) =
     fold (\<lambda>tx. gm_store (tx_Hash tx) \<lparr>tce_tx = tx, tce_blockNumber = blk_Round (bd_Block bd)\<rparr>) (bd_UniqueTxes bd) (txByHashHex c)"
  "receiptByTxHashHex (insert_block bd c) =
     fold (\<lambda>rc. gm_store (rc_TransactionHash rc) \<lparr>rce_receipt = rc, rce_blockNumber = blk_Round (bd_Block bd)\<rparr>)
       (bd_Receipts bd) (receiptByTxHashHex c)"
  "cacheSize (insert_block bd c) = cacheSize c + 1" "maxCacheSize (insert_block bd c) = maxCacheSize c"
  "lastIndexedRound (insert_block bd c) = max (lastIndexedRound c) (blk_Round (bd_Block bd))"
  by (simp_all add: insert_block_def Let_def cacheTxes_def cacheReceipts_def cacheLogsByBlockNumber_def max_def order.strict_iff_not)

lemma cached_rounds_insert: "cached_rounds (insert_block bd c) = insert (blk_Round (bd_Block bd)) (cached_rounds c)"
  by (simp add: cached_rounds_def gm.set_keys_store)

lemma entries_ok_insert:
  assumes "entries_ok c" and new: "blk_Round (bd_Block bd) \<notin> cached_rounds c"
  shows "entries_ok (insert_block bd c)"
proof -
  let ?n = "blk_Round (bd_Block bd)"
  note d = entries_okD [OF assms(1)]
  have keep: "bdata (insert_block bd c) k = Some bd'" if "bdata c k = Some bd'" for k bd'
    using that new by (auto simp: mem_cached_rounds)
  show ?thesis
    unfolding entries_ok_def
  proof (intro conjI allI impI)
    fix h e assume l: "gm_load (txByHashHex (insert_block bd c)) h = Some e"
    show "\<exists>bd'. bdata (insert_block bd c) (tce_blockNumber e) = Some bd' \<and> tce_tx e \<in> set (bd_UniqueTxes bd')
        \<and> tx_Hash (tce_tx e) = h"
    proof (cases "find (\<lambda>tx. tx_Hash tx = h) (rev (bd_UniqueTxes bd))")
      case None
      with l have "gm_load (txByHashHex c) h = Some e" by (simp add: gm.load_fold_store)
      with d(3) keep show ?thesis by blast
    next
      case (Some tx)
      with l find_rev_mem [OF Some] show ?thesis by (auto simp: gm.load_fold_store)
    qed
  next
    fix h e assume l: "gm_load (receiptByTxHashHex (insert_block bd c)) h = Some e"
    show "\<exists>bd'. bdata (insert_block bd c) (rce_blockNumber e) = Some bd' \<and> rce_receipt e \<in> set (bd_Receipts bd')
        \<and> rc_TransactionHash (rce_receipt e) = h"
    proof (cases "find (\<lambda>rc. rc_TransactionHash rc = h) (rev (bd_Receipts bd))")
      case None
      with l have "gm_load (receiptByTxHashHex c) h = Some e" by (simp add: gm.load_fold_store)
      with d(4) keep show ?thesis by blast
    next
      case (Some rc)
      with l find_rev_mem [OF Some] show ?thesis by (auto simp: gm.load_fold_store)
    qed
  next
    fix h b assume l: "gm_load (blockByHashHex (insert_block bd c)) h = Some b"
    show "\<exists>bd'. bdata (insert_block bd c) (blk_Round b) = Some bd' \<and> bd_Block bd' = b \<and> blk_Hash b = h"
    proof (cases "h = blk_Hash (bd_Block bd)")
      case False
      with l have "gm_load (blockByHashHex c) h = Some b" by simp
      with d(2) keep show ?thesis by blast
    qed (use l in auto)
  qed (use d(1,5) in \<open>auto split: if_splits\<close>)
qed

lemma size_ok_insert:
  assumes "size_ok c" and "blk_Round (bd_Block bd) \<notin> cached_rounds c" and "cacheSize c \<noteq> max_u64"
  shows "size_ok (insert_block bd c)"
  using assms by (simp add: size_ok_card cached_rounds_insert)

text \<open>Pruning only removes entries.\<close>

definition cache_sub :: "CachingBackend \<Rightarrow> CachingBackend \<Rightarrow> bool" where
  "cache_sub c' c \<longleftrightarrow> (\<forall>h e. gm_load (txByHashHex c') h = Some e \<longrightarrow> gm_load (txByHashHex c) h = Some e)
     \<and> (\<forall>h e. gm_load (receiptByTxHashHex c') h = Some e \<longrightarrow> gm_load (receiptByTxHashHex c) h = Some e)
     \<and> (\<forall>n bd. bdata c' n = Some bd \<longrightarrow> bdata c n = Some bd)"

lemma pruneCache_cached:
  assumes ok: "entries_ok c" and bd: "bdata c n = Some bd"
  obtains c' where "pruneCache n c = (Ok (), c')" and "entries_ok c'"
    and "cached_rounds c' = cached_rounds c - {n}" and "cacheSize c' = cacheSize c - 1"
    and "maxCacheSize c' = maxCacheSize c" and "lastIndexedRound c' = lastIndexedRound c"
    and "cache_sub c' c"
proof -
  note d = entries_okD [OF ok]
  have r: "blk_Round (bd_Block bd) = n" using d(1) bd by blast
  obtain c' where p: "pruneCache n c = (Ok (), c')" and c': "c' = c\<lparr>
          txByHashHex := fold (\<lambda>tx m. case gm_load m (tx_Hash tx) of
              Some e \<Rightarrow> if tce_blockNumber e = n then gm_delete (tx_Hash tx) m else m
            | None \<Rightarrow> m) (bd_UniqueTxes bd) (txByHashHex c),
          receiptByTxHashHex := fold (\<lambda>rc m. case gm_load m (rc_TransactionHash rc) of
              Some e \<Rightarrow> if rce_blockNumber e = n then gm_delete (rc_TransactionHash rc) m else m
            | None \<Rightarrow> m) (bd_Receipts bd) (receiptByTxHashHex c),
          blockByHashHex := gm_delete (blk_Hash (bd_Block bd)) (blockByHashHex c),
          logsByBlockNumber := gm_delete n (logsByBlockNumber c),
          blockDataByNumber := gm_delete n (blockDataByNumber c),
          cacheSize := cacheSize c - 1\<rparr>"
    using bd r by (simp add: pruneCache_def cachedBlockDataByNumber_def)
  have tx: "gm_load (txByHashHex c') h = Some e \<Longrightarrow> gm_load (txByHashHex c) h = Some e \<and> tce_blockNumber e \<noteq> n" for h e
  proof -
    assume "gm_load (txByHashHex c') h = Some e"
    then have l: "gm_load (txByHashHex c) h = Some e" and "\<not> (h \<in> tx_Hash ` set (bd_UniqueTxes bd) \<and> tce_blockNumber e = n)"
      by (auto simp: c' gm.load_fold_evict split: option.splits if_splits)
    with d(3) [OF l] bd show ?thesis by auto
  qed
  have rc: "gm_load (receiptByTxHashHex c') h = Some e \<Longrightarrow>
      gm_load (receiptByTxHashHex c) h = Some e \<and> rce_blockNumber e \<noteq> n" for h e
  proof -
    assume "gm_load (receiptByTxHashHex c') h = Some e"
    then have l: "gm_load (receiptByTxHashHex c) h = Some e"
      and "\<not> (h \<in> rc_TransactionHash ` set (bd_Receipts bd) \<and> rce_blockNumber e = n)"
      by (auto simp: c' gm.load_fold_evict split: option.splits if_splits)
    with d(4) [OF l] bd show ?thesis by auto
  qed
  have hb: "gm_load (blockByHashHex c') h = Some b \<Longrightarrow> gm_load (blockByHashHex c) h = Some b \<and> blk_Round b \<noteq> n" for h b
  proof -
    assume "gm_load (blockByHashHex c') h = Some b"
    then have l: "gm_load (blockByHashHex c) h = Some b" and "h \<noteq> blk_Hash (bd_Block bd)"
      by (simp_all add: c' split: if_splits)
    with d(2) [OF l] bd show ?thesis by auto
  qed
  have bdc: "bdata c' k = (if k = n then None else bdata c k)" for k by (simp add: c')
  have "entries_ok c'"
    unfolding entries_ok_def
  proof (intro conjI allI impI)
    show "gm_load (logsByBlockNumber c') k = map_option (\<lambda>bd. concat (map rc_Logs (bd_Receipts bd))) (bdata c' k)" for k
      using d(5) by (simp add: c')
  next
    fix h b assume "gm_load (blockByHashHex c') h = Some b"
    with hb d(2) show "\<exists>bd'. bdata c' (blk_Round b) = Some bd' \<and> bd_Block bd' = b \<and> blk_Hash b = h"
      unfolding bdc by metis
  next
    fix h e assume "gm_load (txByHashHex c') h = Some e"
    with tx d(3) show "\<exists>bd'. bdata c' (tce_blockNumber e) = Some bd' \<and> tce_tx e \<in> set (bd_UniqueTxes bd') \<and> tx_Hash (tce_tx e) = h"
      unfolding bdc by metis
  next
    fix h e assume "gm_load (receiptByTxHashHex c') h = Some e"
    with rc d(4) show "\<exists>bd'. bdata c' (rce_blockNumber e) = Some bd' \<and> rce_receipt e \<in> set (bd_Receipts bd')
        \<and> rc_TransactionHash (rce_receipt e) = h"
      unfolding bdc by metis
  next
    fix k bd' assume "bdata c' k = Some bd'"
    with d(1) show "blk_Round (bd_Block bd') = k" unfolding bdc by (auto split: if_splits)
  qed
  moreover have "cached_rounds c' = cached_rounds c - {n}"
    by (auto simp: mem_cached_rounds bdc split: if_splits)
  ultimately show thesis
    using that [OF p] tx rc bdc by (simp add: c' cache_sub_def)
qed

text \<open>
  Pruning in ascending order while the cache is one block too large removes the lowest round
  and stops.
\<close>

lemma prune_lowest:
  assumes ok: "entries_ok c" "size_ok c" and big: "unat (cacheSize c) = Suc (unat (maxCacheSize c))"
  obtains c' where "prune_rounds (sort (gm_keys (blockDataByNumber c))) c = (Ok (), c')" and "cache_ok c'"
    and "cached_rounds c' = cached_rounds c - {Min (cached_rounds c)}" and "maxCacheSize c' = maxCacheSize c"
    and "lastIndexedRound c' = lastIndexedRound c"
    and "cache_sub c' c"
proof -
  let ?ks = "sort (gm_keys (blockDataByNumber c))"
  have set: "set ?ks = cached_rounds c" by (simp add: cached_rounds_def)
  have "gm_keys (blockDataByNumber c) \<noteq> []" using ok(2) big by (auto simp: size_ok_def)
  then have ne: "?ks \<noteq> []" by (metis length_0_conv length_sort)
  then obtain n ns where ks: "?ks = n # ns" by (cases ?ks) auto
  have "sorted ?ks" by simp
  then have "\<forall>k \<in> cached_rounds c. n \<le> k" using ks set by (metis list.set_intros(1) set_ConsD sorted_simps(2) order.refl)
  moreover have n: "n \<in> cached_rounds c" using ks set by (metis list.set_intros(1))
  ultimately have min: "n = Min (cached_rounds c)" by (metis Min_eqI finite_cached_rounds)
  obtain bd where bd: "bdata c n = Some bd" using n by (auto simp: mem_cached_rounds)
  obtain c' where p: "pruneCache n c = (Ok (), c')" and e: "entries_ok c'"
    and r: "cached_rounds c' = cached_rounds c - {n}" and sz: "cacheSize c' = cacheSize c - 1"
    and m: "maxCacheSize c' = maxCacheSize c" and li: "lastIndexedRound c' = lastIndexedRound c"
    and tx: "cache_sub c' c"
    by (rule pruneCache_cached [OF ok(1) bd])
  have "cacheSize c \<noteq> 0" using big by auto
  then have u: "unat (cacheSize c') = unat (maxCacheSize c)" using big sz by (simp add: unat_minus_one)
  then have le: "cacheSize c' \<le> maxCacheSize c'" using m by (simp add: word_le_nat_alt)
  have "size_ok c'" using ok(2) u big r n by (simp add: size_ok_card)
  with e le have "cache_ok c'" by (simp add: cache_ok_def)
  moreover have "prune_rounds ?ks c = (Ok (), c')" using ks p le by simp
  ultimately show thesis using that r min m li tx by simp
qed

subsection \<open>Properties of the cache\<close>

lemma on_block_indexed_cases:
  assumes ok: "cache_ok c" and new: "blk_Round (bd_Block bd) \<notin> cached_rounds c" and max: "maxCacheSize c \<noteq> max_u64"
  obtains c' where "OnBlockIndexed bd c = (Ok (), c')" and "cache_ok c'" and "maxCacheSize c' = maxCacheSize c"
    and "cached_rounds c' = (let rs = insert (blk_Round (bd_Block bd)) (cached_rounds c) in
         if card rs \<le> unat (maxCacheSize c) then rs else rs - {Min rs})"
    and "lastIndexedRound c' = max (lastIndexedRound c) (blk_Round (bd_Block bd))"
    and "cache_sub c' (insert_block bd c)"
proof -
  let ?c = "insert_block bd c"
  have le: "unat (cacheSize c) \<le> unat (maxCacheSize c)" using ok by (simp add: cache_ok_def word_le_nat_alt)
  have nm: "cacheSize c \<noteq> max_u64" using ok max u64_le_less_max by (auto simp: cache_ok_def)
  have e: "entries_ok ?c" using ok new by (simp add: cache_ok_def entries_ok_insert)
  have s: "size_ok ?c" using ok new nm by (simp add: cache_ok_def size_ok_insert)
  have u: "unat (cacheSize ?c) = Suc (unat (cacheSize c))" using nm by simp
  have card: "card (insert (blk_Round (bd_Block bd)) (cached_rounds c)) = unat (cacheSize ?c)"
    using s by (simp add: size_ok_card cached_rounds_insert)
  show thesis
  proof (cases "unat (cacheSize ?c) \<le> unat (maxCacheSize c)")
    case True
    then have "\<not> maxCacheSize ?c < cacheSize ?c" by (simp add: word_less_nat_alt del: insert_block_fields(6))
    then have "OnBlockIndexed bd c = (Ok (), ?c)" by (simp add: OnBlockIndexed_def Let_def)
    moreover have "cache_ok ?c" using e s True by (simp add: cache_ok_def word_le_nat_alt del: insert_block_fields(6))
    moreover have "cache_sub ?c ?c" by (simp add: cache_sub_def)
    ultimately show thesis using that card True
      by (simp add: Let_def cached_rounds_insert del: insert_block_fields(6))
  next
    case False
    with u le have big: "unat (cacheSize ?c) = Suc (unat (maxCacheSize ?c))" by simp
    then have "maxCacheSize ?c < cacheSize ?c" by (simp add: word_less_nat_alt del: insert_block_fields(6))
    then have "OnBlockIndexed bd c = prune_rounds (sort (gm_keys (blockDataByNumber ?c))) ?c"
      by (simp add: OnBlockIndexed_def Let_def del: insert_block_fields(1,6))
    moreover obtain c' where "prune_rounds (sort (gm_keys (blockDataByNumber ?c))) ?c = (Ok (), c')" and "cache_ok c'"
      and "cached_rounds c' = cached_rounds ?c - {Min (cached_rounds ?c)}" and "maxCacheSize c' = maxCacheSize ?c"
      and "lastIndexedRound c' = lastIndexedRound ?c"
      and "cache_sub c' ?c"
      by (rule prune_lowest [OF e s big])
    ultimately show thesis using that [of c'] card False
      by (simp add: Let_def cached_rounds_insert)
  qed
qed

text \<open>
  C8: caching a newly indexed block never panics and keeps the cache consistent: block data
  under its own round, every transaction, receipt, hash and log entry owned by a cached block,
  the counter equal to the number of cached blocks and within the configured size. A full cache
  evicts exactly the lowest cached round, the last indexed round is the maximum seen.
\<close>

theorem on_block_indexed_ok:
  assumes "cache_ok c" and "blk_Round (bd_Block bd) \<notin> cached_rounds c" and "maxCacheSize c \<noteq> max_u64"
  shows "\<exists>c'. OnBlockIndexed bd c = (Ok (), c') \<and> cache_ok c' \<and> maxCacheSize c' = maxCacheSize c
    \<and> cached_rounds c' = (let rs = insert (blk_Round (bd_Block bd)) (cached_rounds c) in
         if card rs \<le> unat (maxCacheSize c) then rs else rs - {Min rs})
    \<and> lastIndexedRound c' = max (lastIndexedRound c) (blk_Round (bd_Block bd))"
  by (rule on_block_indexed_cases [OF assms]) blast

definition example_bd :: "u64 \<Rightarrow> BlockData" where
  "example_bd n = \<lparr>bd_Block = zero_Block\<lparr>blk_Round := n\<rparr>, bd_Receipts = [], bd_UniqueTxes = [example_tx], bd_Median = None\<rparr>"

lemma new_cache_ok: "cache_ok (NewCache cfg)"
  by (simp add: cache_ok_def entries_ok_def size_ok_def NewCache_def Let_def)

lemma new_cache_rounds [simp]: "cached_rounds (NewCache cfg) = {}"
  by (simp add: cached_rounds_def NewCache_def Let_def)

theorem on_block_indexed_ok_witness:
  "\<exists>c'. OnBlockIndexed (example_bd 7) (NewCache None) = (Ok (), c') \<and> cache_ok c' \<and> cached_rounds c' = {7}"
proof -
  have m: "maxCacheSize (NewCache None) = 128" by (simp add: NewCache_def)
  have r: "blk_Round (bd_Block (example_bd 7)) = 7" by (simp add: example_bd_def)
  have "blk_Round (bd_Block (example_bd 7)) \<notin> cached_rounds (NewCache None)" "maxCacheSize (NewCache None) \<noteq> max_u64"
    by (simp_all add: m)
  from on_block_indexed_ok [OF new_cache_ok this] show ?thesis by (auto simp: m r Let_def)
qed

subsection \<open>Logs from the cache\<close>

text \<open>The rounds the loop visits, as the arithmetic of \<open>uint64\<close> has them.\<close>

lemma logs_loop_returns:
  assumes "cachedLogsByNumber k c = None"
  shows "\<exists>r. cached_logs_loop c i e acc ok = Some r"
proof (induction "unat (k - i)" arbitrary: i acc ok)
  case 0
  then have "i = k" by (metis eq_iff_diff_eq_0 unat_eq_zero)
  with assms show ?case by (subst cached_logs_loop.simps) auto
next
  case (Suc m)
  then have "k - i \<noteq> 0" by auto
  then have "unat (k - i - 1) = m" using Suc.hyps(2) by (simp add: unat_minus_one)
  then have "m = unat (k - (i + 1))" by (simp add: algebra_simps)
  from Suc.hyps(1) [OF this] show ?case
    by (subst cached_logs_loop.simps) (auto split: option.split)
qed

lemma some_round_uncached:
  assumes "cache_ok c"
  shows "\<exists>k. cachedLogsByNumber k c = None"
proof (rule ccontr)
  assume n: "\<nexists>k. cachedLogsByNumber k c = None"
  have e: "entries_ok c" using assms by (simp add: cache_ok_def)
  have "bdata c k \<noteq> None" for k
  proof
    assume "bdata c k = None"
    then have "cachedLogsByNumber k c = None" using entries_okD(5) [OF e, of k] by (simp add: cachedLogsByNumber_def)
    with n show False by blast
  qed
  then have "cached_rounds c = UNIV" by (auto simp: mem_cached_rounds)
  then have "unat (cacheSize c) = 2 ^ 64" using assms by (simp add: cache_ok_def size_ok_card card_word)
  with unsigned_less [of "cacheSize c", where ?'a = nat] show False by simp
qed

definition round_list :: "u64 \<Rightarrow> u64 \<Rightarrow> u64 list" where
  "round_list i e = map word_of_nat [unat i..<Suc (unat e)]"

lemma round_list_empty: "\<not> i \<le> e \<Longrightarrow> round_list i e = []"
  by (simp add: round_list_def word_le_nat_alt)

lemma round_list_Cons: "i \<le> e \<Longrightarrow> e \<noteq> max_u64 \<Longrightarrow> round_list i e = i # round_list (i + 1) e"
  by (simp add: round_list_def word_le_nat_alt upt_conv_Cons u64_le_less_max [unfolded word_le_nat_alt] del: upt_Suc)

lemma set_round_list: "set (round_list i e) = {i..e}"
proof -
  have "n \<in> word_of_nat ` {unat i..unat e}" if "i \<le> n" "n \<le> e" for n :: u64
    using that by (intro image_eqI [of _ _ "unat n"]) (auto simp: word_le_nat_alt)
  moreover have "i \<le> word_of_nat k \<and> word_of_nat k \<le> e" if "unat i \<le> k" "k \<le> unat e" for k
  proof -
    have "k < 2 ^ 64" using that unsigned_less [of e, where ?'a = nat] by simp
    then have "unat (word_of_nat k :: u64) = k" by (simp add: unat_of_nat)
    with that show ?thesis by (simp add: word_le_nat_alt)
  qed
  moreover have "set (round_list i e) = word_of_nat ` {unat i..unat e}"
    by (simp add: round_list_def atLeastLessThanSuc_atLeastAtMost del: upt_Suc)
  ultimately show ?thesis by auto
qed

lemma logs_loop_spec:
  assumes "e \<noteq> max_u64" and "i \<le> e \<or> ok"
  shows "if \<forall>n \<in> {i..e}. cachedLogsByNumber n c \<noteq> None
     then cached_logs_loop c i e acc ok = Some (acc @ concat (map (\<lambda>n. the (cachedLogsByNumber n c)) (round_list i e)), True)
     else \<exists>acc'. cached_logs_loop c i e acc ok = Some (acc', False)"
  using assms(2)
proof (induction "Suc (unat e) - unat i" arbitrary: i acc ok)
  case 0
  then have "\<not> i \<le> e" by (simp add: word_le_nat_alt)
  with 0 have ok by simp
  with \<open>\<not> i \<le> e\<close> show ?case by (subst cached_logs_loop.simps) (simp add: round_list_empty)
next
  case (Suc m)
  then have le: "i \<le> e" by (simp add: word_le_nat_alt)
  have i: "i \<noteq> max_u64" using le assms(1) by (rule u64_le_less_max)
  show ?case
  proof (cases "cachedLogsByNumber i c")
    case None
    with le have "\<not> (\<forall>n \<in> {i..e}. cachedLogsByNumber n c \<noteq> None)" by auto
    moreover have "cached_logs_loop c i e acc ok = Some (acc, False)"
      using le None by (subst cached_logs_loop.simps) simp
    ultimately show ?thesis by simp
  next
    case (Some ls)
    have m: "m = Suc (unat e) - unat (i + 1)" using Suc.hyps(2) i by simp
    have step: "cached_logs_loop c i e acc ok = cached_logs_loop c (i + 1) e (acc @ ls) True"
      using le Some by (subst cached_logs_loop.simps) simp
    have set: "{i..e} = insert i {i + 1..e}"
      using set_round_list [of i e] round_list_Cons [OF le assms(1)] set_round_list [of "i + 1" e] by simp
    from Suc.hyps(1) [OF m, of True "acc @ ls"] show ?thesis
      unfolding step set round_list_Cons [OF le assms(1)] using Some by simp
  qed
qed


definition example_receipt :: Receipt where
  "example_receipt = zero_Receipt\<lparr>rc_TransactionHash := ''0xaa'', rc_Logs := [example_log 7 0]\<rparr>"

definition example_cached :: CachingBackend where
  "example_cached = insert_block ((example_bd 7)\<lparr>bd_Receipts := [example_receipt]\<rparr>) (NewCache None)"

lemma example_cached_ok: "cache_ok example_cached" "cached_rounds example_cached = {7}"
proof -
  have m: "maxCacheSize (NewCache None) = 128" "cacheSize (NewCache None) = 0" by (simp_all add: NewCache_def)
  have "cache_ok (NewCache None)" by (rule new_cache_ok)
  then show "cache_ok example_cached"
    by (simp add: example_cached_def cache_ok_def entries_ok_insert size_ok_insert m)
  show "cached_rounds example_cached = {7}"
    by (simp add: example_cached_def cached_rounds_insert example_bd_def)
qed


subsection \<open>The last retained round\<close>

text \<open>
  without interference the query of the last retained round returns after one iteration
  with the stored round, and remembers it; later queries are answered from memory.
\<close>

lemma query_last_retained_once:
  assumes "lastRetainedRoundValid c = 0" and "ib_QueryLastRetainedRound ib = (Ok n, ib')"
  shows "\<exists>c'. cb_QueryLastRetainedRound (Suc fuel) [] (c, ib) = Some (Ok n, (c', ib'))
    \<and> cb_QueryLastRetainedRound fuel' env (c', ib'') = Some (Ok n, (c', ib''))"
  using assms by (simp add: cb_QueryLastRetainedRound_def)

lemma example_last_retained:
  "ib_QueryLastRetainedRound (NewIndexBackend example_db None) = (Ok 0, NewIndexBackend example_db None)"
  by (simp add: ib_QueryLastRetainedRound_def on_storage_def GetLastRetainedRound_def query_row_def query_def
      statement_def next_fault_def NewIndexBackend_def example_db_def visible_def empty_tables_def)

lemma query_last_retained_once_example:
  "\<exists>c'. cb_QueryLastRetainedRound 1 [] (NewCache None, NewIndexBackend example_db None)
      = Some (Ok 0, (c', NewIndexBackend example_db None))"
proof -
  have "lastRetainedRoundValid (NewCache None) = 0" by (simp add: NewCache_def)
  from query_last_retained_once [OF this example_last_retained, of 0 0 "[]" "NewIndexBackend example_db None"]
  show ?thesis by auto
qed

lemma cas_loop_stuck:
  "ib_QueryLastRetainedRound ib = (Ok n, ib) \<Longrightarrow> lastRetainedRound c \<noteq> n \<Longrightarrow> cas_loop fuel [] n (c, ib) = None"
  by (induction fuel) simp_all

text \<open>
  C32: the compare-and-swap loop can run forever. It compares with the value it last read from
  the database instead of reading the variable again: after another goroutine has stored a
  round that differs both from the one first loaded and from what the database answers, no
  number of iterations is enough, even if nothing interferes any more.
\<close>

theorem query_last_retained_livelock:
  assumes "ib_QueryLastRetainedRound ib = (Ok n, ib)" and "lastRetainedRoundValid c = 0"
    and "v \<noteq> n" and "v \<noteq> lastRetainedRound c"
  shows "cb_QueryLastRetainedRound fuel [Some v] (c, ib) = None"
  using assms by (cases fuel) (simp_all add: cb_QueryLastRetainedRound_def cas_loop_stuck)

theorem query_last_retained_livelock_witness:
  "\<forall>fuel. cb_QueryLastRetainedRound fuel [Some 5] (NewCache None, NewIndexBackend example_db None) = None"
proof
  have "lastRetainedRoundValid (NewCache None) = 0" "(5 :: u64) \<noteq> 0" "5 \<noteq> lastRetainedRound (NewCache None)"
    by (simp_all add: NewCache_def)
  then show "cb_QueryLastRetainedRound fuel [Some 5] (NewCache None, NewIndexBackend example_db None) = None" for fuel
    using query_last_retained_livelock [OF example_last_retained] by blast
qed

subsection \<open>Pruning behind the cache\<close>

definition example_caching :: caching where
  "example_caching = NewCachingBackend (NewIndexBackend example_db None) None"

text \<open>
  pruning does not reach the cached last retained round: once the round is known to the
  cache, a successful \<open>Prune\<close> moves the stored last retained round and the caching backend goes
  on answering with the old one.
\<close>

lemma prune_leaves_stale_retained_round:
  assumes "lastRetainedRoundValid c \<noteq> 0" and "cb_Prune x n (c, ib) = (Ok (), (c', ib'))"
    and "tables_ok (committed (ib_storage ib))"
  shows "tbl_lookup ir_Tip (indexed_rounds (committed (ib_storage ib'))) LastRetained = Some \<lparr>ir_Tip = LastRetained, ir_Round = n\<rparr>
    \<and> cb_QueryLastRetainedRound fuel env (c', ib') = Some (Ok (lastRetainedRound c), (c', ib'))"
proof -
  have p: "Prune x n ib = (Ok (), ib')" and c': "c' = c"
    using assms(2) by (auto simp: cb_Prune_def on_inner_def split: prod.splits)
  have "indexed_rounds (committed (ib_storage ib')) =
      tbl_insert_do_update ir_Tip \<lparr>ir_Tip = LastRetained, ir_Round = n\<rparr> (indexed_rounds (committed (ib_storage ib)))"
    using prune_run [OF p] by (simp add: retained_def with_last_retained_def)
  then show ?thesis
    using tip_after_upsert [OF tables_okD(6) [OF assms(3)], of "\<lparr>ir_Tip = LastRetained, ir_Round = n\<rparr>"] assms(1) c'
    by (simp add: cb_QueryLastRetainedRound_def)
qed

lemma prune_leaves_stale_retained_round_example:
  "\<exists>c' ib'. cb_Prune example_ext 8 ((NewCache None)\<lparr>lastRetainedRound := 3, lastRetainedRoundValid := 1\<rparr>, NewIndexBackend example_db None)
       = (Ok (), (c', ib'))
     \<and> cb_QueryLastRetainedRound 1 [] (c', ib') = Some (Ok 3, (c', ib'))"
proof -
  let ?c = "(NewCache None)\<lparr>lastRetainedRound := 3, lastRetainedRoundValid := 1\<rparr>"
  have "\<exists>c' ib'. cb_Prune example_ext 8 (?c, NewIndexBackend example_db None) = (Ok (), (c', ib'))"
    by (simp add: cb_Prune_def on_inner_def Prune_def on_storage_def RunInTransaction_def next_fault_def close_tx_def
        storeLastRetainedRound_def insertSingle_def exec_stmt_def statement_def NewIndexBackend_def example_db_def
        Delete_def commit_tx_def ret_def visible_def)
  then obtain c' ib' where p: "cb_Prune example_ext 8 (?c, NewIndexBackend example_db None) = (Ok (), (c', ib'))" by blast
  have "lastRetainedRoundValid ?c \<noteq> 0" by simp
  moreover have "tables_ok (committed (ib_storage (NewIndexBackend example_db None :: CachingBackend indexBackend)))"
    by (simp add: NewIndexBackend_def example_db_def empty_tables_def tables_ok_def tbl_unique_def)
  ultimately show ?thesis using prune_leaves_stale_retained_round [OF _ p, of 1 "[]"] p by auto
qed

end
