(* ===== verification/Float64.thy ===== *)
theory Float64
  imports Complex_Main Gateway_Prelude "HOL-Library.Log_Nat"
begin

text \<open>
  Go's \<open>float64\<close> as the gas price oracle uses it: IEEE 754 binary64 with rounding to nearest,
  ties to even. A finite value is its rational (the sign of zero plays no role here). Converting
  a value outside the range of \<open>uint64\<close> is left to the implementation by the language: it is the
  parameter \<open>oob\<close> of \<open>u64_of_f\<close>.
\<close>

datatype f64 = Fin rat | PInf | NInf | NaN

definition pow2 :: "int \<Rightarrow> rat" where
  "pow2 e = (if 0 \<le> e then 2 ^ nat e else 1 / 2 ^ nat (- e))"

text \<open>The exponent of the largest power of two not above a positive rational.\<close>

definition ilog2 :: "rat \<Rightarrow> int" where
  "ilog2 q = (let (a, b) = quotient_of q; e = bitlen a - bitlen b in if pow2 e \<le> q then e else e - 1)"

definition round_half_even :: "rat \<Rightarrow> int" where
  "round_half_even q = (let n = \<lfloor>q\<rfloor>; d = q - of_int n in
     if d < 1 / 2 then n else if 1 / 2 < d then n + 1 else if even n then n else n + 1)"

definition round_pos :: "rat \<Rightarrow> rat" where
  "round_pos q = (let u = pow2 (max (ilog2 q - 52) (- 1074)) in of_int (round_half_even (q / u)) * u)"

definition round_f64 :: "rat \<Rightarrow> f64" where
  "round_f64 q =
     (if q = 0 then Fin 0
      else let r = round_pos \<bar>q\<bar> in
        if pow2 1024 \<le> r then (if 0 < q then PInf else NInf)
        else Fin (if 0 < q then r else - r))"

definition f_of_u64 :: "u64 \<Rightarrow> f64" where
  "f_of_u64 w = round_f64 (of_nat (unat w))"

fun f_mul :: "f64 \<Rightarrow> f64 \<Rightarrow> f64" where
  "f_mul (Fin a) (Fin b) = round_f64 (a * b)"
| "f_mul NaN b = NaN"
| "f_mul a NaN = NaN"
| "f_mul (Fin a) b = (if a = 0 then NaN else if (0 < a) = (b = PInf) then PInf else NInf)"
| "f_mul a (Fin b) = (if b = 0 then NaN else if (0 < b) = (a = PInf) then PInf else NInf)"
| "f_mul a b = (if a = b then PInf else NInf)"

fun f_div :: "f64 \<Rightarrow> f64 \<Rightarrow> f64" where
  "f_div (Fin a) (Fin b) =
     (if b = 0 then (if a = 0 then NaN else if 0 < a then PInf else NInf) else round_f64 (a / b))"
| "f_div NaN b = NaN"
| "f_div a NaN = NaN"
| "f_div (Fin a) b = Fin 0"
| "f_div a (Fin b) = (if (0 \<le> b) = (a = PInf) then PInf else NInf)"
| "f_div a b = NaN"

fun f_le :: "f64 \<Rightarrow> f64 \<Rightarrow> bool" where
  "f_le NaN b = False"
| "f_le a NaN = False"
| "f_le NInf b = True"
| "f_le a PInf = True"
| "f_le (Fin a) (Fin b) = (a \<le> b)"
| "f_le a b = False"

definition f_lt :: "f64 \<Rightarrow> f64 \<Rightarrow> bool" where
  "f_lt a b = (f_le a b \<and> \<not> f_le b a)"

definition u64_of_f :: "(f64 \<Rightarrow> u64) \<Rightarrow> f64 \<Rightarrow> u64" where
  "u64_of_f oob v = (case v of
       Fin q \<Rightarrow> if - 1 < q \<and> q < 2 ^ 64 then word_of_int (if 0 \<le> q then \<lfloor>q\<rfloor> else 0) else oob v
     | _ \<Rightarrow> oob v)"

text \<open>Integers below \<open>2 ^ 53\<close> are exact.\<close>

lemma round_half_even_int [simp]: "round_half_even (of_int n) = n"
  by (simp add: round_half_even_def Let_def)

lemma round_pos_int:
  assumes "0 < n" and "n < 2 ^ 53"
  shows "round_pos (of_int n) = of_int n"
proof -
  have "bitlen n \<le> 53" using assms by (simp add: bitlen_le_iff_power)
  moreover have "bitlen 1 = 1" by (simp add: bitlen_def floorlog_eq_zero_iff floorlog_def)
  ultimately have "ilog2 (of_int n) \<le> 52" by (simp add: ilog2_def Let_def)
  then have "max (ilog2 (of_int n) - 52) (- 1074) = - int (nat (- max (ilog2 (of_int n) - 52) (- 1074)))" by simp
  then obtain k where "max (ilog2 (of_int n) - 52) (- 1074) = - int k" by blast
  then have u: "pow2 (max (ilog2 (of_int n) - 52) (- 1074)) = 1 / 2 ^ k" by (auto simp: pow2_def)
  have "of_int n / (1 / 2 ^ k :: rat) = of_int (n * 2 ^ k)" by simp
  then have "round_half_even (of_int n / (1 / 2 ^ k)) = n * 2 ^ k" by (simp only: round_half_even_int)
  then show ?thesis by (simp add: round_pos_def Let_def u)
qed

lemma round_f64_int:
  assumes "0 \<le> n" and "n < 2 ^ 53"
  shows "round_f64 (of_int n) = Fin (of_int n)"
proof (cases "n = 0")
  case False
  have "(of_int n :: rat) < of_int (2 ^ 53)" using assms(2) by (simp only: of_int_less_iff)
  also have "\<dots> \<le> pow2 1024" by (simp add: pow2_def)
  finally show ?thesis using assms False round_pos_int [of n] by (simp add: round_f64_def Let_def)
qed (simp add: round_f64_def)

lemma round_f64_numeral [simp]:
  "(numeral k :: int) < 2 ^ 53 \<Longrightarrow> round_f64 (numeral k) = Fin (numeral k)" "round_f64 1 = Fin 1" "round_f64 0 = Fin 0"
  using round_f64_int [of "numeral k"] round_f64_int [of 1] round_f64_int [of 0] by simp_all

end
