(* ===== verification/Gas_Oracle.thy ===== *)
theory Gas_Oracle
  imports Float64 Index_Backend
begin

text \<open>
  \<^verbatim>\<open>gas/backend.go\<close> and \<^verbatim>\<open>gas/fee_history.go\<close>: the gas price oracle. It watches indexed blocks,
  keeps the median prices of the last full blocks in a ring buffer and the per-block fee data of
  the last blocks in a slice, and answers \<open>eth_gasPrice\<close> and \<open>eth_feeHistory\<close> from them. Prices
  are oasis-core quantities, natural numbers here.
\<close>

subsection \<open>State\<close>

record GasConfig =
  gc_MinGasPrice :: u64
  gc_BlockFullThreshold :: f64
  gc_WindowSize :: u64
  gc_ComputedPriceMargin :: u64
  gc_FeeHistorySize :: u64

record txGasAndReward =
  tgr_gasUsed :: u64
  tgr_reward :: int

text \<open>\<open>None\<close> in \<open>sortedTxs\<close> is a nil pointer.\<close>

record feeHistoryBlockData =
  fh_height :: u64
  fh_baseFee :: int
  fh_gasUsedRatio :: f64
  fh_gasUsed :: u64
  fh_sortedTxs :: "txGasAndReward option list"

record FeeHistoryResult =
  fhr_OldestBlock :: int
  fhr_Reward :: "int list list"
  fhr_BaseFee :: "int list"
  fhr_GasUsedRatio :: "f64 list"

record gasPriceOracle =
  nodeMinGasPrice :: "nat option"
  computedGasPrice :: "nat option"
  blockPrices :: "nat list"
  blockPricesCurrentIdx :: nat
  feeHistoryData :: "feeHistoryBlockData list"
  feeHistorySize :: u64
  windowSize :: u64
  fullBlockThreshold :: f64
  defaultGasPrice :: nat
  computedPriceMargin :: nat

definition NewOracle :: "GasConfig option \<Rightarrow> gasPriceOracle" where
  "NewOracle cfg =
     (let pick = (\<lambda>f d. case cfg of None \<Rightarrow> d | Some c \<Rightarrow> if f c = 0 then d else f c);
          ws = pick gc_WindowSize 6;
          threshold = (case cfg of None \<Rightarrow> Fin (1 / 2)
            | Some c \<Rightarrow> if gc_BlockFullThreshold c = Fin 0 then Fin (1 / 2) else gc_BlockFullThreshold c)
      in \<lparr>nodeMinGasPrice = None, computedGasPrice = None, blockPrices = replicate (unat ws) 0,
          blockPricesCurrentIdx = 0, feeHistoryData = [], feeHistorySize = pick gc_FeeHistorySize 20,
          windowSize = ws, fullBlockThreshold = threshold, defaultGasPrice = unat (pick gc_MinGasPrice 100000000000),
          computedPriceMargin = unat (pick gc_ComputedPriceMargin 1000000000)\<rparr>)"

subsection \<open>The recommended price\<close>

definition GasPrice :: "gasPriceOracle \<Rightarrow> nat" where
  "GasPrice g =
     (if computedGasPrice g = None \<and> nodeMinGasPrice g = None then defaultGasPrice g
      else let maxPrice = (case nodeMinGasPrice g of None \<Rightarrow> 0 | Some p \<Rightarrow> p)
        in case computedGasPrice g of None \<Rightarrow> maxPrice | Some p \<Rightarrow> if maxPrice < p then p else maxPrice)"

text \<open>The node's answer is the native price, zero when the denomination is missing.\<close>

definition fetchMinGasPrice :: "gerror + nat option \<Rightarrow> gasPriceOracle \<Rightarrow> gasPriceOracle" where
  "fetchMinGasPrice answer g = (case answer of
       Inl _ \<Rightarrow> g
     | Inr mgp \<Rightarrow> g\<lparr>nodeMinGasPrice := Some (case mgp of None \<Rightarrow> 0 | Some p \<Rightarrow> p)\<rparr>)"

definition trackPrice :: "nat \<Rightarrow> gasPriceOracle \<Rightarrow> gasPriceOracle" where
  "trackPrice price g =
     (let prices = (blockPrices g)[blockPricesCurrentIdx g := price];
          maxPrice = fold (\<lambda>p m. if m < p then p else m) prices 0
      in g\<lparr>blockPrices := prices,
           blockPricesCurrentIdx := (blockPricesCurrentIdx g + 1) mod unat (windowSize g),
           computedGasPrice := (if maxPrice = 0 then None else Some maxPrice)\<rparr>)"

definition blockFull :: "Block \<Rightarrow> gasPriceOracle \<Rightarrow> bool" where
  "blockFull b g = f_le (f_mul (f_of_u64 (hdr_GasLimit (blk_Header b))) (fullBlockThreshold g))
     (f_of_u64 (hdr_GasUsed (blk_Header b)))"

definition onBlock :: "Block \<Rightarrow> nat option \<Rightarrow> gasPriceOracle \<Rightarrow> gasPriceOracle" where
  "onBlock b medTxPrice g =
     (if \<not> blockFull b g then trackPrice 0 g
      else case medTxPrice of None \<Rightarrow> g | Some p \<Rightarrow> trackPrice (p + computedPriceMargin g) g)"

subsection \<open>Fee history\<close>

text \<open>The inner loop over the sorted transactions, and the loop over the percentiles.\<close>

function advance :: "txGasAndReward list \<Rightarrow> u64 \<Rightarrow> nat \<Rightarrow> u64 \<Rightarrow> nat \<times> u64" where
  "advance txs thr txIndex sumGasUsed =
     (if sumGasUsed < thr \<and> txIndex < length txs - 1
      then advance txs thr (Suc txIndex) (sumGasUsed + tgr_gasUsed (txs ! Suc txIndex))
      else (txIndex, sumGasUsed))"
  by pat_completeness auto
termination by (relation "measure (\<lambda>(txs, thr, i, s). length txs - i)") auto

declare advance.simps [simp del]

fun rewards_loop :: "txGasAndReward list \<Rightarrow> nat \<Rightarrow> u64 \<Rightarrow> u64 list \<Rightarrow> int list" where
  "rewards_loop txs txIndex sumGasUsed [] = []"
| "rewards_loop txs txIndex sumGasUsed (thr # thrs) =
     (case advance txs thr txIndex sumGasUsed of
        (i, s) \<Rightarrow> tgr_reward (txs ! i) # rewards_loop txs i s thrs)"

definition threshold_gas :: "(f64 \<Rightarrow> u64) \<Rightarrow> feeHistoryBlockData \<Rightarrow> f64 \<Rightarrow> u64" where
  "threshold_gas oob d p = u64_of_f oob (f_div (f_mul (f_of_u64 (fh_gasUsed d)) p) (Fin 100))"

definition rewards :: "(f64 \<Rightarrow> u64) \<Rightarrow> feeHistoryBlockData \<Rightarrow> f64 list \<Rightarrow> int list outcome" where
  "rewards oob d percentiles =
     (if percentiles = [] then Ok []
      else if fh_sortedTxs d = [] then Ok (replicate (length percentiles) 0)
      else if None \<in> set (fh_sortedTxs d) then Panic ''nil pointer dereference''
      else (let txs = map the (fh_sortedTxs d) in
        Ok (rewards_loop txs 0 (tgr_gasUsed (txs ! 0)) (map (threshold_gas oob d) percentiles))))"

definition no_history :: FeeHistoryResult where
  "no_history = \<lparr>fhr_OldestBlock = 0, fhr_Reward = [], fhr_BaseFee = [], fhr_GasUsedRatio = []\<rparr>"

fun rewards_of_blocks :: "(f64 \<Rightarrow> u64) \<Rightarrow> f64 list \<Rightarrow> feeHistoryBlockData list \<Rightarrow> int list list outcome" where
  "rewards_of_blocks oob ps [] = Ok []"
| "rewards_of_blocks oob ps (d # ds) = (case rewards oob d ps of
       Ok r \<Rightarrow> (case rewards_of_blocks oob ps ds of Ok rs \<Rightarrow> Ok (r # rs) | Err e \<Rightarrow> Err e | Panic p \<Rightarrow> Panic p)
     | Err e \<Rightarrow> Err e
     | Panic p \<Rightarrow> Panic p)"

text \<open>A height above the largest \<open>int64\<close> is shown as the negative number it converts to.\<close>

definition last_block_idx :: "block_tags \<Rightarrow> int \<Rightarrow> feeHistoryBlockData list \<Rightarrow> nat option" where
  "last_block_idx tags lastBlock ds =
     (if lastBlock \<in> {PendingBlockNumber tags, LatestBlockNumber tags, FinalizedBlockNumber tags, SafeBlockNumber tags}
      then Some (length ds - 1)
      else if lastBlock = EarliestBlockNumber tags then None
      else (case find (\<lambda>(i, d). fh_height d = word_of_int lastBlock) (enumerate 0 ds) of
              None \<Rightarrow> None | Some (i, d) \<Rightarrow> Some i))"

definition FeeHistory :: "(f64 \<Rightarrow> u64) \<Rightarrow> block_tags \<Rightarrow> u64 \<Rightarrow> int \<Rightarrow> f64 list \<Rightarrow> gasPriceOracle \<Rightarrow> FeeHistoryResult outcome" where
  "FeeHistory oob tags blockCount lastBlock percentiles g =
     (let ds = feeHistoryData g in
      if ds = [] then Ok no_history
      else case last_block_idx tags lastBlock ds of
        None \<Rightarrow> Ok no_history
      | Some lastBlockIdx \<Rightarrow>
         (let oldestBlockIdx = (if (word_of_nat lastBlockIdx :: u64) < blockCount then 0
                                else lastBlockIdx + 1 - unat blockCount)
          in case index_at ds (int oldestBlockIdx) of
               None \<Rightarrow> Panic ''index out of range''
             | Some oldest \<Rightarrow>
                (let range = take (lastBlockIdx + 1 - oldestBlockIdx) (drop oldestBlockIdx ds)
                 in case rewards_of_blocks oob percentiles range of
                      Err e \<Rightarrow> Err e
                    | Panic p \<Rightarrow> Panic p
                    | Ok rs \<Rightarrow> Ok \<lparr>fhr_OldestBlock = sint (fh_height oldest), fhr_Reward = rs,
                        fhr_BaseFee = map fh_baseFee range, fhr_GasUsedRatio = map fh_gasUsedRatio range\<rparr>)))"

text \<open>
  The loop that fills \<open>sortedTxs\<close>: a number that does not parse ends the function without
  storing anything (\<open>None\<close>), more transactions than receipts is an index panic.
\<close>

fun fill_txs :: "Transaction list \<Rightarrow> Receipt list \<Rightarrow> txGasAndReward list option outcome" where
  "fill_txs [] rcs = Ok (Some [])"
| "fill_txs (tx # txs) rcs =
     (case big_UnmarshalText (tx_GasFeeCap tx) of
        None \<Rightarrow> Ok None
      | Some feeCap \<Rightarrow>
         (case big_UnmarshalText (tx_GasTipCap tx) of
            None \<Rightarrow> Ok None
          | Some tip \<Rightarrow>
             (case rcs of
                [] \<Rightarrow> Panic ''index out of range''
              | rc # rcs' \<Rightarrow>
                 (case fill_txs txs rcs' of
                    Ok (Some rest) \<Rightarrow> Ok (Some (\<lparr>tgr_gasUsed = rc_GasUsed rc,
                      tgr_reward = (if feeCap < tip then feeCap else tip)\<rparr> # rest))
                  | r \<Rightarrow> r))))"

definition append_history :: "feeHistoryBlockData \<Rightarrow> gasPriceOracle \<Rightarrow> gasPriceOracle" where
  "append_history d g =
     (let ds = (if length (feeHistoryData g) = unat (feeHistorySize g) then drop 1 (feeHistoryData g) else feeHistoryData g)
      in g\<lparr>feeHistoryData := ds @ [d]\<rparr>)"

definition trackFeeHistory :: "Block \<Rightarrow> Transaction list \<Rightarrow> Receipt list \<Rightarrow> (gasPriceOracle, unit) call" where
  "trackFeeHistory blk txs rcs g =
     (case big_UnmarshalText (hdr_BaseFee (blk_Header blk)) of
        None \<Rightarrow> (Ok (), g)
      | Some baseFee \<Rightarrow>
         (case fill_txs txs rcs of
            Err e \<Rightarrow> (Err e, g)
          | Panic p \<Rightarrow> (Panic p, g)
          | Ok None \<Rightarrow> (Ok (), g)
          | Ok (Some filled) \<Rightarrow>
             (let missing = length rcs - length filled in
              if 0 < missing \<and> 2 \<le> length rcs then (Panic ''nil pointer dereference'', g)
              else (Ok (), append_history
                \<lparr>fh_height = blk_Round blk, fh_baseFee = baseFee,
                 fh_gasUsedRatio = f_div (f_of_u64 (hdr_GasUsed (blk_Header blk))) (f_of_u64 (hdr_GasLimit (blk_Header blk))),
                 fh_gasUsed = hdr_GasUsed (blk_Header blk),
                 fh_sortedTxs = map Some (sort_key tgr_reward filled) @ replicate missing None\<rparr> g))))"

text \<open>What the watcher loop does with one block (the node's price is fetched concurrently).\<close>

definition on_watched_block :: "BlockData \<Rightarrow> (gasPriceOracle, unit) call" where
  "on_watched_block bd g =
     trackFeeHistory (bd_Block bd) (bd_UniqueTxes bd) (bd_Receipts bd) (onBlock (bd_Block bd) (bd_Median bd) g)"

subsection \<open>Bounded logs\<close>

text \<open>The last elements of a list, and the interface of a log that keeps only that many.\<close>

definition lastn :: "nat \<Rightarrow> 'a list \<Rightarrow> 'a list" where
  "lastn n xs = drop (length xs - n) xs"

lemma lastn_append: "lastn n (lastn n xs @ ys) = lastn n (xs @ ys)"
proof (cases "length xs \<le> n")
  case False
  then have "length (lastn n xs) = n" "length xs - n + length ys = length xs + length ys - n"
    by (simp_all add: lastn_def)
  then show ?thesis using False by (simp add: lastn_def add.commute)
qed (simp add: lastn_def)

lemma lastn_all [simp]: "length xs \<le> n \<Longrightarrow> lastn n xs = xs"
  by (simp add: lastn_def)

lemma length_lastn: "length (lastn n xs) = min n (length xs)"
  by (simp add: lastn_def)

locale bounded_log =
  fixes push :: "'a \<Rightarrow> 's \<Rightarrow> 's"
    and contents :: "'s \<Rightarrow> 'a list"
    and capacity :: "'s \<Rightarrow> nat"
    and invar :: "'s \<Rightarrow> bool"
  assumes contents_push: "invar s \<Longrightarrow> contents (push x s) = lastn (capacity s) (contents s @ [x])"
    and capacity_push: "capacity (push x s) = capacity s"
    and invar_push: "invar s \<Longrightarrow> invar (push x s)"
    and within: "invar s \<Longrightarrow> length (contents s) \<le> capacity s"
begin

lemma fold_push:
  "invar s \<Longrightarrow> invar (fold push xs s) \<and> capacity (fold push xs s) = capacity s
     \<and> contents (fold push xs s) = lastn (capacity s) (contents s @ xs)"
proof (induction xs arbitrary: s)
  case Nil
  then show ?case by (simp add: within)
next
  case (Cons x xs)
  then have "invar (push x s)" by (simp add: invar_push)
  from Cons.IH [OF this] Cons.prems show ?case
    by (simp add: capacity_push contents_push lastn_append)
qed

end

subsection \<open>The price window\<close>

text \<open>The ring buffer read from its oldest entry.\<close>

definition price_window :: "gasPriceOracle \<Rightarrow> nat list" where
  "price_window g = rotate (blockPricesCurrentIdx g) (blockPrices g)"

definition ring_ok :: "gasPriceOracle \<Rightarrow> bool" where
  "ring_ok g \<longleftrightarrow> length (blockPrices g) = unat (windowSize g) \<and> blockPricesCurrentIdx g < unat (windowSize g)"

lemma rotate_update:
  assumes "i < length xs"
  shows "rotate (Suc i mod length xs) (xs[i := x]) = drop 1 (rotate i xs) @ [x]"
proof -
  have len: "length (xs[i := x]) = length xs" by simp
  have "rotate (Suc i mod length xs) (xs[i := x]) = rotate (Suc i) (xs[i := x])"
    by (metis len rotate_conv_mod)
  also have "\<dots> = rotate1 (rotate i (xs[i := x]))" by simp
  also have "rotate i (xs[i := x]) = x # drop 1 (rotate i xs)"
    using assms by (simp add: rotate_drop_take upd_conv_take_nth_drop drop_append)
  finally show ?thesis by simp
qed

lemma fold_max: "fold (\<lambda>p m. if m < p then p else m) ps m0 = Max (insert m0 (set ps))" for m0 :: nat
proof (induction ps arbitrary: m0)
  case (Cons p ps)
  have "Max (insert (if m0 < p then p else m0) (set ps)) = Max (insert m0 (insert p (set ps)))"
    by (cases "set ps = {}") (auto simp: max_def)
  with Cons show ?case by simp
qed simp

interpretation ring: bounded_log trackPrice price_window "\<lambda>g. unat (windowSize g)" ring_ok
proof unfold_locales
  fix g :: gasPriceOracle and p :: nat
  assume ok: "ring_ok g"
  have "price_window (trackPrice p g) = drop 1 (price_window g) @ [p]"
    using ok rotate_update [of "blockPricesCurrentIdx g" "blockPrices g" p]
    by (simp add: price_window_def trackPrice_def Let_def ring_ok_def)
  moreover have "length (price_window g) = unat (windowSize g)" "0 < unat (windowSize g)"
    using ok by (auto simp: price_window_def ring_ok_def)
  ultimately show "price_window (trackPrice p g) = lastn (unat (windowSize g)) (price_window g @ [p])"
    by (simp add: lastn_def)
  show "ring_ok (trackPrice p g)"
    using ok by (auto simp: ring_ok_def trackPrice_def Let_def)
  show "length (price_window g) \<le> unat (windowSize g)" using ok by (simp add: price_window_def ring_ok_def)
next
  show "unat (windowSize (trackPrice p g)) = unat (windowSize g)" for p g by (simp add: trackPrice_def Let_def)
qed

lemma new_oracle_ring: "ring_ok (NewOracle cfg)" "price_window (NewOracle cfg) = replicate (unat (windowSize (NewOracle cfg))) 0"
proof -
  have "windowSize (NewOracle cfg) \<noteq> 0"
    by (cases cfg) (auto simp: NewOracle_def Let_def)
  then have "0 < unat (windowSize (NewOracle cfg))" by (simp add: unat_gt_0)
  then show "ring_ok (NewOracle cfg)" by (simp add: ring_ok_def NewOracle_def Let_def)
  show "price_window (NewOracle cfg) = replicate (unat (windowSize (NewOracle cfg))) 0"
    by (simp add: price_window_def NewOracle_def Let_def)
qed

lemma computed_after_track:
  "ring_ok g \<Longrightarrow> computedGasPrice (trackPrice p g) =
     (let m = Max (insert 0 (set (price_window (trackPrice p g)))) in if m = 0 then None else Some m)"
  by (simp add: price_window_def trackPrice_def Let_def fold_max)

text \<open>
  C12: the ring buffer is a window over the tracked prices: after any sequence of blocks the
  computed price is the largest of the last \<open>windowSize\<close> tracked prices, and there is none
  exactly when all of these are zero (no full block in the window).
\<close>

theorem computed_price_is_window_max:
  "computedGasPrice (fold trackPrice ps (NewOracle cfg)) =
     (let recent = lastn (unat (windowSize (NewOracle cfg))) ps
      in if set recent \<subseteq> {0} then None else Some (Max (set recent)))"
proof (cases ps rule: rev_cases)
  case Nil
  then show ?thesis by (simp add: NewOracle_def Let_def lastn_def)
next
  case (snoc qs q)
  let ?n = "unat (windowSize (NewOracle cfg))"
  let ?g = "fold trackPrice qs (NewOracle cfg)"
  have ok: "ring_ok ?g" using ring.fold_push [OF new_oracle_ring(1)] by blast
  have w: "price_window (fold trackPrice ps (NewOracle cfg)) = lastn ?n (replicate ?n 0 @ ps)"
    using ring.fold_push [OF new_oracle_ring(1), of ps cfg] new_oracle_ring(2) by simp
  have "insert 0 (set (lastn ?n (replicate ?n 0 @ ps))) = insert 0 (set (lastn ?n ps))"
    by (auto simp: lastn_def)
  with w have s: "insert 0 (set (price_window (fold trackPrice ps (NewOracle cfg)))) = insert 0 (set (lastn ?n ps))"
    by simp
  have c: "computedGasPrice (fold trackPrice ps (NewOracle cfg)) =
      (let m = Max (insert 0 (set (lastn ?n ps))) in if m = 0 then None else Some m)"
    using computed_after_track [OF ok, of q] s snoc by simp
  show ?thesis
  proof (cases "set (lastn ?n ps) \<subseteq> {0}")
    case True
    then have "insert 0 (set (lastn ?n ps)) = {0}" by auto
    with c True show ?thesis by (simp add: Let_def)
  next
    case False
    then obtain p where p: "p \<in> set (lastn ?n ps)" "p \<noteq> 0" by blast
    then have "Max (insert 0 (set (lastn ?n ps))) = Max (set (lastn ?n ps))" by (subst Max_insert) auto
    moreover have "Max (set (lastn ?n ps)) \<noteq> 0" using p by (metis List.finite_set Max_ge le_zero_eq)
    ultimately show ?thesis using c False by (simp add: Let_def)
  qed
qed

subsection \<open>The fee history\<close>

definition history_ok :: "gasPriceOracle \<Rightarrow> bool" where
  "history_ok g \<longleftrightarrow> 0 < unat (feeHistorySize g) \<and> length (feeHistoryData g) \<le> unat (feeHistorySize g)"

interpretation hist: bounded_log append_history feeHistoryData "\<lambda>g. unat (feeHistorySize g)" history_ok
  by unfold_locales (auto simp: append_history_def Let_def history_ok_def lastn_def Suc_diff_le)

definition no_nil :: "gasPriceOracle \<Rightarrow> bool" where
  "no_nil g \<longleftrightarrow> (\<forall>d \<in> set (feeHistoryData g). None \<notin> set (fh_sortedTxs d))"

lemma fill_txs_parallel:
  "length txs = length rcs \<Longrightarrow> fill_txs txs rcs = Ok None \<or> (\<exists>f. fill_txs txs rcs = Ok (Some f) \<and> length f = length rcs)"
  by (induction txs rcs rule: list_induct2) (auto split: option.split)

lemma onBlock_history [simp]: "feeHistoryData (onBlock b m g) = feeHistoryData g" "feeHistorySize (onBlock b m g) = feeHistorySize g"
  by (simp_all add: onBlock_def trackPrice_def Let_def split: option.split)

lemma track_fee_history_ok:
  assumes "length txs = length rcs" and "history_ok g" and "no_nil g"
  shows "\<exists>g'. trackFeeHistory blk txs rcs g = (Ok (), g') \<and> history_ok g' \<and> no_nil g' \<and> feeHistorySize g' = feeHistorySize g"
proof -
  have app: "history_ok (append_history d g) \<and> no_nil (append_history d g) \<and> feeHistorySize (append_history d g) = feeHistorySize g"
    if "None \<notin> set (fh_sortedTxs d)" for d
    using that assms(2,3) hist.invar_push [of g d]
    by (auto simp: no_nil_def append_history_def Let_def dest: in_set_dropD)
  show ?thesis using fill_txs_parallel [OF assms(1)] assms(2,3) app
    by (auto simp: trackFeeHistory_def Let_def split: option.split)
qed

lemma watched_blocks_ok:
  assumes "\<forall>bd \<in> set bds. length (bd_UniqueTxes bd) = length (bd_Receipts bd)" and "history_ok g" and "no_nil g"
  shows "\<exists>g'. for_each on_watched_block bds g = (Ok (), g') \<and> history_ok g' \<and> no_nil g' \<and> feeHistorySize g' = feeHistorySize g"
  using assms
proof (induction bds arbitrary: g)
  case Nil
  then show ?case by (simp add: ret_def)
next
  case (Cons bd bds)
  let ?g = "onBlock (bd_Block bd) (bd_Median bd) g"
  have "history_ok ?g" "no_nil ?g" using Cons.prems by (simp_all add: history_ok_def no_nil_def)
  then obtain g1 where g1: "on_watched_block bd g = (Ok (), g1)" "history_ok g1" "no_nil g1" "feeHistorySize g1 = feeHistorySize g"
    using track_fee_history_ok [of "bd_UniqueTxes bd" "bd_Receipts bd" ?g] Cons.prems(1)
    by (auto simp: on_watched_block_def)
  with Cons.IH [of g1] Cons.prems(1) show ?case by auto
qed

lemma new_oracle_history: "history_ok (NewOracle cfg)" "no_nil (NewOracle cfg)"
proof -
  have "feeHistorySize (NewOracle cfg) \<noteq> 0" by (cases cfg) (auto simp: NewOracle_def Let_def)
  then show "history_ok (NewOracle cfg)" by (simp add: history_ok_def unat_gt_0 NewOracle_def Let_def)
  show "no_nil (NewOracle cfg)" by (simp add: no_nil_def NewOracle_def Let_def)
qed

lemma rewards_loop_length: "length (rewards_loop txs i s thrs) = length thrs"
  by (induction thrs arbitrary: i s) (auto split: prod.split)

lemma rewards_ok:
  "None \<notin> set (fh_sortedTxs d) \<Longrightarrow> \<exists>r. rewards oob d ps = Ok r \<and> length r = length ps"
  by (simp add: rewards_def Let_def rewards_loop_length)

lemma rewards_of_blocks_ok:
  "\<forall>d \<in> set ds. None \<notin> set (fh_sortedTxs d) \<Longrightarrow>
    \<exists>rs. rewards_of_blocks oob ps ds = Ok rs \<and> length rs = length ds \<and> (\<forall>r \<in> set rs. length r = length ps)"
proof (induction ds)
  case (Cons d ds)
  obtain r where "rewards oob d ps = Ok r" "length r = length ps" using rewards_ok [of d oob ps] Cons.prems by auto
  with Cons show ?case by auto
qed simp

lemma last_block_idx_bound: "ds \<noteq> [] \<Longrightarrow> last_block_idx tags b ds = Some i \<Longrightarrow> i < length ds"
proof -
  assume "ds \<noteq> []" and s: "last_block_idx tags b ds = Some i"
  have "k < length ds" if "find P (enumerate 0 ds) = Some (k, d)" for P k d
    using that by (auto simp: find_Some_iff nth_enumerate_eq)
  with s \<open>ds \<noteq> []\<close> show ?thesis by (auto simp: last_block_idx_def split: if_splits option.splits)
qed

text \<open>What a query returns on a history without nil entries.\<close>

definition history_answer :: "u64 \<Rightarrow> nat \<Rightarrow> gasPriceOracle \<Rightarrow> FeeHistoryResult \<Rightarrow> bool" where
  "history_answer blockCount percentiles g r \<longleftrightarrow>
     length (fhr_Reward r) = length (fhr_BaseFee r) \<and> length (fhr_GasUsedRatio r) = length (fhr_BaseFee r)
     \<and> length (fhr_BaseFee r) \<le> min (unat blockCount) (unat (feeHistorySize g))
     \<and> (\<forall>row \<in> set (fhr_Reward r). length row = percentiles)"

lemma fee_history_answer:
  assumes "history_ok g" and "no_nil g" and "1 \<le> blockCount"
  shows "\<exists>r. FeeHistory oob tags blockCount lastBlock ps g = Ok r \<and> history_answer blockCount (length ps) g r"
proof -
  let ?ds = "feeHistoryData g"
  have none: "history_answer blockCount (length ps) g no_history" by (simp add: history_answer_def no_history_def)
  show ?thesis
  proof (cases "?ds = [] \<or> last_block_idx tags lastBlock ?ds = None")
    case True
    with none show ?thesis by (auto simp: FeeHistory_def Let_def)
  next
    case False
    then obtain i where i: "last_block_idx tags lastBlock ?ds = Some i" "i < length ?ds"
      using last_block_idx_bound by blast
    define old where "old = (if (word_of_nat i :: u64) < blockCount then 0 else i + 1 - unat blockCount)"
    let ?range = "take (i + 1 - old) (drop old ?ds)"
    have bc: "1 \<le> unat blockCount" using assms(3) by (simp add: word_le_nat_alt)
    have "i < 2 ^ 64" using i(2) assms(1) unsigned_less [of "feeHistorySize g", where ?'a = nat]
      by (simp add: history_ok_def)
    then have u: "unat (word_of_nat i :: u64) = i" by (simp add: unsigned_of_nat take_bit_nat_eq_self)
    have old: "old \<le> i" "i + 1 - old \<le> unat blockCount"
      using bc u by (auto simp: old_def word_less_nat_alt split: if_splits)
    obtain rs where rs: "rewards_of_blocks oob ps ?range = Ok rs" "length rs = length ?range" "\<forall>r \<in> set rs. length r = length ps"
      using rewards_of_blocks_ok [of ?range oob ps] assms(2)
      by (metis no_nil_def in_set_dropD in_set_takeD)
    have len: "length ?range \<le> min (unat blockCount) (unat (feeHistorySize g))"
      using old assms(1) by (auto simp: history_ok_def)
    have "index_at ?ds (int old) = Some (?ds ! old)" using old i(2) by (simp add: index_at_def)
    then show ?thesis
      using False i rs len by (simp add: FeeHistory_def Let_def old_def [symmetric] history_answer_def)
  qed
qed

text \<open>
  The oracle never crashes on parallel block data, and its fee history is well-formed and bounded: after any
  sequence of blocks whose transactions and receipts run in parallel, a query for at least one block
  returns as many reward rows as base fees and gas ratios, at most the requested number of blocks and at most
  the configured history size, and every row has one reward per percentile.
\<close>

lemma fee_history_total:
  assumes "\<forall>bd \<in> set bds. length (bd_UniqueTxes bd) = length (bd_Receipts bd)" and "1 \<le> blockCount"
  shows "\<exists>g r. for_each on_watched_block bds (NewOracle cfg) = (Ok (), g)
    \<and> FeeHistory oob tags blockCount lastBlock ps g = Ok r
    \<and> length (fhr_Reward r) = length (fhr_BaseFee r) \<and> length (fhr_GasUsedRatio r) = length (fhr_BaseFee r)
    \<and> length (fhr_BaseFee r) \<le> min (unat blockCount) (unat (feeHistorySize (NewOracle cfg)))
    \<and> (\<forall>row \<in> set (fhr_Reward r). length row = length ps)"
proof -
  obtain g where g: "for_each on_watched_block bds (NewOracle cfg) = (Ok (), g)" "history_ok g" "no_nil g"
      "feeHistorySize g = feeHistorySize (NewOracle cfg)"
    using watched_blocks_ok [OF assms(1) new_oracle_history] by blast
  with fee_history_answer [OF g(2,3) assms(2), of oob tags lastBlock ps] show ?thesis
    by (auto simp: history_answer_def)
qed

subsection \<open>Reward percentiles\<close>

text \<open>
  The reference: the gas of the first transactions, and for a threshold the first transaction that
  reaches it, the last one when none does. Each percentile is answered on its own.
\<close>

definition gas_of_first :: "txGasAndReward list \<Rightarrow> nat \<Rightarrow> nat" where
  "gas_of_first txs n = sum_list (map (\<lambda>t. unat (tgr_gasUsed t)) (take n txs))"

definition first_reaching :: "txGasAndReward list \<Rightarrow> nat \<Rightarrow> nat" where
  "first_reaching txs thr = (case find (\<lambda>i. thr \<le> gas_of_first txs (Suc i)) [0..<length txs] of
      Some i \<Rightarrow> i | None \<Rightarrow> length txs - 1)"

lemma gas_of_first_Suc: "i < length txs \<Longrightarrow> gas_of_first txs (Suc i) = gas_of_first txs i + unat (tgr_gasUsed (txs ! i))"
  by (simp add: gas_of_first_def take_Suc_conv_app_nth)

lemma gas_of_first_mono: "m \<le> n \<Longrightarrow> gas_of_first txs m \<le> gas_of_first txs n"
proof -
  assume "m \<le> n"
  then have "take n txs = take m txs @ take (n - m) (drop m txs)" by (metis le_add_diff_inverse take_add)
  then show ?thesis by (simp add: gas_of_first_def)
qed

lemma first_reachingI:
  assumes "i < length txs" and "\<forall>k < i. gas_of_first txs (Suc k) < thr"
    and "thr \<le> gas_of_first txs (Suc i) \<or> i = length txs - 1"
  shows "first_reaching txs thr = i"
proof (cases "thr \<le> gas_of_first txs (Suc i)")
  case True
  with assms(1,2) have "find (\<lambda>i. thr \<le> gas_of_first txs (Suc i)) [0..<length txs] = Some i"
    by (auto simp: find_Some_iff intro!: exI [of _ i])
  then show ?thesis by (simp add: first_reaching_def)
next
  case False
  with assms have i: "i = length txs - 1" by simp
  have "find (\<lambda>i. thr \<le> gas_of_first txs (Suc i)) [0..<length txs] = None"
  proof -
    have "gas_of_first txs (Suc k) < thr" if "k < length txs" for k
    proof (cases "k = i")
      case True
      with False show ?thesis by simp
    next
      case k: False
      with that i have "k < i" by simp
      with assms(2) show ?thesis by blast
    qed
    then show ?thesis by (auto simp: find_None_iff not_le)
  qed
  with i show ?thesis by (simp add: first_reaching_def)
qed

text \<open>The inner loop, started at any transaction before the one it looks for, finds it.\<close>

lemma advance_spec:
  assumes "i < length txs" and "gas_of_first txs (length txs) < 2 ^ 64"
    and "unat s = gas_of_first txs (Suc i)" and "\<forall>k < i. gas_of_first txs (Suc k) < unat thr"
  shows "\<exists>j s'. advance txs thr i s = (j, s') \<and> j = first_reaching txs (unat thr) \<and> j < length txs
     \<and> unat s' = gas_of_first txs (Suc j) \<and> (\<forall>k < j. gas_of_first txs (Suc k) < unat thr)"
  using assms
proof (induction txs thr i s rule: advance.induct)
  case (1 txs thr i s)
  show ?case
  proof (cases "s < thr \<and> i < length txs - 1")
    case True
    then have i: "Suc i < length txs" by arith
    have g: "gas_of_first txs (Suc (Suc i)) = gas_of_first txs (Suc i) + unat (tgr_gasUsed (txs ! Suc i))"
      using gas_of_first_Suc [OF i] .
    have "gas_of_first txs (Suc (Suc i)) < 2 ^ 64"
      using gas_of_first_mono [of "Suc (Suc i)" "length txs" txs] i "1.prems"(2) by simp
    with g "1.prems"(3) have s: "unat (s + tgr_gasUsed (txs ! Suc i)) = gas_of_first txs (Suc (Suc i))"
      by (simp add: unat_word_ariths)
    have "\<forall>k < Suc i. gas_of_first txs (Suc k) < unat thr"
      using "1.prems"(3,4) True by (auto simp: less_Suc_eq word_less_nat_alt)
    with "1.IH" [OF True i "1.prems"(2) s] True show ?thesis by (subst advance.simps) simp
  next
    case False
    then have "unat thr \<le> gas_of_first txs (Suc i) \<or> i = length txs - 1"
      using "1.prems"(1,3) by (auto simp: word_less_nat_alt)
    with first_reachingI [OF "1.prems"(1,4)] have "i = first_reaching txs (unat thr)" by simp
    moreover have "advance txs thr i s = (i, s)" using False by (subst advance.simps) (simp only: if_False)
    ultimately show ?thesis using "1.prems" by blast
  qed
qed

lemma rewards_loop_spec:
  assumes "i < length txs" and "gas_of_first txs (length txs) < 2 ^ 64"
    and "unat s = gas_of_first txs (Suc i)" and "\<forall>thr \<in> set thrs. \<forall>k < i. gas_of_first txs (Suc k) < unat thr"
    and "sorted thrs"
  shows "rewards_loop txs i s thrs = map (\<lambda>thr. tgr_reward (txs ! first_reaching txs (unat thr))) thrs"
  using assms
proof (induction thrs arbitrary: i s)
  case (Cons thr thrs)
  obtain j s' where a: "advance txs thr i s = (j, s')" "j = first_reaching txs (unat thr)" "j < length txs"
      "unat s' = gas_of_first txs (Suc j)" "\<forall>k < j. gas_of_first txs (Suc k) < unat thr"
    using advance_spec [OF Cons.prems(1,2,3), of thr] Cons.prems(4) by auto
  have "\<forall>t \<in> set thrs. \<forall>k < j. gas_of_first txs (Suc k) < unat t"
    using a(5) Cons.prems(5) by (auto simp: word_le_nat_alt intro: less_le_trans)
  with Cons.IH [OF a(3) Cons.prems(2) a(4)] Cons.prems(5) a show ?case by simp
qed simp

text \<open>
  C13: the single pass over the sorted transactions answers every percentile as a search of its own would:
  with increasing thresholds and a block whose gas fits in 64 bits, the reward of a percentile is that of
  the first transaction at which the cumulative gas reaches the threshold, or of the last transaction.
\<close>

theorem rewards_are_percentiles:
  assumes "fh_sortedTxs d = map Some txs" and "txs \<noteq> []"
    and "gas_of_first txs (length txs) < 2 ^ 64" and "sorted (map (threshold_gas oob d) ps)"
  shows "rewards oob d ps = Ok (map (\<lambda>p. tgr_reward (txs ! first_reaching txs (unat (threshold_gas oob d p)))) ps)"
proof -
  have s: "unat (tgr_gasUsed (txs ! 0)) = gas_of_first txs (Suc 0)"
    using assms(2) by (cases txs) (simp_all add: gas_of_first_def)
  have "rewards_loop txs 0 (tgr_gasUsed (txs ! 0)) (map (threshold_gas oob d) ps) =
      map (\<lambda>thr. tgr_reward (txs ! first_reaching txs (unat thr))) (map (threshold_gas oob d) ps)"
    using assms(2) by (intro rewards_loop_spec assms(3,4) s) simp_all
  with assms(1,2) show ?thesis by (auto simp: rewards_def Let_def comp_def)
qed

definition example_fees :: feeHistoryBlockData where
  "example_fees = \<lparr>fh_height = 7, fh_baseFee = 5, fh_gasUsedRatio = Fin 0, fh_gasUsed = 4,
     fh_sortedTxs = [Some \<lparr>tgr_gasUsed = 1, tgr_reward = 10\<rparr>, Some \<lparr>tgr_gasUsed = 3, tgr_reward = 20\<rparr>]\<rparr>"

lemma example_thresholds:
  "threshold_gas (\<lambda>_. 0) example_fees (Fin 25) = 1" "threshold_gas (\<lambda>_. 0) example_fees (Fin 75) = 3"
  by (simp_all add: threshold_gas_def example_fees_def f_of_u64_def u64_of_f_def)

theorem rewards_are_percentiles_witness: "rewards (\<lambda>_. 0) example_fees [Fin 25, Fin 75] = Ok [10, 20]"
proof -
  let ?txs = "[\<lparr>tgr_gasUsed = 1, tgr_reward = 10\<rparr>, \<lparr>tgr_gasUsed = 3, tgr_reward = 20\<rparr>] :: txGasAndReward list"
  note t = example_thresholds
  have "rewards (\<lambda>_. 0) example_fees [Fin 25, Fin 75] =
      Ok (map (\<lambda>p. tgr_reward (?txs ! first_reaching ?txs (unat (threshold_gas (\<lambda>_. 0) example_fees p)))) [Fin 25, Fin 75])"
    by (rule rewards_are_percentiles) (simp_all add: example_fees_def gas_of_first_def t [unfolded example_fees_def])
  then show ?thesis by (simp add: t first_reaching_def gas_of_first_def)
qed

subsection \<open>Blocks announced by the index backend\<close>

lemma block_models_parallel:
  assumes "block_models x oblk items params = Ok ((blk, txs, rcs, ls), median)"
  shows "list_all2 (\<lambda>tx rc. rc_Status rc = tx_Status tx) txs rcs \<and> blk_Round blk = ob_Round oblk
    \<and> hdr_BaseFee (blk_Header blk) = big_String (min_gas_price_of params)
    \<and> (\<forall>tx \<in> set txs. \<exists>cap tip. tx_GasFeeCap tx = big_String cap \<and> tx_GasTipCap tx = big_String tip)"
proof -
  obtain d where "decode_txs x oblk items = Ok d" and bm: "blockToModels x oblk (d_ethTxs d) (d_logs d) (d_status d) (d_gas d) (d_results d)
      (gas_limit_of params) (min_gas_price_of params) = Ok (blk, txs, rcs, ls)"
    using assms by (auto simp: block_models_def split: outcome.splits)
  obtain dl tls where "ethToModelLogs x (d_logs d) = (dl, tls)" by (cases "ethToModelLogs x (d_logs d)")
  with bm obtain bh bl c where ml: "models_loop x bh (ob_Round oblk) tls bl 0 0 (d_ethTxs d) (d_status d) (d_gas d) (d_results d)
      = Ok (txs, rcs, c)" and b: "blk_Round blk = ob_Round oblk" "hdr_BaseFee (blk_Header blk) = big_String (min_gas_price_of params)"
    by (auto simp: blockToModels_def Let_def model_header_def split: outcome.splits prod.splits)
  note spec = models_loop_spec [OF ml]
  have "rc_Status (rcs ! k) = tx_Status (txs ! k)" if "k < length txs" for k
  proof -
    from spec that obtain addr where "rcs ! k = (model_receipt x (txs ! k) (get_logs_of tls (tx_Hash (txs ! k))) bl
        (0 + sum_list (map tg_used (take (Suc k) (d_gas d)))) (0 + k) (d_gas d ! k))\<lparr>rc_ContractAddress := addr\<rparr>" by auto
    then show ?thesis by (simp add: model_receipt_def)
  qed
  moreover have "\<exists>cap tip. tx_GasFeeCap tx = big_String cap \<and> tx_GasTipCap tx = big_String tip" if "tx \<in> set txs" for tx
  proof -
    from that obtain k where k: "k < length txs" "tx = txs ! k" by (metis in_set_conv_nth)
    with spec have "tx = model_tx x bh (ob_Round oblk) (0 + k) (d_ethTxs d ! k) (d_status d ! k)" by metis
    then show ?thesis by (auto simp: model_tx_def Let_def)
  qed
  ultimately show ?thesis using spec b by (auto simp: list_all2_conv_all_nth)
qed

lemma unfailed_parallel:
  "list_all2 (\<lambda>tx rc. rc_Status rc = tx_Status tx) txs rcs \<Longrightarrow>
     length (unfailed_txs x txs) = length (unfailed_receipts x rcs)"
  by (induction rule: list_all2_induct) (simp_all add: unfailed_txs_def unfailed_receipts_def)

lemma fill_txs_parses:
  assumes "length txs = length rcs"
    and "\<forall>tx \<in> set txs. \<exists>cap tip. tx_GasFeeCap tx = big_String cap \<and> tx_GasTipCap tx = big_String tip"
  shows "\<exists>f. fill_txs txs rcs = Ok (Some f) \<and> length f = length rcs \<and> map tgr_gasUsed f = map rc_GasUsed rcs"
  using assms by (induction txs rcs rule: list_induct2) auto



text \<open>
  C34: the swallowed lookup error reaches the oracle: when the database fails at the lookup of the
  receipt of a block with one transaction, \<open>Index\<close> succeeds and broadcasts a transaction
  without its receipt, on which the oracle's watcher panics.
\<close>

theorem receipt_lookup_failure_crashes_oracle:
  assumes m: "block_models x oblk items params = Ok ((blk, [tx], [rc], ls), median)"
    and nf: "tx_Status tx \<noteq> ReceiptStatusFailed x" and e: "\<not> errors_Is e ErrNoRows"
    and empty: "committed (ib_storage ib) = empty_tables"
    and flt: "faults (ib_storage ib) = [None, None, None, Some e, None]" and no: "ib_observer ib = None"
  shows "\<exists>ib' bd g'. Index x on_block oblk items params rtInfo ib = (Ok (), ib')
    \<and> ib_blockNotifier ib' = ib_blockNotifier ib @ [bd]
    \<and> on_watched_block bd g = (Panic ''index out of range'', g')"
proof -
  note par = block_models_parallel [OF m]
  then have rs: "rc_Status rc \<noteq> ReceiptStatusFailed x" using nf by simp
  have "\<exists>db'. RunInTransaction Pool (store_models x blk [tx] [rc] ls) (ib_storage ib) = (Ok ([tx], []), db')"
    using flt nf rs e empty
    by (simp add: RunInTransaction_def next_fault_def close_tx_def store_models_def store_tx_def GetTransaction_def
        query_row_def query_def statement_def abort_tx_def ret_def commit_tx_def store_receipt_def GetTransactionReceipt_def
        visible_def empty_tables_def upsert_tx_def insertSingle_def exec_stmt_def)
  then obtain db' where "RunInTransaction Pool (store_models x blk [tx] [rc] ls) (ib_storage ib) = (Ok ([tx], []), db')" by blast
  with m no have i: "\<exists>ib'. Index x on_block oblk items params rtInfo ib = (Ok (), ib') \<and> ib_blockNotifier ib' = ib_blockNotifier ib @
      [\<lparr>bd_Block = blk, bd_Receipts = [], bd_UniqueTxes = [tx], bd_Median = median\<rparr>]"
    by (simp add: Index_def StoreBlockData_def publish_def Let_def split: option.split)
  have "\<exists>g'. on_watched_block \<lparr>bd_Block = blk, bd_Receipts = [], bd_UniqueTxes = [tx], bd_Median = median\<rparr> g =
      (Panic ''index out of range'', g')"
    using par by (auto simp: on_watched_block_def trackFeeHistory_def)
  with i show ?thesis by blast
qed

theorem receipt_lookup_failure_crashes_oracle_witness:
  "\<exists>ib' bd g'. Index example_ext no_observer example_block [example_item [1] True] None None
       (example_ib\<lparr>ib_storage := example_db\<lparr>faults := [None, None, None, Some (ErrExt ''timeout''), None]\<rparr>\<rparr>) = (Ok (), ib')
     \<and> ib_blockNotifier ib' = [bd] \<and> on_watched_block bd (NewOracle None) = (Panic ''index out of range'', g')"
proof -
  let ?ib = "example_ib\<lparr>ib_storage := example_db\<lparr>faults := [None, None, None, Some (ErrExt ''timeout''), None]\<rparr>\<rparr>"
  obtain blk tx rc where m: "block_models example_ext example_block [example_item [1] True] None = Ok ((blk, [tx], [rc], []), Some 7)"
    and st: "tx_Status tx = 1"
    using example_block_models by blast
  have nf: "tx_Status tx \<noteq> ReceiptStatusFailed example_ext" using st by (simp add: example_ext_def)
  have e: "\<not> errors_Is (ErrExt ''timeout'') ErrNoRows" by simp
  have ib: "committed (ib_storage ?ib) = empty_tables" "faults (ib_storage ?ib) = [None, None, None, Some (ErrExt ''timeout''), None]"
    "ib_observer ?ib = None" "ib_blockNotifier ?ib = []"
    by (simp_all add: example_ib_def NewIndexBackend_def example_db_def)
  from receipt_lookup_failure_crashes_oracle [OF m nf e ib(1-3), of no_observer None "NewOracle None"] ib(4) show ?thesis by simp
qed

end
