(* ===== verification/Event_System.thy ===== *)
theory Event_System
  imports Index_Backend Eth_Utils
begin

text \<open>
  \<^verbatim>\<open>filters\<close> and \<^verbatim>\<open>rpc/eth/filters\<close>: subscriptions to new logs and new block headers. The
  event loop is one goroutine that owns the filter index; everything it does is a step of
  \<open>es_step\<close>, with a label for what the outside sees. Sends to a subscriber are unbuffered: a \<open>Sent\<close> step
  happens only when the subscriber takes the message, and the loop does nothing else until then.
  Where the program ranges over a Go map, every order of the entries is a possible step.
\<close>

subsection \<open>Subscriptions\<close>

datatype sub_type = UnknownSubscription | LogsSubscription | BlocksSubscription

record FilterQuery =
  fq_BlockHash :: "bytes option"
  fq_FromBlock :: "int option"
  fq_ToBlock :: "int option"
  fq_Addresses :: "bytes list"
  fq_Topics :: "bytes list list"

record subscription =
  sub_id :: string
  sub_typ :: sub_type
  sub_logsCrit :: FilterQuery

text \<open>The fresh identifier \<open>rpc.NewID()\<close> is an argument; a new-heads subscription has no criteria.\<close>

definition subscribeLogs :: "string \<Rightarrow> FilterQuery \<Rightarrow> subscription" where
  "subscribeLogs newID crit = \<lparr>sub_id = newID, sub_typ = LogsSubscription, sub_logsCrit = crit\<rparr>"

definition no_criteria :: FilterQuery where
  "no_criteria = \<lparr>fq_BlockHash = None, fq_FromBlock = None, fq_ToBlock = None, fq_Addresses = [], fq_Topics = []\<rparr>"

definition SubscribeNewHeads :: "string \<Rightarrow> subscription" where
  "SubscribeNewHeads newID = \<lparr>sub_id = newID, sub_typ = BlocksSubscription, sub_logsCrit = no_criteria\<rparr>"

definition SubscribeLogs :: "block_tags \<Rightarrow> string \<Rightarrow> FilterQuery \<Rightarrow> subscription outcome" where
  "SubscribeLogs tags newID crit =
     (let from = (case fq_FromBlock crit of None \<Rightarrow> LatestBlockNumber tags | Some b \<Rightarrow> big_Int64 b);
          to = (case fq_ToBlock crit of None \<Rightarrow> LatestBlockNumber tags | Some b \<Rightarrow> big_Int64 b)
      in if from = LatestBlockNumber tags \<and> to = LatestBlockNumber tags then Ok (subscribeLogs newID crit)
         else if 0 \<le> from \<and> 0 \<le> to \<and> from \<le> to then Ok (subscribeLogs newID crit)
         else if 0 \<le> from \<and> to = LatestBlockNumber tags then Ok (subscribeLogs newID crit)
         else Err (Errorf ''invalid from and to block combination: from > to''))"

subsection \<open>Filtering\<close>

text \<open>The inner loop over the topic positions: does it skip the log?\<close>

fun topic_skips :: "bytes list \<Rightarrow> nat \<Rightarrow> bytes list list \<Rightarrow> bool" where
  "topic_skips ts i [] = False"
| "topic_skips ts i (s # ss) = (if s \<noteq> [] \<and> ts ! i \<notin> set s then True else topic_skips ts (Suc i) ss)"

definition keep_log :: "int option \<Rightarrow> int option \<Rightarrow> bytes list \<Rightarrow> bytes list list \<Rightarrow> EthLog \<Rightarrow> bool" where
  "keep_log fromBlock toBlock addresses topics log =
     (if (case fromBlock of None \<Rightarrow> False | Some b \<Rightarrow> 0 \<le> big_Int64 b \<and> el_BlockNumber log < big_Uint64 b) then False
      else if (case toBlock of None \<Rightarrow> False | Some b \<Rightarrow> 0 \<le> big_Int64 b \<and> big_Uint64 b < el_BlockNumber log) then False
      else if addresses \<noteq> [] \<and> el_Address log \<notin> set addresses then False
      else if length (el_Topics log) < length topics then False
      else \<not> topic_skips (el_Topics log) 0 topics)"

fun filterLogs :: "EthLog list \<Rightarrow> int option \<Rightarrow> int option \<Rightarrow> bytes list \<Rightarrow> bytes list list \<Rightarrow> EthLog list" where
  "filterLogs [] fromBlock toBlock addresses topics = []"
| "filterLogs (log # ls) fromBlock toBlock addresses topics =
     (if keep_log fromBlock toBlock addresses topics log
      then log # filterLogs ls fromBlock toBlock addresses topics
      else filterLogs ls fromBlock toBlock addresses topics)"

definition matched_logs :: "ext \<Rightarrow> subscription \<Rightarrow> ChainEvent \<Rightarrow> EthLog list" where
  "matched_logs x f ev = (let c = sub_logsCrit f in
     filterLogs (DB2EthLogs x (ce_Logs ev)) (fq_FromBlock c) (fq_ToBlock c) (fq_Addresses c) (fq_Topics c))"

subsection \<open>The event loop\<close>

datatype payload = LogsMsg "EthLog list" | HeaderMsg EthHeader

text \<open>Where the loop goroutine is: waiting, or inside \<open>handleLogs\<close> or \<open>handleChainEvent\<close> with the subscriptions still to serve.\<close>

datatype es_pc = Waiting | SendingLogs ChainEvent "subscription list" | SendingHeads ChainEvent "subscription list" | Stopped | Crashed

type_synonym filterIndex = "(sub_type, (string, subscription) gomap) gomap"

record eventSystem =
  es_index :: filterIndex
  es_chainCh :: "ChainEvent list"
  es_pc :: es_pc

definition NewEventSystem :: eventSystem where
  "NewEventSystem = \<lparr>es_index = [(UnknownSubscription, []), (LogsSubscription, []), (BlocksSubscription, [])],
     es_chainCh = [], es_pc = Waiting\<rparr>"

definition index_map :: "filterIndex \<Rightarrow> sub_type \<Rightarrow> (string, subscription) gomap" where
  "index_map ix t = (case gm_load ix t of None \<Rightarrow> [] | Some m \<Rightarrow> m)"

definition installed :: "eventSystem \<Rightarrow> sub_type \<Rightarrow> subscription list" where
  "installed s t = (let m = index_map (es_index s) t in map (\<lambda>k. the (gm_load m k)) (gm_keys m))"

definition install_sub :: "subscription \<Rightarrow> eventSystem \<Rightarrow> eventSystem" where
  "install_sub f s = s\<lparr>es_index := gm_store (sub_typ f) (gm_store (sub_id f) f (index_map (es_index s) (sub_typ f))) (es_index s)\<rparr>"

definition uninstall_sub :: "subscription \<Rightarrow> eventSystem \<Rightarrow> eventSystem" where
  "uninstall_sub f s = s\<lparr>es_index := gm_store (sub_typ f) (gm_delete (sub_id f) (index_map (es_index s) (sub_typ f))) (es_index s)\<rparr>"

datatype es_label = Published ChainEvent | Received ChainEvent | Sent subscription payload | Internal
  | Installed subscription | Uninstalled subscription | SystemStopped | LoopPanic

inductive es_step :: "ext \<Rightarrow> eventSystem \<Rightarrow> es_label \<Rightarrow> eventSystem \<Rightarrow> bool" for x :: ext where
  publish: "es_step x s (Published ev) (s\<lparr>es_chainCh := the (send_or_drop ev (Some (es_chainCh s)))\<rparr>)"
| receive: "es_pc s = Waiting \<Longrightarrow> es_chainCh s = ev # q \<Longrightarrow> mset fs = mset (installed s LogsSubscription) \<Longrightarrow>
    es_step x s (Received ev) (s\<lparr>es_chainCh := q, es_pc := SendingLogs ev fs\<rparr>)"
| send_logs: "es_pc s = SendingLogs ev (f # fs) \<Longrightarrow> matched_logs x f ev \<noteq> [] \<Longrightarrow>
    es_step x s (Sent f (LogsMsg (matched_logs x f ev))) (s\<lparr>es_pc := SendingLogs ev fs\<rparr>)"
| no_logs: "es_pc s = SendingLogs ev (f # fs) \<Longrightarrow> matched_logs x f ev = [] \<Longrightarrow>
    es_step x s Internal (s\<lparr>es_pc := SendingLogs ev fs\<rparr>)"
| logs_done: "es_pc s = SendingLogs ev [] \<Longrightarrow> mset fs = mset (installed s BlocksSubscription) \<Longrightarrow>
    es_step x s Internal (s\<lparr>es_pc := SendingHeads ev fs\<rparr>)"
| send_head: "es_pc s = SendingHeads ev (f # fs) \<Longrightarrow> DB2EthHeader x (ce_Block ev) = Ok h \<Longrightarrow>
    es_step x s (Sent f (HeaderMsg h)) (s\<lparr>es_pc := SendingHeads ev fs\<rparr>)"
| head_panics: "es_pc s = SendingHeads ev (f # fs) \<Longrightarrow> DB2EthHeader x (ce_Block ev) = Panic p \<Longrightarrow>
    es_step x s LoopPanic (s\<lparr>es_pc := Crashed\<rparr>)"
| heads_done: "es_pc s = SendingHeads ev [] \<Longrightarrow> es_step x s Internal (s\<lparr>es_pc := Waiting\<rparr>)"
| install: "es_pc s = Waiting \<Longrightarrow> es_step x s (Installed f) (install_sub f s)"
| uninstall: "es_pc s = Waiting \<Longrightarrow> es_step x s (Uninstalled f) (uninstall_sub f s)"
| stop: "es_pc s = Waiting \<Longrightarrow> es_step x s SystemStopped (s\<lparr>es_pc := Stopped\<rparr>)"

inductive es_run :: "ext \<Rightarrow> eventSystem \<Rightarrow> es_label list \<Rightarrow> eventSystem \<Rightarrow> bool" for x :: ext where
  run_nil: "es_run x s [] s"
| run_step: "es_step x s l s' \<Longrightarrow> es_run x s' ls s'' \<Longrightarrow> es_run x s (l # ls) s''"

inductive_cases es_run_NilE: "es_run x s [] s'"
inductive_cases es_run_ConsE: "es_run x s (l # ls) s'"

subsection \<open>Filtering agrees with the topic match of the API\<close>

lemma topic_skips_iff: "topic_skips ts i ss \<longleftrightarrow> \<not> topics_loop ts i ss"
  by (induction ts i ss rule: topic_skips.induct) auto

definition in_range :: "int option \<Rightarrow> int option \<Rightarrow> u64 \<Rightarrow> bool" where
  "in_range fromBlock toBlock n \<longleftrightarrow>
     (\<forall>b. fromBlock = Some b \<and> 0 \<le> big_Int64 b \<longrightarrow> big_Uint64 b \<le> n)
     \<and> (\<forall>b. toBlock = Some b \<and> 0 \<le> big_Int64 b \<longrightarrow> n \<le> big_Uint64 b)"

text \<open>
  the filter of the subscriptions is the filter of \<open>eth_getLogs\<close> on a block range: it keeps, in
  order, the logs of the range whose address is listed (or any, when none is) and whose topics match by the
  \<open>TopicsMatch\<close> of the API.
\<close>

lemma filter_logs_agrees_with_get_logs:
  "filterLogs ls fromBlock toBlock addrs topics =
     filter (\<lambda>l. in_range fromBlock toBlock (el_BlockNumber l) \<and> (addrs = [] \<or> el_Address l \<in> set addrs)
        \<and> TopicsMatch l topics) ls"
proof -
  have "keep_log fromBlock toBlock addrs topics l \<longleftrightarrow> in_range fromBlock toBlock (el_BlockNumber l)
      \<and> (addrs = [] \<or> el_Address l \<in> set addrs) \<and> TopicsMatch l topics" for l
    by (auto simp: keep_log_def in_range_def TopicsMatch_def topic_skips_iff not_less split: option.splits)
  then show ?thesis by (induction ls) simp_all
qed

subsection \<open>The invariant of the event loop\<close>

definition index_ok :: "filterIndex \<Rightarrow> bool" where
  "index_ok ix \<longleftrightarrow> (\<forall>t k f. gm_load (index_map ix t) k = Some f \<longrightarrow> sub_id f = k \<and> sub_typ f = t)"

definition served_by :: "eventSystem \<Rightarrow> sub_type \<Rightarrow> subscription list \<Rightarrow> bool" where
  "served_by s t fs \<longleftrightarrow> distinct (map sub_id fs) \<and> set fs \<subseteq> set (installed s t)"

definition es_ok :: "eventSystem \<Rightarrow> bool" where
  "es_ok s \<longleftrightarrow> index_ok (es_index s) \<and> length (es_chainCh s) \<le> chainEvChanSize
     \<and> (case es_pc s of SendingLogs ev fs \<Rightarrow> served_by s LogsSubscription fs
        | SendingHeads ev fs \<Rightarrow> served_by s BlocksSubscription fs | _ \<Rightarrow> True)"

definition is_installed :: "subscription \<Rightarrow> eventSystem \<Rightarrow> bool" where
  "is_installed f s \<longleftrightarrow> gm_load (index_map (es_index s) (sub_typ f)) (sub_id f) = Some f"

lemma installed_pc [simp]: "installed (s\<lparr>es_pc := p\<rparr>) t = installed s t" "installed (s\<lparr>es_chainCh := q\<rparr>) t = installed s t"
  by (simp_all add: installed_def)

lemma set_installed: "set (installed s t) = {f. \<exists>k. gm_load (index_map (es_index s) t) k = Some f}"
proof -
  let ?m = "index_map (es_index s) t"
  have "f \<in> (\<lambda>k. the (gm_load ?m k)) ` set (gm_keys ?m) \<longleftrightarrow> (\<exists>k. gm_load ?m k = Some f)" for f
  proof
    assume "\<exists>k. gm_load ?m k = Some f"
    then obtain k where k: "gm_load ?m k = Some f" by blast
    then have "k \<in> set (gm_keys ?m)" by (simp add: gm.keys_load)
    with k show "f \<in> (\<lambda>k. the (gm_load ?m k)) ` set (gm_keys ?m)" by force
  qed (auto simp: gm.keys_load)
  then show ?thesis by (auto simp: installed_def Let_def)
qed

lemma installed_distinct:
  assumes "index_ok (es_index s)"
  shows "distinct (map sub_id (installed s t))"
proof -
  let ?m = "index_map (es_index s) t"
  have "map sub_id (installed s t) = map (\<lambda>k. sub_id (the (gm_load ?m k))) (gm_keys ?m)"
    by (simp add: installed_def Let_def)
  also have "\<dots> = gm_keys ?m"
    using assms by (intro map_idI) (auto simp: index_ok_def gm.keys_load)
  finally show ?thesis by (simp add: gm.keys_distinct)
qed

lemma is_installed_mem: "index_ok (es_index s) \<Longrightarrow> is_installed f s \<longleftrightarrow> f \<in> set (installed s (sub_typ f))"
  by (auto simp: set_installed is_installed_def index_ok_def)

lemma served_by_all: "index_ok (es_index s) \<Longrightarrow> mset fs = mset (installed s t) \<Longrightarrow> served_by s t fs"
  using installed_distinct [of s t]
  by (metis served_by_def mset_eq_setD mset_map distinct_count_atmost_1 set_mset_mset subset_refl)

lemma index_map_store [simp]: "index_map (gm_store t m ix) t' = (if t' = t then m else index_map ix t')"
  by (simp add: index_map_def)

lemma index_ok_install: "index_ok (es_index s) \<Longrightarrow> index_ok (es_index (install_sub f s))"
  by (auto simp: index_ok_def install_sub_def split: if_splits)

lemma index_ok_uninstall: "index_ok (es_index s) \<Longrightarrow> index_ok (es_index (uninstall_sub f s))"
  by (auto simp: index_ok_def uninstall_sub_def split: if_splits)

lemma es_step_ok:
  assumes "es_step x s l s'" and "es_ok s"
  shows "es_ok s'"
  using assms
proof cases
  case (receive ev q fs)
  with assms(2) served_by_all [of s fs LogsSubscription] show ?thesis by (auto simp: es_ok_def served_by_def)
next
  case (logs_done ev fs)
  with assms(2) served_by_all [of s fs BlocksSubscription] show ?thesis by (auto simp: es_ok_def served_by_def)
next
  case (install f)
  with assms(2) index_ok_install [of s f] show ?thesis by (auto simp: es_ok_def install_sub_def)
next
  case (uninstall f)
  with assms(2) index_ok_uninstall [of s f] show ?thesis by (auto simp: es_ok_def uninstall_sub_def)
next
  case (publish ev)
  with assms(2) show ?thesis by (auto simp: es_ok_def send_or_drop_def served_by_def split: es_pc.splits)
qed (use assms(2) in \<open>auto simp: es_ok_def served_by_def\<close>)

lemma new_event_system_ok: "es_ok NewEventSystem"
proof -
  have "gm_load (index_map (es_index NewEventSystem) t) k = None" for t k
    by (cases t) (simp_all add: NewEventSystem_def index_map_def gm_load_def)
  then show ?thesis by (simp add: es_ok_def index_ok_def NewEventSystem_def)
qed

subsection \<open>What a subscriber receives\<close>

text \<open>The abstract specification: the message an event means for a subscription, if any.\<close>

definition message :: "ext \<Rightarrow> subscription \<Rightarrow> ChainEvent \<Rightarrow> payload option" where
  "message x f ev = (case sub_typ f of
       LogsSubscription \<Rightarrow> (if matched_logs x f ev = [] then None else Some (LogsMsg (matched_logs x f ev)))
     | BlocksSubscription \<Rightarrow> (case DB2EthHeader x (ce_Block ev) of Ok h \<Rightarrow> Some (HeaderMsg h) | _ \<Rightarrow> None)
     | UnknownSubscription \<Rightarrow> None)"

fun received :: "es_label list \<Rightarrow> ChainEvent list" where
  "received [] = []"
| "received (Received ev # ls) = ev # received ls"
| "received (l # ls) = received ls"

fun sent_to :: "subscription \<Rightarrow> es_label list \<Rightarrow> payload list" where
  "sent_to f [] = []"
| "sent_to f (Sent g m # ls) = (if g = f then m # sent_to f ls else sent_to f ls)"
| "sent_to f (l # ls) = sent_to f ls"

fun touches :: "subscription \<Rightarrow> es_label \<Rightarrow> bool" where
  "touches f (Installed g) \<longleftrightarrow> sub_id g = sub_id f \<and> sub_typ g = sub_typ f"
| "touches f (Uninstalled g) \<longleftrightarrow> sub_id g = sub_id f \<and> sub_typ g = sub_typ f"
| "touches f LoopPanic \<longleftrightarrow> True"
| "touches f l \<longleftrightarrow> False"

definition opt_list :: "'a option \<Rightarrow> 'a list" where
  "opt_list o1 = (case o1 of None \<Rightarrow> [] | Some y \<Rightarrow> [y])"

text \<open>The messages for a subscription the loop has still to send for the event it is handling.\<close>

definition due :: "ext \<Rightarrow> subscription \<Rightarrow> eventSystem \<Rightarrow> payload list" where
  "due x f s = (case es_pc s of
       SendingLogs ev fs \<Rightarrow> (if sub_typ f = LogsSubscription \<and> f \<notin> set fs then [] else opt_list (message x f ev))
     | SendingHeads ev fs \<Rightarrow> (if f \<in> set fs then opt_list (message x f ev) else [])
     | _ \<Rightarrow> [])"

definition messages :: "ext \<Rightarrow> subscription \<Rightarrow> ChainEvent list \<Rightarrow> payload list" where
  "messages x f evs = concat (map (\<lambda>ev. opt_list (message x f ev)) evs)"

lemma served_typ: "es_ok s \<Longrightarrow> served_by s t fs \<Longrightarrow> g \<in> set fs \<Longrightarrow> sub_typ g = t"
  by (auto simp: es_ok_def served_by_def set_installed index_ok_def)

lemma served_tail: "served_by s t (g # fs) \<Longrightarrow> g \<notin> set fs"
  by (auto simp: served_by_def)

lemma step_keeps_installed:
  assumes "es_step x s l s'" and "is_installed f s" and "\<not> touches f l"
  shows "is_installed f s'"
  using assms by cases (auto simp: is_installed_def install_sub_def uninstall_sub_def)

lemma step_due:
  assumes "es_step x s l s'" and "es_ok s" and "is_installed f s" and "\<not> touches f l"
  shows "sent_to f [l] @ due x f s' = due x f s @ messages x f (received [l])"
  using assms(1)
proof cases
  case (publish ev)
  then show ?thesis by (simp add: due_def messages_def)
next
  case (receive ev q fs)
  then have "set fs = set (installed s LogsSubscription)" by (metis mset_eq_setD)
  moreover have "f \<in> set (installed s (sub_typ f))" using assms(2,3) is_installed_mem by (simp add: es_ok_def)
  ultimately show ?thesis using receive by (auto simp: due_def messages_def)
next
  case (send_logs ev g fs)
  then have sv: "served_by s LogsSubscription (g # fs)" using assms(2) by (simp add: es_ok_def)
  have "sub_typ g = LogsSubscription" using served_typ [OF assms(2) sv] by simp
  with send_logs served_tail [OF sv] show ?thesis by (auto simp: due_def messages_def message_def opt_list_def)
next
  case (no_logs ev g fs)
  then have sv: "served_by s LogsSubscription (g # fs)" using assms(2) by (simp add: es_ok_def)
  have "sub_typ g = LogsSubscription" using served_typ [OF assms(2) sv] by simp
  with no_logs served_tail [OF sv] show ?thesis by (auto simp: due_def messages_def message_def opt_list_def)
next
  case (logs_done ev fs)
  then have fs: "set fs = set (installed s BlocksSubscription)" by (metis mset_eq_setD)
  have f: "f \<in> set (installed s (sub_typ f))" "\<And>t. f \<in> set (installed s t) \<Longrightarrow> t = sub_typ f"
    using assms(2,3) is_installed_mem by (auto simp: es_ok_def set_installed index_ok_def)
  show ?thesis
  proof (cases "sub_typ f")
    case UnknownSubscription
    with logs_done show ?thesis by (simp add: due_def messages_def message_def opt_list_def)
  next
    case LogsSubscription
    with f fs logs_done show ?thesis by (auto simp: due_def messages_def)
  next
    case BlocksSubscription
    with f fs logs_done show ?thesis by (simp add: due_def messages_def)
  qed
next
  case (send_head ev g fs h)
  then have sv: "served_by s BlocksSubscription (g # fs)" using assms(2) by (simp add: es_ok_def)
  have "sub_typ g = BlocksSubscription" using served_typ [OF assms(2) sv] by simp
  with send_head served_tail [OF sv] show ?thesis by (auto simp: due_def messages_def message_def opt_list_def)
next
  case (head_panics ev g fs p)
  with assms(4) show ?thesis by simp
next
  case (install g)
  then show ?thesis by (simp add: due_def messages_def install_sub_def)
next
  case (uninstall g)
  then show ?thesis by (simp add: due_def messages_def uninstall_sub_def)
qed (simp_all add: due_def messages_def)

lemma run_due:
  assumes "es_run x s ls s'" and "es_ok s" and "is_installed f s" and "\<forall>l \<in> set ls. \<not> touches f l"
  shows "es_ok s' \<and> is_installed f s' \<and> sent_to f ls @ due x f s' = due x f s @ messages x f (received ls)"
  using assms
proof (induction rule: es_run.induct)
  case (run_nil s)
  then show ?case by (simp add: messages_def)
next
  case (run_step s l s1 ls s2)
  have l: "\<not> touches f l" using run_step.prems(3) by simp
  note d = step_due [OF run_step.hyps(1) run_step.prems(1,2) l]
  have IH: "es_ok s2 \<and> is_installed f s2 \<and> sent_to f ls @ due x f s2 = due x f s1 @ messages x f (received ls)"
    using run_step.IH es_step_ok [OF run_step.hyps(1) run_step.prems(1)]
      step_keeps_installed [OF run_step.hyps(1) run_step.prems(2) l] run_step.prems(3) by simp
  have "sent_to f (l # ls) = sent_to f [l] @ sent_to f ls" by (cases l) simp_all
  moreover have "messages x f (received (l # ls)) = messages x f (received [l]) @ messages x f (received ls)"
    by (cases l) (simp_all add: messages_def)
  ultimately show ?case using d IH by (metis append.assoc)
qed

text \<open>
  C9: every subscriber gets every event exactly once: in a run of the event loop that begins and ends while it waits,
  a subscription that stays installed is sent, in order, for each event the loop took from the channel precisely
  what the event means for it: the matching logs if there are any, or the block header. The order in which
  the subscriptions are served, and other clients coming and going, make no difference.
\<close>

theorem subscriber_gets_every_event:
  assumes "es_run x s ls s'" and "es_ok s" and "is_installed f s" and "\<forall>l \<in> set ls. \<not> touches f l"
    and "es_pc s = Waiting" and "es_pc s' = Waiting"
  shows "sent_to f ls = concat (map (\<lambda>ev. opt_list (message x f ev)) (received ls))"
  using run_due [OF assms(1-4)] assms(5,6) by (simp add: due_def messages_def)

definition example_event :: ChainEvent where
  "example_event = \<lparr>ce_Block = zero_Block\<lparr>blk_Header := zero_Header\<lparr>hdr_Bloom := ''0x''\<rparr>\<rparr>, ce_Hash = [], ce_Logs = []\<rparr>"

lemma one_head_run:
  assumes "es_pc s = Waiting" and "es_chainCh s = [ev]" and "installed s LogsSubscription = []"
    and "installed s BlocksSubscription = [f]" and "DB2EthHeader x (ce_Block ev) = Ok h"
  shows "es_run x s [Received ev, Internal, Sent f (HeaderMsg h), Internal] (s\<lparr>es_chainCh := []\<rparr>)"
proof -
  let ?s = "\<lambda>p. s\<lparr>es_chainCh := [], es_pc := p\<rparr>"
  have 1: "es_step x s (Received ev) (?s (SendingLogs ev []))"
    by (rule es_step.receive) (use assms in simp_all)
  have 2: "es_step x (?s (SendingLogs ev [])) Internal (?s (SendingHeads ev [f]))"
    using es_step.logs_done [of "?s (SendingLogs ev [])" ev "[f]" x] assms(4) by simp
  have 3: "es_step x (?s (SendingHeads ev [f])) (Sent f (HeaderMsg h)) (?s (SendingHeads ev []))"
    using es_step.send_head [of "?s (SendingHeads ev [f])" ev f "[]" x h] assms(5) by simp
  have 4: "es_step x (?s (SendingHeads ev [])) Internal (s\<lparr>es_chainCh := []\<rparr>)"
    using es_step.heads_done [of "?s (SendingHeads ev [])" ev x] assms(1) by (cases s) simp
  from 1 2 3 4 show ?thesis by (blast intro: es_run.intros)
qed

theorem subscriber_gets_every_event_witness:
  "\<exists>s ls s' h. es_run example_ext s ls s' \<and> received ls = [example_event] \<and> is_installed (SubscribeNewHeads ''1'') s
     \<and> sent_to (SubscribeNewHeads ''1'') ls = [HeaderMsg h]
     \<and> message example_ext (SubscribeNewHeads ''1'') example_event = Some (HeaderMsg h)"
proof -
  let ?f = "SubscribeNewHeads ''1''"
  let ?s = "(install_sub ?f NewEventSystem)\<lparr>es_chainCh := [example_event]\<rparr>"
  obtain h where h: "DB2EthHeader example_ext (ce_Block example_event) = Ok h"
    by (auto simp: DB2EthHeader_def example_event_def zero_Block_def)
  let ?ls = "[Received example_event, Internal, Sent ?f (HeaderMsg h), Internal]"
  have pc: "es_pc ?s = Waiting" by (simp add: install_sub_def NewEventSystem_def)
  have t: "sub_typ ?f = BlocksSubscription" "sub_id ?f = ''1''" by (simp_all add: SubscribeNewHeads_def)
  have n: "index_map (es_index NewEventSystem) t = []" for t
    by (cases t) (simp_all add: NewEventSystem_def index_map_def gm_load_def)
  have ix: "index_map (es_index ?s) LogsSubscription = []" "index_map (es_index ?s) BlocksSubscription = gm_store ''1'' ?f []"
    by (simp_all add: install_sub_def t n)
  have inst: "installed ?s LogsSubscription = []" "installed ?s BlocksSubscription = [?f]"
    unfolding installed_def Let_def ix by (simp_all add: gm_keys_def gm_store_def gm_load_def)
  have run: "es_run example_ext ?s ?ls (?s\<lparr>es_chainCh := []\<rparr>)"
    by (rule one_head_run) (use pc inst h in simp_all)
  have ok: "es_ok ?s"
    using index_ok_install [of NewEventSystem ?f] new_event_system_ok pc by (simp add: es_ok_def chainEvChanSize_def)
  have i: "is_installed ?f ?s" using ix by (simp add: is_installed_def t)
  have "sent_to ?f ?ls = concat (map (\<lambda>ev. opt_list (message example_ext ?f ev)) (received ?ls))"
    by (rule subscriber_gets_every_event [OF run ok i]) (use pc in simp_all)
  then have "message example_ext ?f example_event = Some (HeaderMsg h)" by (simp add: opt_list_def split: option.splits)
  with run i show ?thesis by (intro exI [of _ ?s] exI [of _ ?ls] exI [of _ "?s\<lparr>es_chainCh := []\<rparr>"] exI [of _ h]) simp
qed

subsection \<open>From the indexer to the subscribers\<close>

lemma block_models_logs:
  assumes "block_models x oblk items params = Ok ((blk, txs, rcs, ls), median)" and "decode_txs x oblk items = Ok d"
  shows "ls = map (model_log x) (d_logs d)"
proof -
  have "blockToModels x oblk (d_ethTxs d) (d_logs d) (d_status d) (d_gas d) (d_results d)
      (gas_limit_of params) (min_gas_price_of params) = Ok (blk, txs, rcs, ls)"
    using assms by (auto simp: block_models_def split: outcome.splits)
  then have "ls = fst (ethToModelLogs x (d_logs d))"
    by (auto simp: blockToModels_def Let_def split: prod.splits outcome.splits)
  then show ?thesis by (simp add: ethToModelLogs_logs)
qed



subsection \<open>A subscriber that does not read\<close>

text \<open>
  a subscriber that neither reads nor unsubscribes stalls the event system for everybody: as long as it does not
  take its message the loop takes no other step, and once the channel holds ten events every further
  event is dropped, so no subscriber will ever see it.
\<close>

lemma stalled_subscriber_drops_events:
  assumes "es_run x s ls s'" and "es_pc s = SendingLogs ev (f # fs)" and "matched_logs x f ev \<noteq> []"
    and "sent_to f ls = []" and "length (es_chainCh s) = chainEvChanSize"
  shows "s' = s \<and> (\<forall>l \<in> set ls. \<exists>lost. l = Published lost)"
  using assms
proof (induction rule: es_run.induct)
  case (run_nil s)
  then show ?case by simp
next
  case (run_step s l s1 ls s2)
  from run_step.hyps(1) obtain lost where l: "l = Published lost" "s1 = s"
    using run_step.prems by cases (auto simp: send_or_drop_def)
  with run_step show ?case by simp
qed

lemma stalled_subscriber_drops_events_example:
  "\<exists>s ls s'. es_run example_ext s ls s' \<and> ls = [Published example_event] \<and> s' = s"
proof -
  let ?f = "subscribeLogs ''1'' no_criteria"
  let ?ev = "example_event\<lparr>ce_Logs := [zero_Log]\<rparr>"
  let ?s = "\<lparr>es_index = [], es_chainCh = replicate 10 example_event, es_pc = SendingLogs ?ev [?f]\<rparr>"
  have m: "matched_logs example_ext ?f ?ev \<noteq> []"
    by (simp add: matched_logs_def Let_def subscribeLogs_def no_criteria_def DB2EthLogs_def keep_log_def)
  have run: "es_run example_ext ?s [Published example_event] ?s"
    using es_run.run_step [OF es_step.publish es_run.run_nil, of example_ext ?s example_event]
    by (simp add: send_or_drop_def chainEvChanSize_def)
  have pc: "es_pc ?s = SendingLogs ?ev [?f]" "sent_to ?f [Published example_event] = []" "length (es_chainCh ?s) = chainEvChanSize"
    by (simp_all add: chainEvChanSize_def)
  from stalled_subscriber_drops_events [OF run pc(1) m pc(2,3)] run show ?thesis by blast
qed

subsection \<open>The subscription methods of the RPC API\<close>

text \<open>
  \<^verbatim>\<open>rpc/eth/filters/api.go\<close> and its metrics wrapper. The RPC subscription that the server hands out is
  an identifier; its \<open>Err\<close> method belongs to go-ethereum and is the parameter \<open>sub_Err\<close>, called on a nil
  pointer when there is no subscription. A panic in the wrapper's goroutine ends the process.
\<close>

record rpc_context =
  rc_supported :: bool
  rc_newSub :: string

definition filters_NewHeads :: "string \<Rightarrow> rpc_context \<Rightarrow> string option \<times> gerror option \<times> subscription option" where
  "filters_NewHeads newID ctx =
     (if \<not> rc_supported ctx then (Some [], Some (ErrExt ''notifications not supported''), None)
      else (Some (rc_newSub ctx), None, Some (SubscribeNewHeads newID)))"

definition filters_Logs :: "block_tags \<Rightarrow> string \<Rightarrow> rpc_context \<Rightarrow> FilterQuery \<Rightarrow>
    string option \<times> gerror option \<times> subscription option" where
  "filters_Logs tags newID ctx crit =
     (if \<not> rc_supported ctx then (Some [], Some (ErrExt ''notifications not supported''), None)
      else case SubscribeLogs tags newID crit of
        Ok f \<Rightarrow> (Some (rc_newSub ctx), None, Some f)
      | Err e \<Rightarrow> (None, Some e, None)
      | Panic p \<Rightarrow> (None, None, None))"

definition metrics_subscribe :: "(string option \<Rightarrow> unit outcome) \<Rightarrow>
    string option \<times> gerror option \<times> subscription option \<Rightarrow> (string option \<times> gerror option \<times> subscription option) outcome" where
  "metrics_subscribe sub_Err r = (case sub_Err (fst r) of Panic p \<Rightarrow> Panic p | _ \<Rightarrow> Ok r)"

definition metrics_NewHeads :: "(string option \<Rightarrow> unit outcome) \<Rightarrow> string \<Rightarrow> rpc_context \<Rightarrow>
    (string option \<times> gerror option \<times> subscription option) outcome" where
  "metrics_NewHeads sub_Err newID ctx = metrics_subscribe sub_Err (filters_NewHeads newID ctx)"

definition metrics_Logs :: "(string option \<Rightarrow> unit outcome) \<Rightarrow> block_tags \<Rightarrow> string \<Rightarrow> rpc_context \<Rightarrow> FilterQuery \<Rightarrow>
    (string option \<times> gerror option \<times> subscription option) outcome" where
  "metrics_Logs sub_Err tags newID ctx crit = metrics_subscribe sub_Err (filters_Logs tags newID ctx crit)"

text \<open>
  C33: with monitoring enabled a client can stop the gateway: a log subscription whose first block is after its last
  one is rejected with an error and a nil subscription, and the goroutine of the metrics wrapper calls a
  method on that nil pointer. The hypothesis on \<open>sub_Err\<close> is that the method dereferences its receiver.
\<close>

theorem invalid_log_range_crashes_gateway:
  assumes "tags_ok tags" and "sub_Err None = Panic m" and "rc_supported ctx"
    and "fq_FromBlock crit = Some b" and "fq_ToBlock crit = Some a" and "0 \<le> a" and "a < b" and "b < 2 ^ 63"
  shows "metrics_Logs sub_Err tags newID ctx crit = Panic m"
proof -
  have "big_Int64 a = a" "big_Int64 b = b" using assms(6-8) by (simp_all add: big_Int64_id)
  moreover have "LatestBlockNumber tags < 0" using assms(1) by (simp add: tags_ok_def)
  ultimately have "\<exists>e. SubscribeLogs tags newID crit = Err e"
    using assms(4-7) by (simp add: SubscribeLogs_def Let_def)
  with assms(2,3) show ?thesis by (auto simp: metrics_Logs_def metrics_subscribe_def filters_Logs_def)
qed

theorem invalid_log_range_crashes_gateway_witness:
  "metrics_Logs (\<lambda>s. case s of None \<Rightarrow> Panic ''nil pointer dereference'' | Some _ \<Rightarrow> Ok ()) geth_tags ''1''
     \<lparr>rc_supported = True, rc_newSub = ''0x1''\<rparr> (no_criteria\<lparr>fq_FromBlock := Some 2, fq_ToBlock := Some 1\<rparr>)
     = Panic ''nil pointer dereference''"
  by (rule invalid_log_range_crashes_gateway [OF geth_tags_ok, of _ _ _ _ 2 1]) simp_all

end
