(* ===== verification/Eth_Api.thy ===== *)
theory Eth_Api
  imports Base64 Archive_Client Cache_Backend Gas_Oracle Event_System
begin

text \<open>
  \<^verbatim>\<open>rpc/eth/api.go\<close> and \<^verbatim>\<open>rpc/eth/revert_errors.go\<close>: the \<open>eth_\<close> methods of the JSON-RPC API. They ask
  the indexer backend through its interface (the record \<open>Backend\<close>, given by the plain and by the caching
  backend below), the node, the archive node and the gas price oracle. A call of the caching backend
  may fail to return, so the methods that can reach such a call are partial (\<open>pcall\<close>).
\<close>

subsection \<open>The interfaces the API uses\<close>

text \<open>Running a call and replacing its error.\<close>

definition p_catch :: "('s, 'a) pcall \<Rightarrow> (gerror \<Rightarrow> 'a outcome) \<Rightarrow> ('s, 'a) pcall" where
  "p_catch m h s = (case m s of Some (Err e, s') \<Rightarrow> Some (h e, s') | r \<Rightarrow> r)"

record 'b Backend =
  be_BlockNumber :: "('b, u64) call"
  be_QueryBlockRound :: "bytes \<Rightarrow> ('b, u64) call"
  be_QueryBlockHash :: "u64 \<Rightarrow> ('b, bytes) call"
  be_QueryLastIndexedRound :: "('b, u64) call"
  be_QueryLastRetainedRound :: "('b, u64) pcall"
  be_QueryTransaction :: "bytes \<Rightarrow> ('b, Transaction) call"
  be_GetBlockByRound :: "u64 \<Rightarrow> ('b, Block) call"
  be_GetBlockByHash :: "bytes \<Rightarrow> ('b, Block) call"
  be_GetBlockTransactionCountByRound :: "u64 \<Rightarrow> ('b, nat) call"
  be_GetBlockTransactionCountByHash :: "bytes \<Rightarrow> ('b, nat) call"
  be_GetTransactionReceipt :: "bytes \<Rightarrow> ('b, EthReceipt) call"
  be_GetLogs :: "u64 \<Rightarrow> u64 \<Rightarrow> ('b, Log list) pcall"
  be_RuntimeInfo :: "'b \<Rightarrow> RuntimeInfo option"

definition index_ops :: "ext \<Rightarrow> 'o indexBackend Backend" where
  "index_ops x = \<lparr>be_BlockNumber = ib_BlockNumber, be_QueryBlockRound = ib_QueryBlockRound x,
     be_QueryBlockHash = ib_QueryBlockHash x, be_QueryLastIndexedRound = ib_QueryLastIndexedRound, be_QueryLastRetainedRound = (\<lambda>s. Some (ib_QueryLastRetainedRound s)),
     be_QueryTransaction = ib_QueryTransaction x, be_GetBlockByRound = ib_GetBlockByRound x,
     be_GetBlockByHash = ib_GetBlockByHash x, be_GetBlockTransactionCountByRound = ib_GetBlockTransactionCountByRound x,
     be_GetBlockTransactionCountByHash = ib_GetBlockTransactionCountByHash x,
     be_GetTransactionReceipt = ib_GetTransactionReceipt x, be_GetLogs = (\<lambda>a b s. Some (ib_GetLogs a b s)),
     be_RuntimeInfo = RuntimeInfoOf\<rparr>"

definition caching_ops :: "ext \<Rightarrow> nat \<Rightarrow> u64 option list \<Rightarrow> caching Backend" where
  "caching_ops x fuel env = \<lparr>be_BlockNumber = cb_BlockNumber, be_QueryBlockRound = cb_QueryBlockRound x,
     be_QueryBlockHash = cb_QueryBlockHash x, be_QueryLastIndexedRound = cb_QueryLastIndexedRound, be_QueryLastRetainedRound = cb_QueryLastRetainedRound fuel env,
     be_QueryTransaction = cb_QueryTransaction x, be_GetBlockByRound = cb_GetBlockByRound x,
     be_GetBlockByHash = cb_GetBlockByHash x, be_GetBlockTransactionCountByRound = cb_GetBlockTransactionCountByRound x,
     be_GetBlockTransactionCountByHash = cb_GetBlockTransactionCountByHash x,
     be_GetTransactionReceipt = cb_GetTransactionReceipt x, be_GetLogs = cb_GetLogs, be_RuntimeInfo = cb_RuntimeInfo\<rparr>"

text \<open>The node, with answers by the number of the call, and the transactions built for gas estimates.\<close>

datatype evm_tx = EVMCreate bytes bytes | EVMCall bytes bytes bytes

record api_node =
  an_GetLastRetainedBlock :: "nat \<Rightarrow> gerror + OasisBlock"
  an_CoreRuntimeInfo :: "nat \<Rightarrow> gerror + RuntimeInfo"
  an_CoreEstimateGasForCaller :: "nat \<Rightarrow> u64 \<Rightarrow> bytes \<Rightarrow> evm_tx \<Rightarrow> gerror + u64"
  an_AccountsNonce :: "nat \<Rightarrow> u64 \<Rightarrow> bytes \<Rightarrow> gerror + u64"
  an_EVMCode :: "nat \<Rightarrow> u64 \<Rightarrow> bytes \<Rightarrow> gerror + bytes"
  an_EVMBalance :: "nat \<Rightarrow> u64 \<Rightarrow> bytes \<Rightarrow> gerror + nat"
  an_EVMStorage :: "nat \<Rightarrow> u64 \<Rightarrow> bytes \<Rightarrow> bytes \<Rightarrow> gerror + bytes"
  an_EVMSimulateCall :: "nat \<Rightarrow> u64 \<Rightarrow> bytes \<Rightarrow> u64 \<Rightarrow> bytes \<Rightarrow> bytes \<Rightarrow> bytes \<Rightarrow> bytes \<Rightarrow> gerror + bytes"
  an_SubmitTxNoWait :: "nat \<Rightarrow> bytes \<Rightarrow> string list \<Rightarrow> gerror + unit"

record MethodLimits =
  ml_GetLogsMaxRounds :: u64

record 'b publicAPI =
  api_ext :: ext
  api_tags :: block_tags
  api_source :: api_node
  api_archiveClient :: "Client option"
  api_backend :: "'b Backend"
  api_chainID :: u32
  api_methodLimits :: "MethodLimits option"

record 'b api_state =
  st_backend :: 'b
  st_calls :: nat
  st_oracle :: gasPriceOracle

definition NewPublicAPI :: "ext \<Rightarrow> block_tags \<Rightarrow> api_node \<Rightarrow> Client option \<Rightarrow> u32 \<Rightarrow> 'b Backend \<Rightarrow> MethodLimits option \<Rightarrow> 'b publicAPI" where
  "NewPublicAPI x tags source archiveClient chainID backend methodLimits =
     \<lparr>api_ext = x, api_tags = tags, api_source = source, api_archiveClient = archiveClient, api_backend = backend,
      api_chainID = chainID, api_methodLimits = methodLimits\<rparr>"

definition on_be :: "('b, 'a) pcall \<Rightarrow> ('b api_state, 'a) pcall" where
  "on_be f s = (case f (st_backend s) of None \<Rightarrow> None | Some (r, b) \<Rightarrow> Some (r, s\<lparr>st_backend := b\<rparr>))"

definition ask_node :: "(nat \<Rightarrow> gerror + 'a) \<Rightarrow> ('b api_state, 'a) pcall" where
  "ask_node f s = Some (case f (st_calls s) of Inl e \<Rightarrow> Err e | Inr y \<Rightarrow> Ok y, s\<lparr>st_calls := Suc (st_calls s)\<rparr>)"

definition ask_archive :: "(nat \<Rightarrow> 'a outcome) \<Rightarrow> ('b api_state, 'a) pcall" where
  "ask_archive f s = Some (f (st_calls s), s\<lparr>st_calls := Suc (st_calls s)\<rparr>)"

subsection \<open>Block numbers and storage errors\<close>

text \<open>\<open>None\<close> is the nil error: by the specification missing data is an empty response.\<close>

definition handleStorageError :: "gerror \<Rightarrow> gerror option" where
  "handleStorageError e = (if errors_Is e ErrNoRows then None else Some ErrInternalError)"

definition or_empty :: "'a \<Rightarrow> gerror \<Rightarrow> 'a outcome" where
  "or_empty y e = (case handleStorageError e of None \<Rightarrow> Ok y | Some e' \<Rightarrow> Err e')"

definition or_internal :: "gerror \<Rightarrow> 'a outcome" where
  "or_internal e = Err ErrInternalError"

definition shouldQueryArchive :: "'b publicAPI \<Rightarrow> u64 \<Rightarrow> bool" where
  "shouldQueryArchive api n = (case api_archiveClient api of None \<Rightarrow> False | Some c \<Rightarrow> n \<le> LatestBlock c)"

definition roundParamFromBlockNum :: "'b publicAPI \<Rightarrow> int \<Rightarrow> ('b api_state, u64) pcall" where
  "roundParamFromBlockNum api blockNum =
     (if blockNum = PendingBlockNumber (api_tags api) then p_ret (RoundLatest (api_ext api))
      else if blockNum = LatestBlockNumber (api_tags api) then p_ret (RoundLatest (api_ext api))
      else if blockNum = EarliestBlockNumber (api_tags api) then
        p_then (p_catch (ask_node (an_GetLastRetainedBlock (api_source api))) or_internal) (\<lambda>clrBlk.
        p_then (p_catch (on_be (be_QueryLastRetainedRound (api_backend api))) or_internal) (\<lambda>ilrRound.
          p_ret (max (ob_Round clrBlk) ilrRound)))
      else if blockNum < 0 then p_fail ErrMalformedBlockNumber
      else p_ret (word_of_int blockNum))"

record BlockNumberOrHash =
  bnh_BlockNumber :: "int option"
  bnh_BlockHash :: "bytes option"

definition getBlockRound :: "'b publicAPI \<Rightarrow> BlockNumberOrHash \<Rightarrow> ('b api_state, u64) pcall" where
  "getBlockRound api b = (case (bnh_BlockHash b, bnh_BlockNumber b) of
       (None, None) \<Rightarrow> p_fail (Errorf ''types BlockHash and BlockNumber cannot be both nil'')
     | (Some h, _) \<Rightarrow> on_be (total (be_QueryBlockRound (api_backend api) h))
     | (None, Some n) \<Rightarrow> roundParamFromBlockNum api n)"

subsection \<open>Blocks, transactions and receipts\<close>

definition show_block :: "'b publicAPI \<Rightarrow> bool \<Rightarrow> ('b api_state, Block) pcall \<Rightarrow> ('b api_state, EthBlock option) pcall" where
  "show_block api fullTx get = p_catch
     (p_then get (\<lambda>blk s. Some (case ConvertToEthBlock (api_ext api) blk fullTx of
         Ok b \<Rightarrow> Ok (Some b) | Err e \<Rightarrow> Err e | Panic p \<Rightarrow> Panic p, s))) (or_empty None)"

definition api_GetBlockByNumber :: "'b publicAPI \<Rightarrow> int \<Rightarrow> bool \<Rightarrow> ('b api_state, EthBlock option) pcall" where
  "api_GetBlockByNumber api blockNum fullTx = p_then (roundParamFromBlockNum api blockNum) (\<lambda>n.
     show_block api fullTx (on_be (total (be_GetBlockByRound (api_backend api) n))))"

definition api_GetBlockByHash :: "'b publicAPI \<Rightarrow> bytes \<Rightarrow> bool \<Rightarrow> ('b api_state, EthBlock option) pcall" where
  "api_GetBlockByHash api blockHash fullTx =
     show_block api fullTx (on_be (total (be_GetBlockByHash (api_backend api) blockHash)))"

definition api_GetBlockTransactionCountByNumber :: "'b publicAPI \<Rightarrow> int \<Rightarrow> ('b api_state, nat) pcall" where
  "api_GetBlockTransactionCountByNumber api blockNum = p_then (roundParamFromBlockNum api blockNum) (\<lambda>n.
     p_catch (on_be (total (be_GetBlockTransactionCountByRound (api_backend api) n))) (or_empty 0))"

definition api_GetBlockTransactionCountByHash :: "'b publicAPI \<Rightarrow> bytes \<Rightarrow> ('b api_state, nat) pcall" where
  "api_GetBlockTransactionCountByHash api blockHash =
     p_catch (on_be (total (be_GetBlockTransactionCountByHash (api_backend api) blockHash))) (or_empty 0)"

definition api_GetTransactionByHash :: "'b publicAPI \<Rightarrow> bytes \<Rightarrow> ('b api_state, RPCTransaction option) pcall" where
  "api_GetTransactionByHash api h = p_catch
     (p_then (on_be (total (be_QueryTransaction (api_backend api) h))) (\<lambda>dbTx.
        p_ret (Some (NewRPCTransaction (api_ext api) dbTx)))) (or_empty None)"

definition api_GetTransactionByBlockHashAndIndex :: "'b publicAPI \<Rightarrow> bytes \<Rightarrow> u64 \<Rightarrow>
    ('b api_state, RPCTransaction option) pcall" where
  "api_GetTransactionByBlockHashAndIndex api blockHash index s =
     (case on_be (total (be_GetBlockByHash (api_backend api) blockHash)) s of
        None \<Rightarrow> None
      | Some (Err e, s') \<Rightarrow> Some (or_empty None e, s')
      | Some (Panic p, s') \<Rightarrow> Some (Panic p, s')
      | Some (Ok dbBlock, s') \<Rightarrow>
          if word_of_nat (length (blk_Transactions dbBlock)) \<le> index then Some (Err ErrIndexOutOfRange, s')
          else Some (case index_at (blk_Transactions dbBlock) (int (unat index)) of
                       Some tx \<Rightarrow> Ok (Some (NewRPCTransaction (api_ext api) tx))
                     | None \<Rightarrow> Panic ''index out of range'', s'))"

definition api_GetTransactionByBlockNumberAndIndex :: "'b publicAPI \<Rightarrow> int \<Rightarrow> u64 \<Rightarrow>
    ('b api_state, RPCTransaction option) pcall" where
  "api_GetTransactionByBlockNumberAndIndex api blockNum index =
     p_then (roundParamFromBlockNum api blockNum) (\<lambda>n s.
       (case on_be (total (be_QueryBlockHash (api_backend api) n)) s of
          None \<Rightarrow> None
        | Some (Err e, s') \<Rightarrow> Some (or_empty None e, s')
        | Some (Panic p, s') \<Rightarrow> Some (Panic p, s')
        | Some (Ok blockHash, s') \<Rightarrow> api_GetTransactionByBlockHashAndIndex api blockHash index s'))"

definition api_GetTransactionReceipt :: "'b publicAPI \<Rightarrow> bytes \<Rightarrow> ('b api_state, EthReceipt option) pcall" where
  "api_GetTransactionReceipt api txHash = p_catch
     (p_then (on_be (total (be_GetTransactionReceipt (api_backend api) txHash))) (\<lambda>r. p_ret (Some r))) (or_empty None)"

definition api_GetBlockHash :: "'b publicAPI \<Rightarrow> int \<Rightarrow> ('b api_state, bytes) pcall" where
  "api_GetBlockHash api blockNum = p_then (roundParamFromBlockNum api blockNum) (\<lambda>n.
     on_be (total (be_QueryBlockHash (api_backend api) n)))"

definition api_BlockNumber :: "'b publicAPI \<Rightarrow> ('b api_state, u64) pcall" where
  "api_BlockNumber api = p_catch (on_be (total (be_BlockNumber (api_backend api)))) or_internal"

text \<open>The methods with constant answers, and the gas price.\<close>

definition api_ChainId :: "'b publicAPI \<Rightarrow> int" where
  "api_ChainId api = uint (api_chainID api)"

definition api_Accounts :: "bytes list" where
  "api_Accounts = []"

definition api_Mining :: bool where
  "api_Mining = False"

definition api_Hashrate :: u64 where
  "api_Hashrate = 0"

definition api_Syncing :: bool where
  "api_Syncing = False"

definition api_GasPrice :: "'b api_state \<Rightarrow> nat" where
  "api_GasPrice s = GasPrice (st_oracle s)"

definition api_MaxPriorityFeePerGas :: "'b api_state \<Rightarrow> nat" where
  "api_MaxPriorityFeePerGas s = GasPrice (st_oracle s)"

definition maxQueryLimit :: nat where
  "maxQueryLimit = 100"

text \<open>The validation loop over the percentiles; \<open>prev\<close> is the one before.\<close>

fun percentiles_ok :: "f64 option \<Rightarrow> f64 list \<Rightarrow> bool" where
  "percentiles_ok prev [] = True"
| "percentiles_ok prev (p # ps) =
     (if f_lt p (Fin 0) \<or> f_lt (Fin 100) p then False
      else if (case prev of None \<Rightarrow> False | Some q \<Rightarrow> f_le p q) then False
      else percentiles_ok (Some p) ps)"

definition api_FeeHistory :: "(f64 \<Rightarrow> u64) \<Rightarrow> 'b publicAPI \<Rightarrow> u64 \<Rightarrow> int \<Rightarrow> f64 list \<Rightarrow> 'b api_state \<Rightarrow> FeeHistoryResult outcome" where
  "api_FeeHistory oob api blockCount lastBlock ps s =
     (if blockCount < 1 then Ok no_history
      else if maxQueryLimit < length ps then Err (Wrapf ''over the query limit'' ErrInvalidPercentile)
      else if \<not> percentiles_ok None ps then Err (Wrapf ''percentile'' ErrInvalidPercentile)
      else FeeHistory oob (api_tags api) blockCount lastBlock ps (st_oracle s))"

subsection \<open>State queries\<close>

definition decodeHash :: "ext \<Rightarrow> string \<Rightarrow> bytes outcome" where
  "decodeHash x s =
     (let s1 = (if strings_HasPrefix s ''0x'' \<or> strings_HasPrefix s ''0X'' then drop 2 s else s);
          s2 = (if odd (length s1) then ''0'' @ s1 else s1)
      in case hex_DecodeString s2 of
           (b, Some e) \<Rightarrow> Err (Errorf ''hex string invalid'')
         | (b, None) \<Rightarrow> if 32 < length b then Err (Errorf ''hex string too long, want at most 32 bytes'')
                        else Ok (BytesToHash x b))"

text \<open>A method that resolves the block and then asks the archive node or the current one.\<close>

definition at_round :: "'b publicAPI \<Rightarrow> BlockNumberOrHash \<Rightarrow> (Client \<Rightarrow> u64 \<Rightarrow> nat \<Rightarrow> 'a outcome) \<Rightarrow>
    (u64 \<Rightarrow> ('b api_state, 'a) pcall) \<Rightarrow> ('b api_state, 'a) pcall" where
  "at_round api b archived current = p_then (getBlockRound api b) (\<lambda>n.
     case api_archiveClient api of
       Some c \<Rightarrow> if shouldQueryArchive api n then ask_archive (archived c n) else current n
     | None \<Rightarrow> current n)"

definition api_GetStorageAt :: "'b publicAPI \<Rightarrow> bytes \<Rightarrow> string \<Rightarrow> BlockNumberOrHash \<Rightarrow> ('b api_state, bytes) pcall" where
  "api_GetStorageAt api address slotHex b = (case decodeHash (api_ext api) slotHex of
       Err e \<Rightarrow> p_fail (Wrapf ''invalid slot'' e)
     | Panic p \<Rightarrow> (\<lambda>s. Some (Panic p, s))
     | Ok slot \<Rightarrow> at_round api b (\<lambda>c n. ar_GetStorageAt c address slot n)
         (\<lambda>n. p_catch (ask_node (\<lambda>t. an_EVMStorage (api_source api) t n address slot)) or_internal))"

definition api_GetBalance :: "'b publicAPI \<Rightarrow> bytes \<Rightarrow> BlockNumberOrHash \<Rightarrow> ('b api_state, int) pcall" where
  "api_GetBalance api address b = at_round api b (\<lambda>c n. ar_GetBalance c address n)
     (\<lambda>n. p_then (p_catch (ask_node (\<lambda>t. an_EVMBalance (api_source api) t n address)) or_internal) (\<lambda>q. p_ret (int q)))"

definition api_GetTransactionCount :: "'b publicAPI \<Rightarrow> bytes \<Rightarrow> BlockNumberOrHash \<Rightarrow> ('b api_state, u64) pcall" where
  "api_GetTransactionCount api ethAddr b = at_round api b (\<lambda>c n. ar_GetTransactionCount c ethAddr n)
     (\<lambda>n. p_catch (ask_node (\<lambda>t. an_AccountsNonce (api_source api) t n (NewAddressRaw (api_ext api) ethAddr))) or_internal)"

definition api_GetCode :: "'b publicAPI \<Rightarrow> bytes \<Rightarrow> BlockNumberOrHash \<Rightarrow> ('b api_state, bytes) pcall" where
  "api_GetCode api address b = at_round api b (\<lambda>c n. ar_GetCode c address n)
     (\<lambda>n. ask_node (\<lambda>t. an_EVMCode (api_source api) t n address))"

subsection \<open>Calls and reverts\<close>

definition revertErrorPrefix :: string where
  "revertErrorPrefix = ''reverted: ''"

text \<open>\<open>Error()\<close>: the text of an error.\<close>

fun err_Error :: "gerror \<Rightarrow> string" where
  "err_Error (ErrExt s) = s"
| "err_Error (Errorf s) = s"
| "err_Error (Wrapf s e) = s @ '': '' @ err_Error e"
| "err_Error (RevertError e r) = err_Error e"
| "err_Error ErrNoRows = ''sql: no rows in result set''"
| "err_Error ErrNoRoundsIndexed = ''no rounds indexed''"
| "err_Error ErrGetLastRetainedRound = ''get last retained round error in db''"
| "err_Error ErrNotHealthy = ''not healthy''"
| "err_Error ErrInternalError = ''internal error''"
| "err_Error ErrIndexOutOfRange = ''index out of range''"
| "err_Error ErrMalformedTransaction = ''malformed transaction''"
| "err_Error ErrMalformedBlockNumber = ''malformed blocknumber''"
| "err_Error ErrInvalidRequest = ''invalid request''"
| "err_Error ErrInvalidPercentile = ''invalid reward percentile''"
| "err_Error ErrServerStopped = ''web3 gateway server not started''"
| "err_Error ErrServerRunning = ''web3 gateway server already running''"
| "err_Error ErrCanceled = ''context canceled''"

text \<open>The data and the code the RPC server puts into an error response; other errors have no such methods.\<close>

fun ErrorData :: "gerror \<Rightarrow> string option" where
  "ErrorData (RevertError e reason) = Some reason"
| "ErrorData e = None"

fun ErrorCode :: "gerror \<Rightarrow> int option" where
  "ErrorCode (RevertError e reason) = Some 3"
| "ErrorCode e = None"

definition newRevertErrorV1 :: "ext \<Rightarrow> gerror \<Rightarrow> gerror" where
  "newRevertErrorV1 x revertErr =
     (let revertReason = strings_TrimPrefix (err_Error revertErr) revertErrorPrefix in
      if revertReason = [] then RevertError (Errorf ''execution reverted'') []
      else case abi_Pack_string x revertReason of
        Inl _ \<Rightarrow> RevertError revertErr []
      | Inr packed \<Rightarrow> RevertError (Errorf (''execution reverted: '' @ revertReason))
          (hexutil_Encode x ([0x08, 0xc3, 0x79, 0xa0] @ packed)))"

definition newRevertErrorV2 :: "ext \<Rightarrow> gerror \<Rightarrow> gerror" where
  "newRevertErrorV2 x revertErr =
     (case base64_DecodeString (strings_TrimPrefix (err_Error revertErr) revertErrorPrefix) of
        None \<Rightarrow> RevertError revertErr []
      | Some rawReason \<Rightarrow>
         (case abi_UnpackRevert x rawReason of
            Inr reason \<Rightarrow> RevertError (Errorf (''execution reverted: '' @ reason)) (hexutil_Encode x rawReason)
          | Inl _ \<Rightarrow> RevertError (Errorf ''execution reverted'') (hexutil_Encode x rawReason)))"

definition handleCallFailure :: "'b publicAPI \<Rightarrow> gerror \<Rightarrow> ('b api_state, gerror) pcall" where
  "handleCallFailure api e s =
     (if \<not> strings_HasPrefix (err_Error e) revertErrorPrefix then Some (Ok e, s)
      else let (rtInfo, s') = (case be_RuntimeInfo (api_backend api) (st_backend s) of
                 Some ri \<Rightarrow> (Some ri, s)
               | None \<Rightarrow> (case an_CoreRuntimeInfo (api_source api) (st_calls s) of Inl _ \<Rightarrow> None | Inr ri \<Rightarrow> Some ri,
                          s\<lparr>st_calls := Suc (st_calls s)\<rparr>))
        in Some (Ok (if (case rtInfo of None \<Rightarrow> True | Some ri \<Rightarrow> 1 < ri_EvmVersion ri)
                     then newRevertErrorV2 (api_ext api) e else newRevertErrorV1 (api_ext api) e), s'))"

definition api_Call :: "'b publicAPI \<Rightarrow> TransactionArgs \<Rightarrow> BlockNumberOrHash \<Rightarrow> ('b api_state, bytes) pcall" where
  "api_Call api args b = at_round api b (\<lambda>c n. ar_Call c args n) (\<lambda>n s.
     (let amount = (case ta_Value args of None \<Rightarrow> [0] | Some v \<Rightarrow> big_Bytes v);
          input = (case ta_Input args of Some i \<Rightarrow> i | None \<Rightarrow> (case ta_Data args of Some d \<Rightarrow> d | None \<Rightarrow> []));
          sender = (case ta_From args of None \<Rightarrow> 1 # replicate 19 0 | Some f \<Rightarrow> f);
          gasPrice = (case ta_GasPrice args of None \<Rightarrow> [1] | Some p \<Rightarrow> big_Bytes p);
          gas = (case ta_Gas args of None \<Rightarrow> 30000000 | Some g \<Rightarrow> g);
          toBytes = (case ta_To args of None \<Rightarrow> [] | Some t \<Rightarrow> t)
      in case ask_node (\<lambda>t. an_EVMSimulateCall (api_source api) t n gasPrice gas sender toBytes amount input) s of
           Some (Err e, s') \<Rightarrow>
             (case handleCallFailure api e s' of
                Some (Ok e', s'') \<Rightarrow> Some (Err e', s'')
              | Some (Err e', s'') \<Rightarrow> Some (Err e', s'')
              | Some (Panic p, s'') \<Rightarrow> Some (Panic p, s'')
              | None \<Rightarrow> None)
         | r \<Rightarrow> r))"

text \<open>The hash is returned beside the error when the node rejects the transaction.\<close>

definition api_SendRawTransaction :: "'b publicAPI \<Rightarrow> bytes \<Rightarrow> ('b api_state, bytes \<times> gerror option) pcall" where
  "api_SendRawTransaction api data = (case Tx_UnmarshalBinary (api_ext api) data of
       Inl _ \<Rightarrow> p_ret (replicate 32 0, Some ErrMalformedTransaction)
     | Inr ethTx \<Rightarrow> p_catch
         (p_then (ask_node (\<lambda>t. an_SubmitTxNoWait (api_source api) t data [''evm.ethereum.v0'']))
           (\<lambda>_. p_ret (etx_Hash ethTx, None)))
         (\<lambda>e. Ok (etx_Hash ethTx, Some e)))"

definition api_EstimateGas :: "'b publicAPI \<Rightarrow> TransactionArgs \<Rightarrow> int option \<Rightarrow> ('b api_state, u64) pcall" where
  "api_EstimateGas api args blockNum =
     (let from_addr = (case ta_From args of None \<Rightarrow> replicate 20 0 | Some f \<Rightarrow> f);
          ethTxValue = big_Bytes (case ta_Value args of None \<Rightarrow> 0 | Some v \<Rightarrow> v);
          input = (case ta_Input args of Some i \<Rightarrow> i | None \<Rightarrow> (case ta_Data args of Some d \<Rightarrow> d | None \<Rightarrow> []))
      in p_then (case blockNum of None \<Rightarrow> p_ret (RoundLatest (api_ext api)) | Some n \<Rightarrow> roundParamFromBlockNum api n) (\<lambda>n.
         ask_node (\<lambda>t. an_CoreEstimateGasForCaller (api_source api) t n from_addr
           (case ta_To args of None \<Rightarrow> EVMCreate ethTxValue input | Some to \<Rightarrow> EVMCall to ethTxValue input))))"

subsection \<open>Logs\<close>

definition resolveLatest :: "'b publicAPI \<Rightarrow> u64 \<Rightarrow> ('b api_state, u64) pcall" where
  "resolveLatest api n = (if n = RoundLatest (api_ext api) then on_be (total (be_BlockNumber (api_backend api))) else p_ret n)"

definition getStartEndRounds :: "'b publicAPI \<Rightarrow> FilterQuery \<Rightarrow> ('b api_state, u64 \<times> u64) pcall" where
  "getStartEndRounds api filt = (case fq_BlockHash filt of
       Some h \<Rightarrow> p_then (p_catch (on_be (total (be_QueryBlockRound (api_backend api) h))) (\<lambda>e. Err (Wrapf ''query block round'' e)))
         (\<lambda>n. p_ret (n, n))
     | None \<Rightarrow>
         p_then (roundParamFromBlockNum api (case fq_FromBlock filt of
             None \<Rightarrow> EarliestBlockNumber (api_tags api) | Some b \<Rightarrow> big_Int64 b)) (\<lambda>start.
         p_then (case fq_ToBlock filt of
             None \<Rightarrow> p_ret (RoundLatest (api_ext api)) | Some b \<Rightarrow> roundParamFromBlockNum api (big_Int64 b)) (\<lambda>end_round.
         p_then (resolveLatest api start) (\<lambda>start.
         p_then (resolveLatest api end_round) (\<lambda>end_round. p_ret (start, end_round))))))"

text \<open>The loop over the addresses of the filter.\<close>

fun address_match :: "bytes \<Rightarrow> bytes list \<Rightarrow> bool" where
  "address_match a [] = False"
| "address_match a (b # bs) = (if b = a then True else address_match a bs)"

fun filter_logs_loop :: "FilterQuery \<Rightarrow> EthLog list \<Rightarrow> EthLog list" where
  "filter_logs_loop filt [] = []"
| "filter_logs_loop filt (l # ls) =
     (if \<not> (fq_Addresses filt = [] \<or> address_match (el_Address l) (fq_Addresses filt)) then filter_logs_loop filt ls
      else if \<not> TopicsMatch l (fq_Topics filt) then filter_logs_loop filt ls
      else l # filter_logs_loop filt ls)"

definition api_GetLogs :: "'b publicAPI \<Rightarrow> FilterQuery \<Rightarrow> ('b api_state, EthLog list) pcall" where
  "api_GetLogs api filt =
     p_then (p_catch (getStartEndRounds api filt) (\<lambda>e. Err (Wrapf ''error getting start and end rounds'' e))) (\<lambda>(start, end_round).
       if end_round < start then p_fail (Wrapf ''end round greater than start round'' ErrInvalidRequest)
       else if (case api_methodLimits api of None \<Rightarrow> False
           | Some l \<Rightarrow> ml_GetLogsMaxRounds l \<noteq> 0 \<and> ml_GetLogsMaxRounds l < end_round - start)
       then p_fail (Wrapf ''max allowed of rounds in logs query'' ErrInvalidRequest)
       else p_then (p_catch (on_be (be_GetLogs (api_backend api) start end_round)) or_internal) (\<lambda>dbLogs.
         let ethLogs = DB2EthLogs (api_ext api) dbLogs in
         if fq_Addresses filt = [] \<and> fq_Topics filt = [] then p_ret ethLogs
         else p_ret (filter_logs_loop filt ethLogs)))"

subsection \<open>What \<open>eth_getLogs\<close> returns\<close>

lemma address_match_iff: "address_match a bs \<longleftrightarrow> a \<in> set bs"
  by (induction bs) auto

lemma TopicsMatch_Nil [simp]: "TopicsMatch l []"
  by (simp add: TopicsMatch_def)

lemma filter_logs_loop_filter: "filter_logs_loop filt ls =
    filter (\<lambda>l. (fq_Addresses filt = [] \<or> el_Address l \<in> set (fq_Addresses filt)) \<and> TopicsMatch l (fq_Topics filt)) ls"
  by (induction ls) (auto simp: address_match_iff)

lemma p_then_OkE:
  assumes "p_then m f s = Some (Ok y, t)"
  obtains z s' where "m s = Some (Ok z, s')" and "f z s' = Some (Ok y, t)"
  using assms by (auto simp: p_then_def split: option.splits prod.splits outcome.splits)

lemma p_catch_OkD: "p_catch m h s = Some (Ok y, t) \<Longrightarrow> (\<And>e. h e \<noteq> Ok y) \<Longrightarrow> m s = Some (Ok y, t)"
  by (auto simp: p_catch_def split: option.splits prod.splits outcome.splits)

lemma u64_diff_le: "(a :: u64) \<le> b \<Longrightarrow> \<not> l < b - a \<Longrightarrow> unat b - unat a \<le> unat l"
  by (simp add: unat_sub word_le_nat_alt word_less_nat_alt)

lemma ib_GetLogs_rows:
  assumes "ib_GetLogs a b ib = (Ok rows, ib')" and "\<forall>xs. mset (scan_logs (ib_storage ib) xs) = mset xs"
  shows "mset rows = filter_mset (\<lambda>l. a \<le> log_Round l \<and> log_Round l \<le> b) (mset (logs (committed (ib_storage ib))))
    \<and> sorted (map (\<lambda>l. (log_Round l, log_TxIndex l, log_Index l)) rows)"
proof -
  obtain db' where "GetLogs Pool a b (ib_storage ib) = (Ok rows, db')"
    using assms(1) by (auto simp: ib_GetLogs_def on_storage_def split: prod.splits)
  with assms(2) show ?thesis unfolding GetLogs_def and_then_Ok_iff
    by (auto simp: visible_def dest!: query_OkD)
qed


definition example_node_api :: api_node where
  "example_node_api = \<lparr>an_GetLastRetainedBlock = (\<lambda>_. Inl (ErrExt ''node'')), an_CoreRuntimeInfo = (\<lambda>_. Inl (ErrExt ''node'')),
     an_CoreEstimateGasForCaller = (\<lambda>_ _ _ _. Inr 21000), an_AccountsNonce = (\<lambda>_ _ _. Inr 0), an_EVMCode = (\<lambda>_ _ _. Inr []),
     an_EVMBalance = (\<lambda>_ _ _. Inr 5), an_EVMStorage = (\<lambda>_ _ _ _. Inr []),
     an_EVMSimulateCall = (\<lambda>_ _ _ _ _ _ _ _. Inr [1]), an_SubmitTxNoWait = (\<lambda>_ _ _. Inr ())\<rparr>"

definition example_api :: "unit indexBackend publicAPI" where
  "example_api = NewPublicAPI example_ext geth_tags example_node_api None 42261 (index_ops example_ext) (Some \<lparr>ml_GetLogsMaxRounds = 2\<rparr>)"

definition example_api_state :: "unit indexBackend api_state" where
  "example_api_state = \<lparr>st_backend = example_ib\<lparr>ib_storage := example_db\<lparr>committed := empty_tables\<lparr>logs :=
     [example_log 5 1, example_log 4 0, example_log 9 2]\<rparr>\<rparr>\<rparr>, st_calls = 0, st_oracle = NewOracle None\<rparr>"


subsection \<open>Reverted calls\<close>

lemma runtime_info_state: "be_RuntimeInfo (api_backend api) (st_backend s) = Some ri \<Longrightarrow> strings_HasPrefix (err_Error e) revertErrorPrefix \<Longrightarrow>
    handleCallFailure api e s = Some (Ok (if 1 < ri_EvmVersion ri then newRevertErrorV2 (api_ext api) e
      else newRevertErrorV1 (api_ext api) e), s)"
  by (simp add: handleCallFailure_def)

text \<open>
  C18: the revert data of a contract reaches the client unchanged: when the runtime reports a revert as the
  base64 encoding of its data (EVM module version 2 and later, or an unknown version), the error has code 3 and its data
  is the hexadecimal encoding of exactly that data, whether or not it decodes to a text; an
  error that is no revert is passed on as it is.
\<close>

theorem revert_data_reaches_client:
  assumes "err_Error e = revertErrorPrefix @ b64_encode data"
    and "case be_RuntimeInfo (api_backend api) (st_backend s) of Some ri \<Rightarrow> 1 < ri_EvmVersion ri
      | None \<Rightarrow> (case an_CoreRuntimeInfo (api_source api) (st_calls s) of Inr ri \<Rightarrow> 1 < ri_EvmVersion ri | Inl _ \<Rightarrow> True)"
    and "\<not> strings_HasPrefix (err_Error other) revertErrorPrefix"
  shows "\<exists>e' s'. handleCallFailure api e s = Some (Ok e', s') \<and> ErrorData e' = Some (hexutil_Encode (api_ext api) data)
    \<and> ErrorCode e' = Some 3 \<and> strings_HasPrefix (err_Error e') ''execution reverted''
    \<and> handleCallFailure api other s = Some (Ok other, s)"
proof -
  have "strings_HasPrefix (err_Error e) revertErrorPrefix" by (simp add: assms(1))
  then have "\<exists>s'. handleCallFailure api e s = Some (Ok (newRevertErrorV2 (api_ext api) e), s')"
    using assms(2) by (auto simp: handleCallFailure_def split: option.splits sum.splits)
  moreover have "ErrorData (newRevertErrorV2 (api_ext api) e) = Some (hexutil_Encode (api_ext api) data)
      \<and> ErrorCode (newRevertErrorV2 (api_ext api) e) = Some 3
      \<and> strings_HasPrefix (err_Error (newRevertErrorV2 (api_ext api) e)) ''execution reverted''"
    by (simp add: newRevertErrorV2_def assms(1) strings_HasPrefix_def split: sum.split)
  ultimately show ?thesis using assms(3) by (auto simp: handleCallFailure_def)
qed

theorem revert_data_reaches_client_witness:
  "\<exists>e' s'. handleCallFailure example_api (ErrExt (''reverted: '' @ b64_encode [1, 2, 3, 4])) example_api_state = Some (Ok e', s')
     \<and> ErrorData e' = Some (hex0x [1, 2, 3, 4])"
proof -
  have 1: "err_Error (ErrExt (''reverted: '' @ b64_encode [1, 2, 3, 4])) = revertErrorPrefix @ b64_encode [1, 2, 3, 4]"
    by (simp add: revertErrorPrefix_def)
  have 2: "case be_RuntimeInfo (api_backend example_api) (st_backend example_api_state) of Some ri \<Rightarrow> 1 < ri_EvmVersion ri
      | None \<Rightarrow> (case an_CoreRuntimeInfo (api_source example_api) (st_calls example_api_state) of Inr ri \<Rightarrow> 1 < ri_EvmVersion ri | Inl _ \<Rightarrow> True)"
    by (simp add: example_api_def NewPublicAPI_def index_ops_def example_api_state_def RuntimeInfoOf_def example_ib_def NewIndexBackend_def example_node_api_def)
  have 3: "\<not> strings_HasPrefix (err_Error ErrInternalError) revertErrorPrefix"
    by (simp add: strings_HasPrefix_def revertErrorPrefix_def)
  from revert_data_reaches_client [OF 1 2 3] show ?thesis by (auto simp: example_api_def NewPublicAPI_def example_ext_def)
qed

subsection \<open>Fee history requests\<close>

lemma percentiles_ok_bound: "percentiles_ok prev ps \<Longrightarrow> p \<in> set ps \<Longrightarrow> \<not> f_lt p (Fin 0) \<and> \<not> f_lt (Fin 100) p"
  by (induction prev ps rule: percentiles_ok.induct) (auto split: if_splits)



subsection \<open>The archive node\<close>

lemma round_of_number:
  assumes "tags_ok (api_tags api)" and "0 \<le> n"
  shows "getBlockRound api \<lparr>bnh_BlockNumber = Some n, bnh_BlockHash = None\<rparr> s = Some (Ok (word_of_int n), s)"
proof -
  have "PendingBlockNumber (api_tags api) < 0" "LatestBlockNumber (api_tags api) < 0" "EarliestBlockNumber (api_tags api) < 0"
    using assms(1) by (simp_all add: tags_ok_def)
  with assms(2) show ?thesis by (simp add: getBlockRound_def roundParamFromBlockNum_def p_ret_def)
qed

text \<open>
  \<open>eth_call\<close> treats an archived block differently: a call without a sender at a round the archive node serves
  always fails, while the same call at a later round is simulated with the default sender.
\<close>

lemma archived_call_needs_sender:
  assumes "tags_ok (api_tags api)" and "api_archiveClient api = Some c" and "ta_From args = None"
    and "0 \<le> n" and "n \<le> uint (LatestBlock c)" and "uint (LatestBlock c) < m" and "m < 2 ^ 63"
    and "\<And>t price gas sender to val input. an_EVMSimulateCall (api_source api) t (word_of_int m) price gas sender to val input = Inr out"
  shows "(\<exists>e s'. api_Call api args \<lparr>bnh_BlockNumber = Some n, bnh_BlockHash = None\<rparr> s = Some (Err e, s'))
    \<and> (\<exists>s'. api_Call api args \<lparr>bnh_BlockNumber = Some m, bnh_BlockHash = None\<rparr> s = Some (Ok out, s'))"
proof -
  have l: "uint (LatestBlock c) < 2 ^ 64" using uint_lt2p [of "LatestBlock c"] by simp
  have n: "(word_of_int n :: u64) \<le> LatestBlock c"
    using assms(4,5) l by (simp add: word_le_def uint_word_of_int)
  have m: "\<not> (word_of_int m :: u64) \<le> LatestBlock c"
  proof -
    have "0 \<le> m" using assms(6) uint_ge_0 [of "LatestBlock c"] by linarith
    then have "uint (word_of_int m :: u64) = m" using assms(7) by (simp add: uint_word_of_int)
    with assms(6) show ?thesis by (simp add: word_le_def)
  qed
  have "0 \<le> m" using assms(6) uint_ge_0 [of "LatestBlock c"] by linarith
  note rn = round_of_number [OF assms(1,4), of s] and rm = round_of_number [OF assms(1) this, of s]
  show ?thesis
    using n m by (simp add: api_Call_def at_round_def p_then_def rn rm shouldQueryArchive_def assms(2,3,8) ask_archive_def
        ar_Call_def ask_node_def Let_def)
qed

definition example_archive :: Client where
  "example_archive = \<lparr>cl_inner = \<lparr>ec_BlockNumber = (\<lambda>_. Inr 100), ec_StorageAt = (\<lambda>_ _ _ _. Inr []), ec_BalanceAt = (\<lambda>_ _ _. Inr 0),
     ec_NonceAt = (\<lambda>_ _ _. Inr 0), ec_CodeAt = (\<lambda>_ _ _. Inr []), ec_CallContract = (\<lambda>_ _ _. Inr [])\<rparr>, cl_latestBlock = 100\<rparr>"

definition example_args :: TransactionArgs where
  "example_args = \<lparr>ta_From = None, ta_To = Some (replicate 20 2), ta_Gas = None, ta_GasPrice = None, ta_MaxFeePerGas = None,
     ta_MaxPriorityFeePerGas = None, ta_Value = None, ta_Nonce = None, ta_Data = None, ta_Input = None,
     ta_AccessList = None, ta_ChainID = None\<rparr>"

lemma archived_call_needs_sender_example:
  "(\<exists>e s'. api_Call (example_api\<lparr>api_archiveClient := Some example_archive\<rparr>) example_args
       \<lparr>bnh_BlockNumber = Some 50, bnh_BlockHash = None\<rparr> example_api_state = Some (Err e, s'))
   \<and> (\<exists>s'. api_Call (example_api\<lparr>api_archiveClient := Some example_archive\<rparr>) example_args
       \<lparr>bnh_BlockNumber = Some 200, bnh_BlockHash = None\<rparr> example_api_state = Some (Ok [1], s'))"
proof -
  let ?api = "example_api\<lparr>api_archiveClient := Some example_archive\<rparr>"
  have t: "tags_ok (api_tags ?api)" by (simp add: example_api_def NewPublicAPI_def geth_tags_ok)
  have l: "uint (LatestBlock example_archive) = 100" by (simp add: LatestBlock_def example_archive_def)
  show ?thesis
    by (rule archived_call_needs_sender [OF t, of example_archive])
      (simp_all add: l example_args_def, simp_all add: example_api_def NewPublicAPI_def example_node_api_def)
qed

end
