(* ===== verification/Gateway_Config.thy ===== *)
theory Gateway_Config
  imports Eth_Api
begin

text \<open>
  \<^verbatim>\<open>conf/config.go\<close>: the configuration of the gateway and its validation. A section that may be left out is
  an option. The log format and level are checked by oasis-core: the parameters \<open>format_Set\<close> and
  \<open>level_Set\<close>. Durations are nanoseconds. Files and the merging of values are koanf's: the parameters \<open>load_file\<close>,
  \<open>merge_env\<close> and \<open>unmarshal\<close>, over koanf's own tree of values.
\<close>

record LogConfig =
  lc_Format :: string
  lc_Level :: string
  lc_File :: string

record DatabaseConfig =
  dc_Host :: string
  dc_Port :: int
  dc_DB :: string
  dc_User :: string
  dc_Password :: string
  dc_DialTimeout :: int
  dc_ReadTimeout :: int
  dc_WriteTimeout :: int
  dc_MaxOpenConns :: int

record HTTPTimeouts =
  to_Read :: "int option"
  to_Write :: "int option"
  to_Idle :: "int option"

record GatewayHTTPConfig =
  gh_Host :: string
  gh_Port :: int
  gh_Cors :: "string list"
  gh_VirtualHosts :: "string list"
  gh_PathPrefix :: string
  gh_Timeouts :: "HTTPTimeouts option"

record GatewayWSConfig =
  gw_Host :: string
  gw_Port :: int
  gw_PathPrefix :: string
  gw_Origins :: "string list"
  gw_Timeouts :: "HTTPTimeouts option"

record GatewayMonitoringConfig =
  gm_Host :: string
  gm_Port :: int

record GatewayConfig =
  gc_HTTP :: "GatewayHTTPConfig option"
  gc_Monitoring :: "GatewayMonitoringConfig option"
  gc_WS :: "GatewayWSConfig option"
  gc_ChainID :: u32
  gc_MethodLimits :: "MethodLimits option"
  gc_ExposeOasisRPCs :: bool

record Config =
  cf_RuntimeID :: string
  cf_NodeAddress :: string
  cf_NodeCachePath :: "string option"
  cf_EnablePruning :: bool
  cf_PruningStep :: u64
  cf_IndexingStart :: u64
  cf_IndexingEnd :: u64
  cf_IndexingDisable :: bool
  cf_Log :: "LogConfig option"
  cf_Cache :: "CacheConfig option"
  cf_Database :: "DatabaseConfig option"
  cf_Gateway :: "GatewayConfig option"
  cf_Gas :: "GasConfig option"
  cf_ArchiveURI :: string
  cf_ArchiveHeightMax :: u64
  cf_PprofAddr :: string

definition Enabled :: "GatewayMonitoringConfig option \<Rightarrow> bool" where
  "Enabled cfg = (case cfg of None \<Rightarrow> False | Some c \<Rightarrow> if gm_Host c = [] then False else True)"

definition Address :: "GatewayMonitoringConfig option \<Rightarrow> string" where
  "Address cfg = (case cfg of
       Some c \<Rightarrow> if \<not> Enabled cfg then [] else gm_Host c @ '':'' @ big_String (gm_Port c)
     | None \<Rightarrow> [])"

definition LogConfig_Validate :: "(string \<Rightarrow> gerror option) \<Rightarrow> (string \<Rightarrow> gerror option) \<Rightarrow> LogConfig \<Rightarrow> unit outcome" where
  "LogConfig_Validate format_Set level_Set cfg = (case format_Set (lc_Format cfg) of
       Some e \<Rightarrow> Err e
     | None \<Rightarrow> (case level_Set (lc_Level cfg) of Some e \<Rightarrow> Err e | None \<Rightarrow> Ok ()))"

definition DatabaseConfig_Validate :: "DatabaseConfig \<Rightarrow> unit outcome" where
  "DatabaseConfig_Validate cfg = (if dc_Host cfg = [] then Err (Errorf ''malformed database host'') else Ok ())"

definition GatewayConfig_Validate :: "GatewayConfig \<Rightarrow> unit outcome" where
  "GatewayConfig_Validate cfg = Ok ()"

definition GasConfig_Validate :: "GasConfig \<Rightarrow> unit outcome" where
  "GasConfig_Validate cfg =
     (if f_lt (gc_BlockFullThreshold cfg) (Fin 0) \<or> f_lt (Fin 1) (gc_BlockFullThreshold cfg)
      then Err (Errorf ''block full threshold must be in range [0, 1]'') else Ok ())"

text \<open>An optional section: a nil one is skipped, an error is wrapped with the name of the section.\<close>

definition opt_section :: "(gerror \<Rightarrow> gerror) \<Rightarrow> ('c \<Rightarrow> unit outcome) \<Rightarrow> 'c option \<Rightarrow> (unit, unit) call" where
  "opt_section wrap check cfg s = (case cfg of
       None \<Rightarrow> (Ok (), s)
     | Some c \<Rightarrow> (case check c of Err e \<Rightarrow> Err (wrap e) | r \<Rightarrow> r, s))"

definition Validate :: "(string \<Rightarrow> gerror option) \<Rightarrow> (string \<Rightarrow> gerror option) \<Rightarrow> Config \<Rightarrow> unit outcome" where
  "Validate format_Set level_Set cfg =
     (if cf_RuntimeID cfg = [] then Err (Errorf ''malformed runtime ID'')
      else if cf_NodeAddress cfg = [] then Err (Errorf ''malformed node address'')
      else fst (and_then (opt_section id (LogConfig_Validate format_Set level_Set) (cf_Log cfg)) (\<lambda>_.
        and_then (opt_section (Wrapf ''database'') DatabaseConfig_Validate (cf_Database cfg)) (\<lambda>_.
        and_then (opt_section (Wrapf ''gateway'') GatewayConfig_Validate (cf_Gateway cfg)) (\<lambda>_.
          opt_section (Wrapf ''gas'') GasConfig_Validate (cf_Gas cfg)))) ()))"

text \<open>The key of an environment variable (of ASCII letters): lower case, with every \<open>__\<close> (leftmost first) read as the hierarchy delimiter.\<close>

definition to_lower :: "char \<Rightarrow> char" where
  "to_lower c = (if 65 \<le> (of_char c :: nat) \<and> (of_char c :: nat) \<le> 90 then char_of ((of_char c :: nat) + 32) else c)"

fun replace_delim :: "string \<Rightarrow> string" where
  "replace_delim (a # b # cs) =
     (if a = CHR ''_'' \<and> b = CHR ''_'' then CHR ''.'' # replace_delim cs else a # replace_delim (b # cs))"
| "replace_delim cs = cs"

definition env_key :: "string \<Rightarrow> string" where
  "env_key s = replace_delim (map to_lower s)"

definition InitConfig :: "(string \<Rightarrow> gerror option) \<Rightarrow> (string \<Rightarrow> gerror option) \<Rightarrow> (string \<Rightarrow> gerror + 'k)
    \<Rightarrow> ((string \<times> string) list \<Rightarrow> 'k \<Rightarrow> gerror + 'k) \<Rightarrow> ('k \<Rightarrow> gerror + Config)
    \<Rightarrow> (string \<times> string) list \<Rightarrow> string \<Rightarrow> Config outcome" where
  "InitConfig format_Set level_Set load_file merge_env unmarshal environ f =
     (case load_file f of
        Inl e \<Rightarrow> Err e
      | Inr k \<Rightarrow>
         (case merge_env (map (\<lambda>(name, v). (env_key name, v)) environ) k of
            Inl e \<Rightarrow> Err e
          | Inr k' \<Rightarrow>
             (case unmarshal k' of
                Inl e \<Rightarrow> Err e
              | Inr config \<Rightarrow>
                 (case Validate format_Set level_Set config of
                    Ok _ \<Rightarrow> Ok config | Err e \<Rightarrow> Err e | Panic p \<Rightarrow> Panic p))))"

lemma env_key_example: "env_key ''GATEWAY__CHAIN_ID'' = ''gateway.chain_id''"
  by code_simp

lemma init_config_validated:
  "InitConfig fs ls load merge unm environ f = Ok cfg \<Longrightarrow> Validate fs ls cfg = Ok ()"
  by (auto simp: InitConfig_def split: sum.splits outcome.splits)

text \<open>A validated configuration: what the rest of the program may rely on.\<close>

lemma opt_section_Ok: "opt_section wrap check cfg s = (Ok u, s') \<longleftrightarrow> s' = s \<and> (\<forall>c. cfg = Some c \<longrightarrow> check c = Ok ())"
  by (auto simp: opt_section_def split: option.splits outcome.splits)

lemma validated_config:
  assumes "Validate format_Set level_Set cfg = Ok ()"
  shows "cf_RuntimeID cfg \<noteq> [] \<and> cf_NodeAddress cfg \<noteq> [] \<and> (\<forall>d. cf_Database cfg = Some d \<longrightarrow> dc_Host d \<noteq> [])
    \<and> (\<forall>g. cf_Gas cfg = Some g \<longrightarrow> \<not> f_lt (gc_BlockFullThreshold g) (Fin 0) \<and> \<not> f_lt (Fin 1) (gc_BlockFullThreshold g))"
proof -
  have "cf_RuntimeID cfg \<noteq> []" "cf_NodeAddress cfg \<noteq> []" using assms by (auto simp: Validate_def split: if_splits)
  moreover from this assms have "fst (and_then (opt_section id (LogConfig_Validate format_Set level_Set) (cf_Log cfg)) (\<lambda>_.
        and_then (opt_section (Wrapf ''database'') DatabaseConfig_Validate (cf_Database cfg)) (\<lambda>_.
        and_then (opt_section (Wrapf ''gateway'') GatewayConfig_Validate (cf_Gateway cfg)) (\<lambda>_.
          opt_section (Wrapf ''gas'') GasConfig_Validate (cf_Gas cfg)))) ()) = Ok ()" by (simp add: Validate_def)
  then obtain s where "and_then (opt_section id (LogConfig_Validate format_Set level_Set) (cf_Log cfg)) (\<lambda>_.
        and_then (opt_section (Wrapf ''database'') DatabaseConfig_Validate (cf_Database cfg)) (\<lambda>_.
        and_then (opt_section (Wrapf ''gateway'') GatewayConfig_Validate (cf_Gateway cfg)) (\<lambda>_.
          opt_section (Wrapf ''gas'') GasConfig_Validate (cf_Gas cfg)))) () = (Ok (), s)" by (metis prod.collapse)
  then have "\<forall>d. cf_Database cfg = Some d \<longrightarrow> DatabaseConfig_Validate d = Ok ()" "\<forall>g. cf_Gas cfg = Some g \<longrightarrow> GasConfig_Validate g = Ok ()"
    unfolding and_then_Ok_iff opt_section_Ok by auto
  ultimately show ?thesis by (auto simp: DatabaseConfig_Validate_def GasConfig_Validate_def split: if_splits)
qed

end
