(* ===== verification/Gateway_Server.thy ===== *)
theory Gateway_Server
  imports Gateway_Config
begin

text \<open>
  \<^verbatim>\<open>server/server.go\<close>, \<^verbatim>\<open>server/json_rpc.go\<close> and \<^verbatim>\<open>rpc/oasis/health.go\<close>: the life cycle of the gateway with its HTTP and
  WebSocket servers, the \<^verbatim>\<open>/health\<close> endpoint and the health checker of the \<open>oasis_\<close> API. The operating system
  and go-ethereum's RPC server are parameters: whether an address can be listened on and the address of the listener, the
  port read from it (\<open>net.SplitHostPort\<close> and \<open>strconv.Atoi\<close>), whether a service can be registered, and the default
  timeouts. Health checks are numbered; what each answers is an argument of the \<^verbatim>\<open>/health\<close> handler.
\<close>

subsection \<open>HTTP servers\<close>

record timeouts =
  tm_Read :: int
  tm_Write :: int
  tm_Idle :: int

record httpConfig =
  hc_Modules :: "string list"
  hc_CorsAllowedOrigins :: "string list"
  hc_Vhosts :: "string list"
  hc_prefix :: string

record wsConfig =
  wc_Origins :: "string list"
  wc_Modules :: "string list"
  wc_prefix :: string

record server_env =
  env_Listen :: "string \<Rightarrow> gerror + string"
  env_SplitPort :: "string \<Rightarrow> gerror + int"
  env_RegisterName :: "string \<Rightarrow> gerror option"
  env_DefaultTimeouts :: timeouts

text \<open>The handler a server serves: the registered namespaces, the prefix, the origins of the CORS handler (none: no CORS), and the
  health checks of the \<^verbatim>\<open>/health\<close> route, where there is one.\<close>

record handler =
  hd_namespaces :: "string list"
  hd_prefix :: string
  hd_cors :: "string list"
  hd_health :: "nat list option"

record httpServer =
  hs_timeouts :: timeouts
  hs_server :: "timeouts option"
  hs_rpcHandler :: "handler option"
  hs_rpcServer :: "string list option"
  hs_httpConfig :: httpConfig
  hs_wsConfig :: wsConfig
  hs_endpoint :: string
  hs_host :: string
  hs_port :: int

definition newHTTPServer :: "timeouts \<Rightarrow> httpServer" where
  "newHTTPServer t = \<lparr>hs_timeouts = t, hs_server = None, hs_rpcHandler = None, hs_rpcServer = None,
     hs_httpConfig = \<lparr>hc_Modules = [], hc_CorsAllowedOrigins = [], hc_Vhosts = [], hc_prefix = []\<rparr>,
     hs_wsConfig = \<lparr>wc_Origins = [], wc_Modules = [], wc_prefix = []\<rparr>, hs_endpoint = [], hs_host = [], hs_port = 0\<rparr>"

definition setListenAddr :: "string \<Rightarrow> int \<Rightarrow> httpServer \<Rightarrow> httpServer" where
  "setListenAddr host port h = h\<lparr>hs_host := host, hs_port := port, hs_endpoint := host @ '':'' @ big_String port\<rparr>"

definition second :: int where
  "second = 1000000000"

definition CheckTimeouts :: "timeouts \<Rightarrow> timeouts \<Rightarrow> timeouts" where
  "CheckTimeouts defaults t = \<lparr>tm_Read = (if tm_Read t < second then tm_Read defaults else tm_Read t),
     tm_Write = (if tm_Write t < second then tm_Write defaults else tm_Write t),
     tm_Idle = (if tm_Idle t < second then tm_Idle defaults else tm_Idle t)\<rparr>"

definition zero_timeouts :: timeouts where
  "zero_timeouts = \<lparr>tm_Read = 0, tm_Write = 0, tm_Idle = 0\<rparr>"

definition hs_start :: "server_env \<Rightarrow> (httpServer, unit) call" where
  "hs_start env h =
     (if hs_endpoint h = [] then (Ok (), h)
      else let t = CheckTimeouts (env_DefaultTimeouts env)
                 (if hs_timeouts h = zero_timeouts then env_DefaultTimeouts env else hs_timeouts h);
               h1 = h\<lparr>hs_timeouts := t, hs_server := Some t\<rparr>
        in case env_Listen env (hs_endpoint h) of
             Inl e \<Rightarrow> (Err e, h1)
           | Inr addr \<Rightarrow>
              if hs_port h1 \<noteq> 0 then (Ok (), h1)
              else let h2 = h1\<lparr>hs_endpoint := addr\<rparr> in
                case env_SplitPort env addr of Inl e \<Rightarrow> (Err e, h2) | Inr port \<Rightarrow> (Ok (), h2\<lparr>hs_port := port\<rparr>))"

text \<open>\<open>Shutdown\<close> on a server that was never created is a method call on a nil pointer that reads its fields.\<close>

definition hs_stop :: "httpServer \<Rightarrow> unit outcome" where
  "hs_stop h = (case hs_server h of None \<Rightarrow> Panic ''nil pointer dereference'' | Some _ \<Rightarrow> Ok ())"

definition validatePrefix :: "string \<Rightarrow> string \<Rightarrow> unit outcome" where
  "validatePrefix what path =
     (case path of
        [] \<Rightarrow> Ok ()
      | c # _ \<Rightarrow>
          if c \<noteq> CHR ''/'' then Err (Errorf (what @ '' RPC path prefix does not contain leading /''))
          else if CHR ''?'' \<in> set path \<or> CHR ''#'' \<in> set path
          then Err (Errorf (what @ '' RPC path prefix contains URL meta-characters''))
          else Ok ())"

text \<open>\<open>RegisterApis\<close>: the namespaces registered, in order; \<open>apis\<close> lists namespace and \<open>Public\<close>.\<close>

fun RegisterApis :: "server_env \<Rightarrow> string list \<Rightarrow> bool \<Rightarrow> (string \<times> bool) list \<Rightarrow> string list outcome" where
  "RegisterApis env modules exposeAll [] = Ok []"
| "RegisterApis env modules exposeAll ((ns, pub) # apis) =
     (if exposeAll \<or> ns \<in> set modules \<or> (modules = [] \<and> pub)
      then (case env_RegisterName env ns of
              Some e \<Rightarrow> Err e
            | None \<Rightarrow> (case RegisterApis env modules exposeAll apis of Ok rest \<Rightarrow> Ok (ns # rest) | r \<Rightarrow> r))
      else RegisterApis env modules exposeAll apis)"

definition newCorsHandler :: "handler \<Rightarrow> string list \<Rightarrow> handler" where
  "newCorsHandler srv allowedOrigins = (if allowedOrigins = [] then srv else srv\<lparr>hd_cors := allowedOrigins\<rparr>)"

definition enableRPC :: "server_env \<Rightarrow> (string \<times> bool) list \<Rightarrow> nat list \<Rightarrow> httpConfig \<Rightarrow> (httpServer, unit) call" where
  "enableRPC env apis healthChecks config h = (case RegisterApis env (hc_Modules config) False apis of
       Ok names \<Rightarrow> (Ok (), h\<lparr>hs_rpcServer := Some names, hs_rpcHandler := Some (newCorsHandler
           \<lparr>hd_namespaces = names, hd_prefix = hc_prefix config, hd_cors = [], hd_health = Some healthChecks\<rparr>
           (hc_CorsAllowedOrigins (hs_httpConfig h))), hs_httpConfig := config\<rparr>)
     | Err e \<Rightarrow> (Err e, h)
     | Panic p \<Rightarrow> (Panic p, h))"

definition enableWS :: "server_env \<Rightarrow> (string \<times> bool) list \<Rightarrow> wsConfig \<Rightarrow> (httpServer, unit) call" where
  "enableWS env apis config h = (case RegisterApis env (wc_Modules config) False apis of
       Ok names \<Rightarrow> (Ok (), h\<lparr>hs_rpcServer := Some names, hs_rpcHandler := Some
           \<lparr>hd_namespaces = names, hd_prefix = wc_prefix config, hd_cors = [], hd_health = None\<rparr>, hs_wsConfig := config\<rparr>)
     | Err e \<Rightarrow> (Err e, h)
     | Panic p \<Rightarrow> (Panic p, h))"

text \<open>The \<^verbatim>\<open>/health\<close> handler: the status code and the new value of the health gauge, given what the checks answer.\<close>

fun health_status :: "(nat \<Rightarrow> gerror option) \<Rightarrow> nat list \<Rightarrow> nat \<times> nat" where
  "health_status Health_of [] = (200, 1)"
| "health_status Health_of (c # cs) = (case Health_of c of Some e \<Rightarrow> (503, 0) | None \<Rightarrow> health_status Health_of cs)"

definition healthCheckHandler :: "(nat \<Rightarrow> gerror option) \<Rightarrow> nat list \<Rightarrow> string \<Rightarrow> nat \<Rightarrow> nat \<times> nat" where
  "healthCheckHandler Health_of healthChecks meth gauge =
     (if meth \<noteq> ''GET'' then (404, gauge) else health_status Health_of healthChecks)"

subsection \<open>The gateway\<close>

datatype gateway_state = initializingState | runningState | closedState

record Web3Gateway =
  wg_config :: GatewayConfig
  wg_stop_closed :: bool
  wg_state :: gateway_state
  wg_rpcAPIs :: "(string \<times> bool) list"
  wg_healthChecks :: "nat list"
  wg_http :: "httpServer option"
  wg_ws :: "httpServer option"

definition timeoutsFromCfg :: "timeouts \<Rightarrow> HTTPTimeouts option \<Rightarrow> timeouts" where
  "timeoutsFromCfg defaults cfg = (case cfg of
       None \<Rightarrow> defaults
     | Some c \<Rightarrow> \<lparr>tm_Read = (case to_Read c of None \<Rightarrow> tm_Read defaults | Some d \<Rightarrow> d),
         tm_Write = (case to_Write c of None \<Rightarrow> tm_Write defaults | Some d \<Rightarrow> d),
         tm_Idle = (case to_Idle c of None \<Rightarrow> tm_Idle defaults | Some d \<Rightarrow> d)\<rparr>)"

text \<open>\<open>New\<close> reads \<open>conf.HTTP.PathPrefix\<close> and \<open>conf.WS.PathPrefix\<close> before it checks the sections for nil.\<close>

definition NewGateway :: "server_env \<Rightarrow> GatewayConfig option \<Rightarrow> Web3Gateway outcome" where
  "NewGateway env conf = (case conf of
       None \<Rightarrow> Err (Errorf ''missing gateway config'')
     | Some c \<Rightarrow>
        (case gc_HTTP c of
           None \<Rightarrow> Panic ''nil pointer dereference''
         | Some hc \<Rightarrow>
            (case validatePrefix ''HTTP'' (gh_PathPrefix hc) of
               Err e \<Rightarrow> Err e
             | Panic p \<Rightarrow> Panic p
             | Ok _ \<Rightarrow>
                (case gc_WS c of
                   None \<Rightarrow> Panic ''nil pointer dereference''
                 | Some wc \<Rightarrow>
                    (case validatePrefix ''WebSocket'' (gw_PathPrefix wc) of
                       Err e \<Rightarrow> Err e
                     | Panic p \<Rightarrow> Panic p
                     | Ok _ \<Rightarrow> Ok \<lparr>wg_config = c, wg_stop_closed = False, wg_state = initializingState, wg_rpcAPIs = [], wg_healthChecks = [],
                         wg_http = Some (newHTTPServer (timeoutsFromCfg (env_DefaultTimeouts env) (gh_Timeouts hc))),
                         wg_ws = Some (newHTTPServer (timeoutsFromCfg (env_DefaultTimeouts env) (gw_Timeouts wc)))\<rparr>)))))"

definition rpc_modules :: "string list" where
  "rpc_modules = [''net'', ''web3'', ''eth'', ''txpool'', ''oasis'']"

text \<open>A call on one of the two servers; on a nil one it is a nil dereference.\<close>

definition on_http :: "(httpServer, unit) call \<Rightarrow> (Web3Gateway, unit) call" where
  "on_http f g = (case wg_http g of None \<Rightarrow> (Panic ''nil pointer dereference'', g)
     | Some h \<Rightarrow> (case f h of (r, h') \<Rightarrow> (r, g\<lparr>wg_http := Some h'\<rparr>)))"

definition on_ws :: "(httpServer, unit) call \<Rightarrow> (Web3Gateway, unit) call" where
  "on_ws f g = (case wg_ws g of None \<Rightarrow> (Panic ''nil pointer dereference'', g)
     | Some h \<Rightarrow> (case f h of (r, h') \<Rightarrow> (r, g\<lparr>wg_ws := Some h'\<rparr>)))"

definition startRPC :: "server_env \<Rightarrow> (Web3Gateway, unit) call" where
  "startRPC env g = and_then
     (case gc_HTTP (wg_config g) of
        None \<Rightarrow> ret ()
      | Some c \<Rightarrow> on_http (\<lambda>h. enableRPC env (wg_rpcAPIs g) (wg_healthChecks g)
          \<lparr>hc_Modules = rpc_modules, hc_CorsAllowedOrigins = gh_Cors c, hc_Vhosts = gh_VirtualHosts c, hc_prefix = gh_PathPrefix c\<rparr>
          (setListenAddr (gh_Host c) (gh_Port c) h))) (\<lambda>_.
     and_then (case gc_WS (wg_config g) of
        None \<Rightarrow> ret ()
      | Some c \<Rightarrow> on_ws (\<lambda>h. enableWS env (wg_rpcAPIs g)
          \<lparr>wc_Origins = gw_Origins c, wc_Modules = rpc_modules, wc_prefix = gw_PathPrefix c\<rparr>
          (setListenAddr (gw_Host c) (gw_Port c) h))) (\<lambda>_.
     and_then (on_http (hs_start env)) (\<lambda>_. on_ws (hs_start env)))) g"

definition stopRPC :: "Web3Gateway \<Rightarrow> unit outcome" where
  "stopRPC g = (case (case wg_http g of None \<Rightarrow> Ok () | Some h \<Rightarrow> hs_stop h) of
       Ok _ \<Rightarrow> (case wg_ws g of None \<Rightarrow> Ok () | Some h \<Rightarrow> hs_stop h)
     | r \<Rightarrow> r)"

text \<open>\<open>close(srv.stop)\<close>: closing a closed channel is a panic.\<close>

definition doClose :: "gerror list \<Rightarrow> (Web3Gateway, unit) call" where
  "doClose errs g =
     (if wg_stop_closed g then (Panic ''close of closed channel'', g)
      else (case errs of [] \<Rightarrow> Ok () | [e] \<Rightarrow> Err e | _ \<Rightarrow> Err (Errorf ''errors''), g\<lparr>wg_stop_closed := True\<rparr>))"

text \<open>The monitoring server serves in a goroutine of its own; only listening can fail.\<close>

definition startPrometheusServer :: "server_env \<Rightarrow> string \<Rightarrow> unit outcome" where
  "startPrometheusServer env address = (case env_Listen env address of Inl e \<Rightarrow> Err e | Inr _ \<Rightarrow> Ok ())"

definition gw_Start :: "server_env \<Rightarrow> (Web3Gateway, unit) call" where
  "gw_Start env g = (case wg_state g of
       runningState \<Rightarrow> (Err ErrServerRunning, g)
     | closedState \<Rightarrow> (Err ErrServerStopped, g)
     | initializingState \<Rightarrow>
        (case startRPC env (g\<lparr>wg_state := runningState\<rparr>) of
           (Panic p, g1) \<Rightarrow> (Panic p, g1)
         | (Err e, g1) \<Rightarrow>
            (case stopRPC g1 of
               Panic p \<Rightarrow> (Panic p, g1)
             | _ \<Rightarrow> (case doClose [] g1 of (Panic p, g2) \<Rightarrow> (Panic p, g2) | (_, g2) \<Rightarrow> (Err e, g2)))
         | (Ok _, g1) \<Rightarrow>
            (if Enabled (gc_Monitoring (wg_config g))
             then (startPrometheusServer env (Address (gc_Monitoring (wg_config g))), g1)
             else (Ok (), g1))))"

definition gw_Close :: "(Web3Gateway, unit) call" where
  "gw_Close g = (case wg_state g of
       initializingState \<Rightarrow> doClose [] g
     | runningState \<Rightarrow> doClose [Errorf ''error in function close''] g
     | closedState \<Rightarrow> (Err ErrServerStopped, g))"

text \<open>\<open>Wait\<close> reads from the channel that \<open>Close\<close> closes; \<open>None\<close> is waiting.\<close>

definition gw_Wait :: "Web3Gateway \<Rightarrow> unit option" where
  "gw_Wait g = (if wg_stop_closed g then Some () else None)"

lemma wait_returns_after_close:
  assumes "gw_Close g = (r, g')" and "wg_state g \<noteq> closedState"
  shows "gw_Wait g' = Some ()"
  using assms by (auto simp: gw_Close_def gw_Wait_def doClose_def split: gateway_state.splits if_splits)

text \<open>The server of the process, which forwards to the gateway.\<close>

record Server =
  sv_Config :: Config
  sv_Web3 :: Web3Gateway

definition on_web3 :: "(Web3Gateway, unit) call \<Rightarrow> (Server, unit) call" where
  "on_web3 f s = (case f (sv_Web3 s) of (r, g) \<Rightarrow> (r, s\<lparr>sv_Web3 := g\<rparr>))"

definition sv_Start :: "server_env \<Rightarrow> (Server, unit) call" where
  "sv_Start env = on_web3 (gw_Start env)"

definition sv_Wait :: "Server \<Rightarrow> unit option" where
  "sv_Wait s = gw_Wait (sv_Web3 s)"

definition sv_Close :: "(Server, unit) call" where
  "sv_Close = on_web3 gw_Close"

definition RegisterGatewayAPIs :: "(string \<times> bool) list \<Rightarrow> (Web3Gateway, unit) call" where
  "RegisterGatewayAPIs apis g =
     (if wg_state g \<noteq> initializingState then (Panic ''can't register APIs on running/stopped server'', g)
      else (Ok (), g\<lparr>wg_rpcAPIs := wg_rpcAPIs g @ apis\<rparr>))"

definition RegisterHealthChecks :: "nat list \<Rightarrow> (Web3Gateway, unit) call" where
  "RegisterHealthChecks checks g =
     (if wg_state g \<noteq> initializingState then (Panic ''can't register APIs on running/stopped server'', g)
      else (Ok (), g\<lparr>wg_healthChecks := wg_healthChecks g @ checks\<rparr>))"

definition GetHTTPEndpoint :: "Web3Gateway \<Rightarrow> string outcome" where
  "GetHTTPEndpoint g = (case wg_http g of None \<Rightarrow> Err (Errorf ''failed to obtain http endpoint'')
     | Some h \<Rightarrow> Ok (''http://'' @ hs_endpoint h))"

definition GetWSEndpoint :: "Web3Gateway \<Rightarrow> string outcome" where
  "GetWSEndpoint g = (case wg_ws g of None \<Rightarrow> Err (Errorf ''failed to obtain websocket endpoint'')
     | Some h \<Rightarrow> Ok (''ws://'' @ hs_endpoint h))"

subsection \<open>The health checker of the \<open>oasis_\<close> API\<close>

record healthChecker =
  hk_health :: u32
  hk_failures :: u64

definition healthUnhealthyThreshold :: u64 where
  "healthUnhealthyThreshold = 3"

definition hk_Health :: "healthChecker \<Rightarrow> unit outcome" where
  "hk_Health h = (if hk_health h = 0 then Err (Errorf ''oasis API not healthy'') else Ok ())"

definition hk_updateHealth :: "bool \<Rightarrow> healthChecker \<Rightarrow> healthChecker" where
  "hk_updateHealth healthy h = h\<lparr>hk_health := (if healthy then 1 else 0)\<rparr>"

definition recordResult :: "gerror option \<Rightarrow> healthChecker \<Rightarrow> healthChecker" where
  "recordResult err h = (case err of
       None \<Rightarrow> hk_updateHealth True (h\<lparr>hk_failures := 0\<rparr>)
     | Some _ \<Rightarrow>
        (let h1 = h\<lparr>hk_failures := hk_failures h + 1\<rparr> in
         if hk_failures h1 < healthUnhealthyThreshold then h1 else hk_updateHealth False h1))"

definition nextInterval :: "healthChecker \<Rightarrow> int" where
  "nextInterval h = (if 0 < hk_failures h then 5 * second else 30 * second)"

definition new_checker :: healthChecker where
  "new_checker = \<lparr>hk_health = 0, hk_failures = 0\<rparr>"

text \<open>The loop of the checker: the results of its probes until the context is done.\<close>

fun hk_run :: "gerror option list \<Rightarrow> healthChecker \<Rightarrow> healthChecker" where
  "hk_run [] h = hk_updateHealth False h"
| "hk_run (err # results) h = hk_run results (recordResult err h)"

record call_data_key =
  ck_PublicKey :: bytes
  ck_Checksum :: bytes
  ck_Signature :: bytes
  ck_Epoch :: u64

definition CallDataPublicKey :: "gerror + call_data_key \<Rightarrow> call_data_key outcome" where
  "CallDataPublicKey answer = (case answer of Inl _ \<Rightarrow> Err ErrInternalError | Inr k \<Rightarrow> Ok k)"

subsection \<open>When the \<open>oasis_\<close> API counts as healthy\<close>

definition recent_failures :: "gerror option list \<Rightarrow> nat" where
  "recent_failures rs = length (takeWhile (\<lambda>r. r \<noteq> None) (rev rs))"

lemma record_failure: "recordResult (Some e) h = (if hk_failures h + 1 < 3 then h\<lparr>hk_failures := hk_failures h + 1\<rparr>
    else h\<lparr>hk_failures := hk_failures h + 1, hk_health := 0\<rparr>)"
  by (simp add: recordResult_def Let_def healthUnhealthyThreshold_def hk_updateHealth_def)

lemma record_success: "recordResult None h = h\<lparr>hk_failures := 0, hk_health := 1\<rparr>"
  by (simp add: recordResult_def hk_updateHealth_def)

lemma few_failures: "n < 3 \<Longrightarrow> (word_of_nat n + 1 < (3 :: u64)) \<longleftrightarrow> Suc n < 3"
proof -
  assume "n < 3"
  then have "n = 0 \<or> n = 1 \<or> n = 2" by auto
  then show ?thesis by auto
qed

lemma checker_invariant:
  "hk_failures (fold recordResult rs new_checker) = word_of_nat (recent_failures rs)
   \<and> hk_health (fold recordResult rs new_checker) = (if None \<in> set rs \<and> recent_failures rs < 3 then 1 else 0)"
proof (induction rs rule: rev_induct)
  case Nil
  then show ?case by (simp add: new_checker_def recent_failures_def)
next
  case (snoc r rs)
  define h where "h = fold recordResult rs new_checker"
  have step: "fold recordResult (rs @ [r]) new_checker = recordResult r h" by (simp add: h_def)
  show ?case
  proof (cases r)
    case None
    then show ?thesis unfolding step unfolding None record_success by (simp add: recent_failures_def)
  next
    case (Some e)
    have n: "recent_failures (rs @ [r]) = Suc (recent_failures rs)" using Some by (simp add: recent_failures_def)
    have IH: "hk_failures h = word_of_nat (recent_failures rs)"
      "hk_health h = (if None \<in> set rs \<and> recent_failures rs < 3 then 1 else 0)"
      using snoc by (simp_all add: h_def)
    show ?thesis unfolding step n unfolding Some record_failure IH(1)
      using IH(2) few_failures [of "recent_failures rs"] by (auto simp: add.commute)
  qed
qed

text \<open>
  the health check tolerates short outages: after any sequence of probes the \<open>oasis_\<close> API is reported healthy exactly when
  some probe has succeeded and fewer than three probes have failed since; the failure counter wrapping around makes no
  difference.
\<close>

lemma oasis_health_hysteresis:
  "hk_Health (fold recordResult rs new_checker) = Ok () \<longleftrightarrow> None \<in> set rs \<and> recent_failures rs < 3"
  using checker_invariant [of rs] by (simp add: hk_Health_def)

lemma hk_run_unhealthy: "hk_Health (hk_run results h) = Err (Errorf ''oasis API not healthy'')"
  by (induction results h rule: hk_run.induct) (simp_all add: hk_updateHealth_def hk_Health_def)

subsection \<open>The life cycle of the gateway\<close>

text \<open>What can happen to a gateway: construction, registration, starts and closes that did not panic.\<close>

inductive gw_reach :: "server_env \<Rightarrow> Web3Gateway \<Rightarrow> bool" for env :: server_env where
  gw_new: "NewGateway env conf = Ok g \<Longrightarrow> gw_reach env g"
| gw_register: "gw_reach env g \<Longrightarrow> RegisterGatewayAPIs apis g = (Ok u, g') \<Longrightarrow> gw_reach env g'"
| gw_register_checks: "gw_reach env g \<Longrightarrow> RegisterHealthChecks checks g = (Ok u, g') \<Longrightarrow> gw_reach env g'"
| gw_start: "gw_reach env g \<Longrightarrow> gw_Start env g = (r, g') \<Longrightarrow> (\<And>p. r \<noteq> Panic p) \<Longrightarrow> gw_reach env g'"
| gw_close: "gw_reach env g \<Longrightarrow> gw_Close g = (r, g') \<Longrightarrow> (\<And>p. r \<noteq> Panic p) \<Longrightarrow> gw_reach env g'"

lemma on_http_state: "on_http f g = (r, g') \<Longrightarrow> wg_state g' = wg_state g \<and> wg_stop_closed g' = wg_stop_closed g"
  by (auto simp: on_http_def split: option.splits prod.splits)

lemma on_ws_state: "on_ws f g = (r, g') \<Longrightarrow> wg_state g' = wg_state g \<and> wg_stop_closed g' = wg_stop_closed g"
  by (auto simp: on_ws_def split: option.splits prod.splits)

definition keeps_state :: "(Web3Gateway, unit) call \<Rightarrow> bool" where
  "keeps_state f \<longleftrightarrow> (\<forall>g r g'. f g = (r, g') \<longrightarrow> wg_state g' = wg_state g \<and> wg_stop_closed g' = wg_stop_closed g)"

lemma keeps_stateD: "keeps_state f \<Longrightarrow> f g = (r, g') \<Longrightarrow> wg_state g' = wg_state g \<and> wg_stop_closed g' = wg_stop_closed g"
  unfolding keeps_state_def by blast

lemma keeps_state_then: "keeps_state f \<Longrightarrow> (\<And>u. keeps_state (h u)) \<Longrightarrow> keeps_state (and_then f h)"
  unfolding keeps_state_def by (auto split: prod.splits outcome.splits)

lemma startRPC_state: "startRPC env g = (r, g') \<Longrightarrow> wg_state g' = wg_state g \<and> wg_stop_closed g' = wg_stop_closed g"
proof -
  assume s: "startRPC env g = (r, g')"
  have k: "keeps_state (on_http f)" "keeps_state (on_ws f)" "keeps_state (ret ())" for f
    by (auto simp: keeps_state_def ret_def dest: on_http_state on_ws_state)
  have h: "keeps_state (case c of None \<Rightarrow> ret () | Some c' \<Rightarrow> on_http (f c'))" for c :: "GatewayHTTPConfig option" and f
    by (cases c) (simp_all add: k)
  have w: "keeps_state (case c of None \<Rightarrow> ret () | Some c' \<Rightarrow> on_ws (f c'))" for c :: "GatewayWSConfig option" and f
    by (cases c) (simp_all add: k)
  have "keeps_state (and_then
     (case gc_HTTP (wg_config g0) of None \<Rightarrow> ret () | Some c \<Rightarrow> on_http (\<lambda>h. enableRPC env (wg_rpcAPIs g0) (wg_healthChecks g0)
          \<lparr>hc_Modules = rpc_modules, hc_CorsAllowedOrigins = gh_Cors c, hc_Vhosts = gh_VirtualHosts c, hc_prefix = gh_PathPrefix c\<rparr>
          (setListenAddr (gh_Host c) (gh_Port c) h))) (\<lambda>_.
     and_then (case gc_WS (wg_config g0) of None \<Rightarrow> ret () | Some c \<Rightarrow> on_ws (\<lambda>h. enableWS env (wg_rpcAPIs g0)
          \<lparr>wc_Origins = gw_Origins c, wc_Modules = rpc_modules, wc_prefix = gw_PathPrefix c\<rparr>
          (setListenAddr (gw_Host c) (gw_Port c) h))) (\<lambda>_.
     and_then (on_http (hs_start env)) (\<lambda>_. on_ws (hs_start env)))))" for g0
    by (intro keeps_state_then h w k)
  from keeps_stateD [OF this [of g], of g r g'] s show ?thesis unfolding startRPC_def by blast
qed

lemma gw_reach_not_closed: "gw_reach env g \<Longrightarrow> wg_state g \<noteq> closedState"
proof (induction rule: gw_reach.induct)
  case (gw_new conf g)
  then show ?case by (auto simp: NewGateway_def split: option.splits outcome.splits)
next
  case (gw_register g apis u g')
  then show ?case by (auto simp: RegisterGatewayAPIs_def split: if_splits)
next
  case (gw_register_checks g checks u g')
  then show ?case by (auto simp: RegisterHealthChecks_def split: if_splits)
next
  case (gw_start g r g')
  then show ?case
    by (auto simp: gw_Start_def doClose_def dest!: startRPC_state split: gateway_state.splits prod.splits outcome.splits if_splits)
next
  case (gw_close g r g')
  then show ?case by (auto simp: gw_Close_def doClose_def split: gateway_state.splits if_splits)
qed

text \<open>
  closing a gateway is not idempotent: no reachable gateway is in the closed state, because no operation ever sets
  it, so after a close that did not panic every further close panics on the closed channel.
\<close>

lemma second_close_panics:
  assumes "gw_reach env g" and "gw_Close g = (r, g')" and "\<And>p. r \<noteq> Panic p"
  shows "wg_state g' \<noteq> closedState \<and> gw_Close g' = (Panic ''close of closed channel'', g')"
proof -
  have "gw_reach env g'" by (rule gw_reach.gw_close [OF assms])
  then have s: "wg_state g' \<noteq> closedState" by (rule gw_reach_not_closed)
  moreover have "wg_stop_closed g'"
    using assms gw_reach_not_closed [OF assms(1)]
    by (auto simp: gw_Close_def doClose_def split: gateway_state.splits if_splits)
  ultimately show ?thesis by (cases "wg_state g'") (simp_all add: gw_Close_def doClose_def)
qed

definition example_http :: GatewayHTTPConfig where
  "example_http = \<lparr>gh_Host = ''localhost'', gh_Port = 8545, gh_Cors = [''*''], gh_VirtualHosts = [], gh_PathPrefix = ''/'', gh_Timeouts = None\<rparr>"

definition example_gateway_config :: GatewayConfig where
  "example_gateway_config = \<lparr>gc_HTTP = Some example_http, gc_Monitoring = None,
     gc_WS = Some \<lparr>gw_Host = ''localhost'', gw_Port = 8546, gw_PathPrefix = ''/'', gw_Origins = [], gw_Timeouts = None\<rparr>,
     gc_ChainID = 42261, gc_MethodLimits = None, gc_ExposeOasisRPCs = False\<rparr>"

definition example_env :: "bool \<Rightarrow> server_env" where
  "example_env ok = \<lparr>env_Listen = (\<lambda>a. if ok then Inr a else Inl (ErrExt ''address already in use'')), env_SplitPort = (\<lambda>_. Inr 8545),
     env_RegisterName = (\<lambda>_. None),
     env_DefaultTimeouts = \<lparr>tm_Read = 30 * second, tm_Write = 30 * second, tm_Idle = 120 * second\<rparr>\<rparr>"

lemma example_gateway: "\<exists>g. NewGateway (example_env ok) (Some example_gateway_config) = Ok g \<and> wg_state g = initializingState \<and> \<not> wg_stop_closed g"
  by (simp add: NewGateway_def example_gateway_config_def example_http_def validatePrefix_def)

lemma second_close_panics_example:
  "\<exists>g g'. NewGateway (example_env True) (Some example_gateway_config) = Ok g \<and> gw_Close g = (Ok (), g')
     \<and> gw_Close g' = (Panic ''close of closed channel'', g')"
proof -
  obtain g where g: "NewGateway (example_env True) (Some example_gateway_config) = Ok g" "wg_state g = initializingState" "\<not> wg_stop_closed g"
    using example_gateway by blast
  obtain g' where c: "gw_Close g = (Ok (), g')" using g(2,3) by (simp add: gw_Close_def doClose_def)
  have "\<And>p. (Ok () :: unit outcome) \<noteq> Panic p" by simp
  from second_close_panics [OF gw_reach.gw_new [OF g(1)] c this] g c show ?thesis by blast
qed

lemma RegisterApis_all: "(\<And>ns. env_RegisterName env ns = None) \<Longrightarrow> \<exists>names. RegisterApis env modules b apis = Ok names"
  by (induction apis) (auto split: prod.splits)

text \<open>
  a port that is in use stops the process instead of being reported: when the HTTP address cannot be listened on, \<open>Start\<close>
  of a new gateway does not return the error but panics, because the cleanup shuts down a WebSocket server that
  was never created.
\<close>

lemma http_listen_failure_panics:
  assumes "NewGateway env (Some c) = Ok g" and "\<And>ns. env_RegisterName env ns = None" and "gc_HTTP c = Some hc"
    and "env_Listen env (gh_Host hc @ '':'' @ big_String (gh_Port hc)) = Inl e"
  shows "\<exists>g'. gw_Start env (g\<lparr>wg_rpcAPIs := apis, wg_healthChecks := checks\<rparr>) = (Panic ''nil pointer dereference'', g')"
proof -
  obtain wc t1 t2 where g: "g = \<lparr>wg_config = c, wg_stop_closed = False, wg_state = initializingState, wg_rpcAPIs = [], wg_healthChecks = [],
      wg_http = Some (newHTTPServer t1), wg_ws = Some (newHTTPServer t2)\<rparr>" and ws: "gc_WS c = Some wc"
    using assms(1) by (auto simp: NewGateway_def split: option.splits outcome.splits)
  obtain names where r: "RegisterApis env rpc_modules False apis = Ok names" using RegisterApis_all [OF assms(2)] by blast
  show ?thesis
    by (simp add: gw_Start_def g startRPC_def assms(3) ws on_http_def on_ws_def enableRPC_def enableWS_def r setListenAddr_def
        newHTTPServer_def hs_start_def assms(4) [simplified] Let_def stopRPC_def hs_stop_def)
qed

lemma http_listen_failure_panics_example:
  "\<exists>g g'. NewGateway (example_env False) (Some example_gateway_config) = Ok g
     \<and> gw_Start (example_env False) (g\<lparr>wg_rpcAPIs := [], wg_healthChecks := []\<rparr>) = (Panic ''nil pointer dereference'', g')"
proof -
  obtain g where g: "NewGateway (example_env False) (Some example_gateway_config) = Ok g" using example_gateway by blast
  have e: "\<And>ns. env_RegisterName (example_env False) ns = None" by (simp add: example_env_def)
  have h: "gc_HTTP example_gateway_config = Some example_http" by (simp add: example_gateway_config_def)
  have l: "env_Listen (example_env False) (gh_Host example_http @ '':'' @ big_String (gh_Port example_http)) =
      Inl (ErrExt ''address already in use'')" by (simp add: example_env_def)
  from http_listen_failure_panics [OF g e h l, of "[]" "[]"] g show ?thesis by blast
qed

text \<open>
  the configured CORS origins never take effect: whatever the configuration says, the handler that a new server serves after
  \<open>enableRPC\<close> has no CORS origins, because it is built from the configuration of before the call.
\<close>

lemma cors_never_configured:
  assumes "enableRPC env apis checks config (setListenAddr host port (newHTTPServer t)) = (Ok u, h)"
  shows "\<exists>served. hs_rpcHandler h = Some served \<and> hd_cors served = [] \<and> hs_httpConfig h = config"
  using assms by (auto simp: enableRPC_def newHTTPServer_def setListenAddr_def newCorsHandler_def split: outcome.splits)

lemma cors_never_configured_example:
  "\<exists>h served. enableRPC (example_env True) [(''eth'', True)] [0]
       \<lparr>hc_Modules = rpc_modules, hc_CorsAllowedOrigins = [''*''], hc_Vhosts = [], hc_prefix = ''/''\<rparr>
       (setListenAddr ''localhost'' 8545 (newHTTPServer zero_timeouts)) = (Ok (), h)
     \<and> hs_rpcHandler h = Some served \<and> hd_cors served = []"
proof -
  let ?c = "\<lparr>hc_Modules = rpc_modules, hc_CorsAllowedOrigins = [''*''], hc_Vhosts = [], hc_prefix = ''/''\<rparr>"
  have "\<exists>h. enableRPC (example_env True) [(''eth'', True)] [0] ?c (setListenAddr ''localhost'' 8545 (newHTTPServer zero_timeouts)) = (Ok (), h)"
    by (simp add: enableRPC_def example_env_def rpc_modules_def)
  then obtain h where h: "enableRPC (example_env True) [(''eth'', True)] [0] ?c (setListenAddr ''localhost'' 8545 (newHTTPServer zero_timeouts)) = (Ok (), h)"
    by blast
  from cors_never_configured [OF h] h show ?thesis by blast
qed

end
