(* ===== verification/Node_Source.thy ===== *)
theory Node_Source
  imports Gateway_Server
begin

text \<open>
  \<^verbatim>\<open>source/source.go\<close> and \<^verbatim>\<open>source/pebble/pebble.go\<close>: the queries the gateway sends to its node and the optional cache in
  front of it, a pebble database that remembers every answer that is not about the latest round. The node answers by the number
  of the call, so it may change its mind. CBOR is a parameter: the encoded keys and values are of any type. Reads and
  writes of the database may fail (\<open>pb_faults\<close>); a failed write is ignored, as in the code.
\<close>

subsection \<open>Queries\<close>

datatype node_query =
    GetBlock u64
  | GetTransactionsWithResults u64
  | GetLastRetainedBlock
  | CoreParametersQ u64
  | CoreRuntimeInfo
  | CoreCallDataPublicKey
  | CoreEstimateGasForCaller u64 bytes evm_tx bool
  | CoreMinGasPrice u64
  | AccountsNonce u64 bytes
  | EVMCode u64 bytes
  | EVMBalance u64 bytes
  | EVMStorage u64 bytes bytes
  | EVMSimulateCall u64 bytes u64 bytes bytes bytes bytes

datatype node_answer =
    BlockA OasisBlock
  | TransactionsA "TxWithResults list"
  | ParametersA CoreParameters
  | RuntimeInfoA RuntimeInfo
  | PublicKeyA call_data_key
  | Uint64A u64
  | PricesA "(string \<times> nat) list"
  | BytesA bytes
  | QuantityA nat

type_synonym node = "nat \<Rightarrow> node_query \<Rightarrow> gerror + node_answer"

subsection \<open>The cache\<close>

text \<open>The parameters of a key, as they are encoded.\<close>

datatype key_param = UintP u64 | BytesP bytes | BoolP bool | TxP evm_tx

record ('k, 'd) cbor =
  cbor_Marshal_key :: "string \<times> key_param list \<Rightarrow> 'k"
  cbor_Marshal :: "node_answer \<Rightarrow> 'd"
  cbor_Unmarshal :: "node_query \<Rightarrow> 'd \<Rightarrow> gerror + node_answer"

record ('k, 'd) pebble =
  pb_store :: "('k, 'd) gomap"
  pb_faults :: "gerror option list"
  pb_calls :: nat

definition makeKey :: "('k, 'd) cbor \<Rightarrow> string \<Rightarrow> key_param list \<Rightarrow> 'k" where
  "makeKey c meth params = cbor_Marshal_key c (meth, params)"

definition pb_fault :: "('k, 'd) pebble \<Rightarrow> gerror option \<times> ('k, 'd) pebble" where
  "pb_fault s = (case pb_faults s of [] \<Rightarrow> (None, s) | f # fs \<Rightarrow> (f, s\<lparr>pb_faults := fs\<rparr>))"

definition ask_source :: "(nat \<Rightarrow> gerror + 'a) \<Rightarrow> (('k, 'd) pebble, 'a) call" where
  "ask_source f s = (case f (pb_calls s) of Inl e \<Rightarrow> Err e | Inr v \<Rightarrow> Ok v, s\<lparr>pb_calls := Suc (pb_calls s)\<rparr>)"

definition pb_Set :: "'k \<Rightarrow> 'd \<Rightarrow> ('k, 'd) pebble \<Rightarrow> ('k, 'd) pebble" where
  "pb_Set key v s = (case pb_fault s of (Some e, s') \<Rightarrow> s' | (None, s') \<Rightarrow> s'\<lparr>pb_store := gm_store key v (pb_store s')\<rparr>)"

definition getFromCacheOrFetch :: "('a \<Rightarrow> 'd) \<Rightarrow> ('d \<Rightarrow> gerror + 'a) \<Rightarrow> 'k \<Rightarrow> bool \<Rightarrow> (nat \<Rightarrow> gerror + 'a) \<Rightarrow> (('k, 'd) pebble, 'a) call" where
  "getFromCacheOrFetch marshal unmarshal key volatile fetch s =
     (if volatile then ask_source fetch s
      else case pb_fault s of
        (Some e, s1) \<Rightarrow> (Err e, s1)
      | (None, s1) \<Rightarrow>
         (case gm_load (pb_store s1) key of
            None \<Rightarrow>
             (case ask_source fetch s1 of
                (Ok fetched, s2) \<Rightarrow> (Ok fetched, pb_Set key (marshal fetched) s2)
              | (Err e, s2) \<Rightarrow> (Err (Wrapf ''fetching data'' e), s2)
              | (Panic p, s2) \<Rightarrow> (Panic p, s2))
          | Some data \<Rightarrow>
             (case unmarshal data of Inl e \<Rightarrow> (Err (Wrapf ''cached data'' e), s1) | Inr val \<Rightarrow> (Ok val, s1))))"

definition cached :: "('k, 'd) cbor \<Rightarrow> node \<Rightarrow> node_query \<Rightarrow> string \<Rightarrow> key_param list \<Rightarrow> bool \<Rightarrow> (('k, 'd) pebble, node_answer) call" where
  "cached c src q meth params volatile =
     getFromCacheOrFetch (cbor_Marshal c) (cbor_Unmarshal c q) (makeKey c meth params) volatile (\<lambda>k. src k q)"

subsection \<open>The methods of the cached source\<close>

definition pb_GetBlock :: "ext \<Rightarrow> ('k, 'd) cbor \<Rightarrow> node \<Rightarrow> u64 \<Rightarrow> (('k, 'd) pebble, node_answer) call" where
  "pb_GetBlock x c src height = cached c src (GetBlock height) ''GetBlock'' [UintP height] (height = RoundLatest x)"

definition pb_GetTransactionsWithResults :: "ext \<Rightarrow> ('k, 'd) cbor \<Rightarrow> node \<Rightarrow> u64 \<Rightarrow> (('k, 'd) pebble, node_answer) call" where
  "pb_GetTransactionsWithResults x c src height =
     cached c src (GetTransactionsWithResults height) ''GetTransactionsWithResults'' [UintP height] (height = RoundLatest x)"

definition pb_GetLastRetainedBlock :: "('k, 'd) cbor \<Rightarrow> node \<Rightarrow> (('k, 'd) pebble, node_answer) call" where
  "pb_GetLastRetainedBlock c src = cached c src GetLastRetainedBlock ''GetLastRetainedBlock'' [] True"

definition pb_CoreParameters :: "ext \<Rightarrow> ('k, 'd) cbor \<Rightarrow> node \<Rightarrow> u64 \<Rightarrow> (('k, 'd) pebble, node_answer) call" where
  "pb_CoreParameters x c src height = cached c src (CoreParametersQ height) ''CoreParameters'' [UintP height] (height = RoundLatest x)"

definition pb_CoreRuntimeInfo :: "('k, 'd) cbor \<Rightarrow> node \<Rightarrow> (('k, 'd) pebble, node_answer) call" where
  "pb_CoreRuntimeInfo c src = cached c src CoreRuntimeInfo ''CoreRuntimeInfo'' [] False"

definition pb_CoreCallDataPublicKey :: "('k, 'd) cbor \<Rightarrow> node \<Rightarrow> (('k, 'd) pebble, node_answer) call" where
  "pb_CoreCallDataPublicKey c src = cached c src CoreCallDataPublicKey ''CoreCallDataPublicKey'' [] False"

definition pb_CoreEstimateGasForCaller :: "ext \<Rightarrow> ('k, 'd) cbor \<Rightarrow> node \<Rightarrow> u64 \<Rightarrow> bytes \<Rightarrow> evm_tx \<Rightarrow> bool \<Rightarrow> (('k, 'd) pebble, node_answer) call" where
  "pb_CoreEstimateGasForCaller x c src n caller tx propagateFailures =
     cached c src (CoreEstimateGasForCaller n caller tx propagateFailures) ''CoreEstimateGasForCaller''
       [UintP n, BytesP caller, TxP tx, BoolP propagateFailures] (n = RoundLatest x)"

definition pb_CoreMinGasPrice :: "ext \<Rightarrow> ('k, 'd) cbor \<Rightarrow> node \<Rightarrow> u64 \<Rightarrow> (('k, 'd) pebble, node_answer) call" where
  "pb_CoreMinGasPrice x c src n = cached c src (CoreMinGasPrice n) ''CoreMinGasPrice'' [UintP n] (n = RoundLatest x)"

definition pb_AccountsNonce :: "ext \<Rightarrow> ('k, 'd) cbor \<Rightarrow> node \<Rightarrow> u64 \<Rightarrow> bytes \<Rightarrow> (('k, 'd) pebble, node_answer) call" where
  "pb_AccountsNonce x c src n address =
     cached c src (AccountsNonce n address) ''AccountsNonce'' [UintP n, BytesP address] (n = RoundLatest x)"

definition pb_EVMCode :: "ext \<Rightarrow> ('k, 'd) cbor \<Rightarrow> node \<Rightarrow> u64 \<Rightarrow> bytes \<Rightarrow> (('k, 'd) pebble, node_answer) call" where
  "pb_EVMCode x c src n address = cached c src (EVMCode n address) ''EVMCode'' [UintP n, BytesP address] (n = RoundLatest x)"

definition pb_EVMBalance :: "ext \<Rightarrow> ('k, 'd) cbor \<Rightarrow> node \<Rightarrow> u64 \<Rightarrow> bytes \<Rightarrow> (('k, 'd) pebble, node_answer) call" where
  "pb_EVMBalance x c src n address = cached c src (EVMBalance n address) ''EVMBalance'' [UintP n, BytesP address] (n = RoundLatest x)"

definition pb_EVMStorage :: "ext \<Rightarrow> ('k, 'd) cbor \<Rightarrow> node \<Rightarrow> u64 \<Rightarrow> bytes \<Rightarrow> bytes \<Rightarrow> (('k, 'd) pebble, node_answer) call" where
  "pb_EVMStorage x c src n address slot =
     cached c src (EVMStorage n address slot) ''EVMStorage'' [UintP n, BytesP address, BytesP slot] (n = RoundLatest x)"

definition pb_EVMSimulateCall :: "ext \<Rightarrow> ('k, 'd) cbor \<Rightarrow> node \<Rightarrow> u64 \<Rightarrow> bytes \<Rightarrow> u64 \<Rightarrow> bytes \<Rightarrow> bytes \<Rightarrow> bytes \<Rightarrow> bytes \<Rightarrow>
    (('k, 'd) pebble, node_answer) call" where
  "pb_EVMSimulateCall x c src n gasPrice gasLimit caller address val data =
     cached c src (EVMSimulateCall n gasPrice gasLimit caller address val data) ''EVMSimulateCall''
       [UintP n, BytesP gasPrice, UintP gasLimit, BytesP caller, BytesP address, BytesP val, BytesP data] (n = RoundLatest x)"

definition pb_SubmitTxNoWait :: "(('k, 'd) pebble, unit) call" where
  "pb_SubmitTxNoWait s = (Err (Errorf ''SubmitTxNoWait not supported on pebble source''), s)"

definition pb_New :: "gerror option \<Rightarrow> ('k, 'd) pebble \<Rightarrow> ('k, 'd) pebble outcome" where
  "pb_New open_err db = (case open_err of Some e \<Rightarrow> Err e | None \<Rightarrow> Ok db)"

text \<open>The method of each query.\<close>

fun pb_query :: "ext \<Rightarrow> ('k, 'd) cbor \<Rightarrow> node \<Rightarrow> node_query \<Rightarrow> (('k, 'd) pebble, node_answer) call" where
  "pb_query x c src (GetBlock n) = pb_GetBlock x c src n"
| "pb_query x c src (GetTransactionsWithResults n) = pb_GetTransactionsWithResults x c src n"
| "pb_query x c src GetLastRetainedBlock = pb_GetLastRetainedBlock c src"
| "pb_query x c src (CoreParametersQ n) = pb_CoreParameters x c src n"
| "pb_query x c src CoreRuntimeInfo = pb_CoreRuntimeInfo c src"
| "pb_query x c src CoreCallDataPublicKey = pb_CoreCallDataPublicKey c src"
| "pb_query x c src (CoreEstimateGasForCaller n a t b) = pb_CoreEstimateGasForCaller x c src n a t b"
| "pb_query x c src (CoreMinGasPrice n) = pb_CoreMinGasPrice x c src n"
| "pb_query x c src (AccountsNonce n a) = pb_AccountsNonce x c src n a"
| "pb_query x c src (EVMCode n a) = pb_EVMCode x c src n a"
| "pb_query x c src (EVMBalance n a) = pb_EVMBalance x c src n a"
| "pb_query x c src (EVMStorage n a b) = pb_EVMStorage x c src n a b"
| "pb_query x c src (EVMSimulateCall n p l f a v d) = pb_EVMSimulateCall x c src n p l f a v d"

subsection \<open>Keys tell queries apart\<close>

fun key_parts :: "node_query \<Rightarrow> string \<times> key_param list" where
  "key_parts (GetBlock n) = (''GetBlock'', [UintP n])"
| "key_parts (GetTransactionsWithResults n) = (''GetTransactionsWithResults'', [UintP n])"
| "key_parts GetLastRetainedBlock = (''GetLastRetainedBlock'', [])"
| "key_parts (CoreParametersQ n) = (''CoreParameters'', [UintP n])"
| "key_parts CoreRuntimeInfo = (''CoreRuntimeInfo'', [])"
| "key_parts CoreCallDataPublicKey = (''CoreCallDataPublicKey'', [])"
| "key_parts (CoreEstimateGasForCaller n a t b) = (''CoreEstimateGasForCaller'', [UintP n, BytesP a, TxP t, BoolP b])"
| "key_parts (CoreMinGasPrice n) = (''CoreMinGasPrice'', [UintP n])"
| "key_parts (AccountsNonce n a) = (''AccountsNonce'', [UintP n, BytesP a])"
| "key_parts (EVMCode n a) = (''EVMCode'', [UintP n, BytesP a])"
| "key_parts (EVMBalance n a) = (''EVMBalance'', [UintP n, BytesP a])"
| "key_parts (EVMStorage n a b) = (''EVMStorage'', [UintP n, BytesP a, BytesP b])"
| "key_parts (EVMSimulateCall n p l f a v d) = (''EVMSimulateCall'', [UintP n, BytesP p, UintP l, BytesP f, BytesP a, BytesP v, BytesP d])"

text \<open>Which answers may change from call to call.\<close>

fun volatile :: "ext \<Rightarrow> node_query \<Rightarrow> bool" where
  "volatile x GetLastRetainedBlock = True"
| "volatile x CoreRuntimeInfo = False"
| "volatile x CoreCallDataPublicKey = False"
| "volatile x q = (case snd (key_parts q) of UintP n # _ \<Rightarrow> n = RoundLatest x | _ \<Rightarrow> False)"

lemma key_parts_inj: "key_parts q = key_parts q' \<Longrightarrow> q = q'"
  by (cases q; cases q') simp_all

lemma pb_query_cached: "pb_query x c src q = cached c src q (fst (key_parts q)) (snd (key_parts q)) (volatile x q)"
  by (cases q) (simp_all add: pb_GetBlock_def pb_GetTransactionsWithResults_def pb_GetLastRetainedBlock_def pb_CoreParameters_def
      pb_CoreRuntimeInfo_def pb_CoreCallDataPublicKey_def pb_CoreEstimateGasForCaller_def pb_CoreMinGasPrice_def
      pb_AccountsNonce_def pb_EVMCode_def pb_EVMBalance_def pb_EVMStorage_def pb_EVMSimulateCall_def)

subsection \<open>The cache only repeats the node\<close>

text \<open>What the cache relies on: keys are encoded injectively, and an answer of the node is decoded to itself.\<close>

definition cbor_ok :: "node \<Rightarrow> ('k, 'd) cbor \<Rightarrow> bool" where
  "cbor_ok src c \<longleftrightarrow> inj (cbor_Marshal_key c) \<and> (\<forall>k q a. src k q = Inr a \<longrightarrow> cbor_Unmarshal c q (cbor_Marshal c a) = Inr a)"

definition key_of :: "('k, 'd) cbor \<Rightarrow> node_query \<Rightarrow> 'k" where
  "key_of c q = makeKey c (fst (key_parts q)) (snd (key_parts q))"

text \<open>Every entry is an answer the node gave to the query of its key.\<close>

definition cache_valid :: "('k, 'd) cbor \<Rightarrow> node \<Rightarrow> ('k, 'd) pebble \<Rightarrow> bool" where
  "cache_valid c src s \<longleftrightarrow> (\<forall>q d. gm_load (pb_store s) (key_of c q) = Some d \<longrightarrow>
     (\<exists>k < pb_calls s. \<exists>a. src k q = Inr a \<and> d = cbor_Marshal c a))"

lemma key_of_inj: "cbor_ok src c \<Longrightarrow> key_of c q = key_of c q' \<longleftrightarrow> q = q'"
  using key_parts_inj by (auto simp: cbor_ok_def key_of_def makeKey_def inj_eq)

lemma pb_fault_frame:
  "pb_fault s = (f, s') \<Longrightarrow> pb_store s' = pb_store s \<and> pb_calls s' = pb_calls s \<and> pb_faults s' = tl (pb_faults s) \<and> (pb_faults s = [] \<longrightarrow> f = None)"
  by (auto simp: pb_fault_def split: list.splits)

lemma cache_valid_frame: "cache_valid c src s \<Longrightarrow> pb_store s' = pb_store s \<Longrightarrow> pb_calls s \<le> pb_calls s' \<Longrightarrow> cache_valid c src s'"
  unfolding cache_valid_def by (metis order.strict_trans2)

lemma cache_valid_Set:
  assumes "cbor_ok src c" and "cache_valid c src s" and "src k q = Inr a" and "k < pb_calls s"
  shows "cache_valid c src (pb_Set (key_of c q) (cbor_Marshal c a) s)"
proof -
  obtain f s1 where f: "pb_fault s = (f, s1)" by (cases "pb_fault s")
  note fr = pb_fault_frame [OF f]
  have v1: "cache_valid c src s1" using cache_valid_frame [OF assms(2)] fr by simp
  show ?thesis
  proof (cases f)
    case None
    then show ?thesis using v1 f fr assms(3,4) by (auto simp: pb_Set_def cache_valid_def key_of_inj [OF assms(1)])
  qed (use v1 f in \<open>simp add: pb_Set_def\<close>)
qed

text \<open>One query: what it does to the cache, and where its answer comes from.\<close>

lemma pb_query_valid:
  assumes ok: "cbor_ok src c" and v: "cache_valid c src s" and r: "pb_query x c src q s = (r, s')"
  shows "cache_valid c src s' \<and> pb_calls s \<le> pb_calls s' \<and> (\<forall>a. r = Ok a \<longrightarrow> (\<exists>k < pb_calls s'. src k q = Inr a))"
proof (cases "volatile x q")
  case True
  have "s' = s\<lparr>pb_calls := Suc (pb_calls s)\<rparr>" "\<forall>a. r = Ok a \<longrightarrow> src (pb_calls s) q = Inr a"
    using r True by (auto simp: pb_query_cached cached_def getFromCacheOrFetch_def ask_source_def split: sum.splits)
  with cache_valid_frame [OF v, of s'] show ?thesis by auto
next
  case False
  obtain f s1 where f: "pb_fault s = (f, s1)" by (cases "pb_fault s")
  note fr = pb_fault_frame [OF f]
  have v1: "cache_valid c src s1" using cache_valid_frame [OF v] fr by simp
  show ?thesis
  proof (cases f)
    case (Some e)
    with r False f v1 fr show ?thesis by (auto simp: pb_query_cached cached_def getFromCacheOrFetch_def)
  next
    case None
    show ?thesis
    proof (cases "gm_load (pb_store s1) (key_of c q)")
      case (Some d)
      then obtain k a where k: "k < pb_calls s1" "src k q = Inr a" "d = cbor_Marshal c a" using v1 unfolding cache_valid_def by blast
      then have "cbor_Unmarshal c q d = Inr a" using ok by (simp add: cbor_ok_def)
      then have "r = Ok a" "s' = s1"
        using r False f None Some by (auto simp: pb_query_cached cached_def getFromCacheOrFetch_def key_of_def)
      with k v1 fr show ?thesis by auto
    next
      case no: None
      let ?s2 = "s1\<lparr>pb_calls := Suc (pb_calls s1)\<rparr>"
      have v2: "cache_valid c src ?s2" by (rule cache_valid_frame [OF v1]) simp_all
      show ?thesis
      proof (cases "src (pb_calls s1) q")
        case (Inl e)
        then have "r = Err (Wrapf ''fetching data'' e)" "s' = ?s2"
          using r False f None no by (auto simp: pb_query_cached cached_def getFromCacheOrFetch_def key_of_def ask_source_def)
        with v2 fr show ?thesis by simp
      next
        case (Inr a)
        then have e: "r = Ok a" "s' = pb_Set (key_of c q) (cbor_Marshal c a) ?s2"
          using r False f None no by (auto simp: pb_query_cached cached_def getFromCacheOrFetch_def key_of_def ask_source_def)
        have "pb_calls s' = Suc (pb_calls s1)"
          unfolding e(2) by (auto simp: pb_Set_def dest: pb_fault_frame split: prod.splits option.splits)
        with e cache_valid_Set [OF ok v2 Inr] Inr fr show ?thesis by auto
      qed
    qed
  qed
qed

definition run_queries :: "ext \<Rightarrow> ('k, 'd) cbor \<Rightarrow> node \<Rightarrow> node_query list \<Rightarrow> ('k, 'd) pebble \<Rightarrow> ('k, 'd) pebble" where
  "run_queries x c src qs s = fold (\<lambda>q s'. snd (pb_query x c src q s')) qs s"

lemma run_queries_valid: "cbor_ok src c \<Longrightarrow> cache_valid c src s \<Longrightarrow> cache_valid c src (run_queries x c src qs s)"
  unfolding run_queries_def
proof (induction qs arbitrary: s)
  case (Cons q qs)
  obtain r s1 where q: "pb_query x c src q s = (r, s1)" by (cases "pb_query x c src q s")
  with pb_query_valid [OF Cons.prems q] Cons show ?case by simp
qed simp

lemma cached_answer_kept:
  assumes ok: "cbor_ok src c" and v: "cache_valid c src s" and r: "pb_query x c src q s = (Ok a, s')"
    and nv: "\<not> volatile x q" and fs: "pb_faults s = []"
  shows "pb_query x c src q s' = (Ok a, s')"
proof -
  have f: "pb_fault s = (None, s)" using fs by (simp add: pb_fault_def)
  show ?thesis
  proof (cases "gm_load (pb_store s) (key_of c q)")
    case (Some d)
    then obtain k b where "src k q = Inr b" "d = cbor_Marshal c b" using v unfolding cache_valid_def by blast
    then have "cbor_Unmarshal c q d = Inr b" using ok by (simp add: cbor_ok_def)
    with r nv f Some show ?thesis by (auto simp: pb_query_cached cached_def getFromCacheOrFetch_def key_of_def)
  next
    case None
    then have a: "src (pb_calls s) q = Inr a" and s': "s' = pb_Set (key_of c q) (cbor_Marshal c a) (s\<lparr>pb_calls := Suc (pb_calls s)\<rparr>)"
      using r nv f by (auto simp: pb_query_cached cached_def getFromCacheOrFetch_def key_of_def ask_source_def split: sum.splits)
    have "gm_load (pb_store s') (key_of c q) = Some (cbor_Marshal c a)" "pb_fault s' = (None, s')"
      using fs unfolding s' by (simp_all add: pb_Set_def pb_fault_def)
    moreover have "cbor_Unmarshal c q (cbor_Marshal c a) = Inr a" using ok a by (simp add: cbor_ok_def)
    ultimately show ?thesis using nv by (simp add: pb_query_cached cached_def getFromCacheOrFetch_def key_of_def)
  qed
qed


definition example_cbor :: "(string \<times> key_param list, node_answer) cbor" where
  "example_cbor = \<lparr>cbor_Marshal_key = id, cbor_Marshal = id, cbor_Unmarshal = (\<lambda>_. Inr)\<rparr>"

text \<open>A node that answers every query with the number of the call.\<close>

definition counting_node :: node where
  "counting_node k q = Inr (Uint64A (of_nat k))"

lemma counting_first:
  "pb_query example_ext example_cbor counting_node (AccountsNonce 5 []) \<lparr>pb_store = [], pb_faults = [], pb_calls = 1\<rparr>
     = (Ok (Uint64A 1), \<lparr>pb_store = [((''AccountsNonce'', [UintP 5, BytesP []]), Uint64A 1)], pb_faults = [], pb_calls = 2\<rparr>)"
  by (simp add: pb_AccountsNonce_def cached_def getFromCacheOrFetch_def pb_fault_def example_ext_def ask_source_def counting_node_def
      pb_Set_def makeKey_def example_cbor_def gm_defs)


text \<open>
  The answers that the comment in the code calls volatile are cached too: with a node cache the runtime info read after
  an epoch change is the one of the first read.
\<close>

lemma cached_runtime_info_stale:
  assumes "cbor_ok src c" and "cache_valid c src s" and "pb_faults s = []" and "pb_CoreRuntimeInfo c src s = (Ok a, s')"
  shows "pb_CoreRuntimeInfo c src s' = (Ok a, s')"
  using cached_answer_kept [OF assms(1,2), of x CoreRuntimeInfo a s' for x] assms(3,4) by simp

end
