(* ===== verification/Node_Client.thy ===== *)
theory Node_Client
  imports Node_Source
begin

text \<open>
  \<^verbatim>\<open>source/node/node.go\<close>: the source that asks the node through the clients of the Oasis SDK, which are parameters, and the choice of the
  source at the start (\<^verbatim>\<open>main.go\<close>): this source alone, or behind the cache of \<^verbatim>\<open>source/pebble\<close>. Shown: both give the API the same answers as long
  as the node does not change its mind about past rounds, except that no transaction can be submitted through the cache.
\<close>

subsection \<open>The clients of the SDK\<close>

text \<open>Answers by the number of the call; \<open>Create\<close> and \<open>Call\<close> build a transaction locally.\<close>

record RuntimeClient =
  rcl_GetBlock :: "nat \<Rightarrow> u64 \<Rightarrow> gerror + OasisBlock"
  rcl_GetLastRetainedBlock :: "nat \<Rightarrow> gerror + OasisBlock"
  rcl_GetTransactionsWithResults :: "nat \<Rightarrow> u64 \<Rightarrow> gerror + TxWithResults list"
  rcl_SubmitTxNoWait :: "nat \<Rightarrow> bytes \<Rightarrow> string list \<Rightarrow> gerror + unit"

record core_V1 =
  cv_Parameters :: "nat \<Rightarrow> u64 \<Rightarrow> gerror + CoreParameters"
  cv_RuntimeInfo :: "nat \<Rightarrow> gerror + RuntimeInfo"
  cv_CallDataPublicKey :: "nat \<Rightarrow> gerror + call_data_key"
  cv_EstimateGasForCaller :: "nat \<Rightarrow> u64 \<Rightarrow> bytes \<Rightarrow> evm_tx \<Rightarrow> bool \<Rightarrow> gerror + u64"
  cv_MinGasPrice :: "nat \<Rightarrow> u64 \<Rightarrow> gerror + (string \<times> nat) list"

record evm_V1 =
  ev_Code :: "nat \<Rightarrow> u64 \<Rightarrow> bytes \<Rightarrow> gerror + bytes"
  ev_Balance :: "nat \<Rightarrow> u64 \<Rightarrow> bytes \<Rightarrow> gerror + nat"
  ev_Storage :: "nat \<Rightarrow> u64 \<Rightarrow> bytes \<Rightarrow> bytes \<Rightarrow> gerror + bytes"
  ev_SimulateCall :: "nat \<Rightarrow> u64 \<Rightarrow> bytes \<Rightarrow> u64 \<Rightarrow> bytes \<Rightarrow> bytes \<Rightarrow> bytes \<Rightarrow> bytes \<Rightarrow> gerror + bytes"
  ev_Create :: "bytes \<Rightarrow> bytes \<Rightarrow> evm_tx"
  ev_Call :: "bytes \<Rightarrow> bytes \<Rightarrow> bytes \<Rightarrow> evm_tx"

record accounts_V1 =
  av_Nonce :: "nat \<Rightarrow> u64 \<Rightarrow> bytes \<Rightarrow> gerror + u64"

record sdk =
  core_NewV1 :: "RuntimeClient \<Rightarrow> core_V1"
  evm_NewV1 :: "RuntimeClient \<Rightarrow> evm_V1"
  accounts_NewV1 :: "RuntimeClient \<Rightarrow> accounts_V1"

subsection \<open>The node source\<close>

record Source =
  src_client :: RuntimeClient
  src_core :: core_V1
  src_evm :: evm_V1
  src_accounts :: accounts_V1

definition ns_CoreParameters :: "Source \<Rightarrow> nat \<Rightarrow> u64 \<Rightarrow> gerror + CoreParameters" where
  "ns_CoreParameters s k height = cv_Parameters (src_core s) k height"

definition ns_CoreRuntimeInfo :: "Source \<Rightarrow> nat \<Rightarrow> gerror + RuntimeInfo" where
  "ns_CoreRuntimeInfo s k = cv_RuntimeInfo (src_core s) k"

definition ns_CoreCallDataPublicKey :: "Source \<Rightarrow> nat \<Rightarrow> gerror + call_data_key" where
  "ns_CoreCallDataPublicKey s k = cv_CallDataPublicKey (src_core s) k"

definition ns_CoreEstimateGasForCaller :: "Source \<Rightarrow> nat \<Rightarrow> u64 \<Rightarrow> bytes \<Rightarrow> evm_tx \<Rightarrow> bool \<Rightarrow> gerror + u64" where
  "ns_CoreEstimateGasForCaller s k n caller tx propagateFailures = cv_EstimateGasForCaller (src_core s) k n caller tx propagateFailures"

definition ns_CoreMinGasPrice :: "Source \<Rightarrow> nat \<Rightarrow> u64 \<Rightarrow> gerror + (string \<times> nat) list" where
  "ns_CoreMinGasPrice s k n = cv_MinGasPrice (src_core s) k n"

definition ns_AccountsNonce :: "Source \<Rightarrow> nat \<Rightarrow> u64 \<Rightarrow> bytes \<Rightarrow> gerror + u64" where
  "ns_AccountsNonce s k n address = av_Nonce (src_accounts s) k n address"

definition ns_GetBlock :: "Source \<Rightarrow> nat \<Rightarrow> u64 \<Rightarrow> gerror + OasisBlock" where
  "ns_GetBlock s k height = rcl_GetBlock (src_client s) k height"

definition ns_GetLastRetainedBlock :: "Source \<Rightarrow> nat \<Rightarrow> gerror + OasisBlock" where
  "ns_GetLastRetainedBlock s k = rcl_GetLastRetainedBlock (src_client s) k"

definition ns_GetTransactionsWithResults :: "Source \<Rightarrow> nat \<Rightarrow> u64 \<Rightarrow> gerror + TxWithResults list" where
  "ns_GetTransactionsWithResults s k height = rcl_GetTransactionsWithResults (src_client s) k height"

definition ns_EVMCode :: "Source \<Rightarrow> nat \<Rightarrow> u64 \<Rightarrow> bytes \<Rightarrow> gerror + bytes" where
  "ns_EVMCode s k n address = ev_Code (src_evm s) k n address"

definition ns_EVMBalance :: "Source \<Rightarrow> nat \<Rightarrow> u64 \<Rightarrow> bytes \<Rightarrow> gerror + nat" where
  "ns_EVMBalance s k n address = ev_Balance (src_evm s) k n address"

definition ns_EVMStorage :: "Source \<Rightarrow> nat \<Rightarrow> u64 \<Rightarrow> bytes \<Rightarrow> bytes \<Rightarrow> gerror + bytes" where
  "ns_EVMStorage s k n address slot = ev_Storage (src_evm s) k n address slot"

definition ns_EVMSimulateCall :: "Source \<Rightarrow> nat \<Rightarrow> u64 \<Rightarrow> bytes \<Rightarrow> u64 \<Rightarrow> bytes \<Rightarrow> bytes \<Rightarrow> bytes \<Rightarrow> bytes \<Rightarrow> gerror + bytes" where
  "ns_EVMSimulateCall s k n gasPrice gasLimit caller address val data =
     ev_SimulateCall (src_evm s) k n gasPrice gasLimit caller address val data"

text \<open>Both builders make a new client of the module instead of using the one of the source.\<close>

definition ns_EVMCreate :: "sdk \<Rightarrow> Source \<Rightarrow> bytes \<Rightarrow> bytes \<Rightarrow> evm_tx" where
  "ns_EVMCreate lib s val initCode = ev_Create (evm_NewV1 lib (src_client s)) val initCode"

definition ns_EVMCall :: "sdk \<Rightarrow> Source \<Rightarrow> bytes \<Rightarrow> bytes \<Rightarrow> bytes \<Rightarrow> evm_tx" where
  "ns_EVMCall lib s address val data = ev_Call (evm_NewV1 lib (src_client s)) address val data"

definition ns_SubmitTxNoWait :: "Source \<Rightarrow> nat \<Rightarrow> bytes \<Rightarrow> string list \<Rightarrow> gerror + unit" where
  "ns_SubmitTxNoWait s k body proofs = rcl_SubmitTxNoWait (src_client s) k body proofs"

definition ns_Close :: "Source \<Rightarrow> unit outcome" where
  "ns_Close s = Ok ()"

definition ns_New :: "sdk \<Rightarrow> RuntimeClient \<Rightarrow> Source" where
  "ns_New lib client = \<lparr>src_client = client, src_core = core_NewV1 lib client, src_evm = evm_NewV1 lib client,
     src_accounts = accounts_NewV1 lib client\<rparr>"

text \<open>The method of each query, with its answer.\<close>

fun ns_query :: "Source \<Rightarrow> node" where
  "ns_query s k (GetBlock n) = map_sum id BlockA (ns_GetBlock s k n)"
| "ns_query s k (GetTransactionsWithResults n) = map_sum id TransactionsA (ns_GetTransactionsWithResults s k n)"
| "ns_query s k GetLastRetainedBlock = map_sum id BlockA (ns_GetLastRetainedBlock s k)"
| "ns_query s k (CoreParametersQ n) = map_sum id ParametersA (ns_CoreParameters s k n)"
| "ns_query s k CoreRuntimeInfo = map_sum id RuntimeInfoA (ns_CoreRuntimeInfo s k)"
| "ns_query s k CoreCallDataPublicKey = map_sum id PublicKeyA (ns_CoreCallDataPublicKey s k)"
| "ns_query s k (CoreEstimateGasForCaller n a t b) = map_sum id Uint64A (ns_CoreEstimateGasForCaller s k n a t b)"
| "ns_query s k (CoreMinGasPrice n) = map_sum id PricesA (ns_CoreMinGasPrice s k n)"
| "ns_query s k (AccountsNonce n a) = map_sum id Uint64A (ns_AccountsNonce s k n a)"
| "ns_query s k (EVMCode n a) = map_sum id BytesA (ns_EVMCode s k n a)"
| "ns_query s k (EVMBalance n a) = map_sum id QuantityA (ns_EVMBalance s k n a)"
| "ns_query s k (EVMStorage n a b) = map_sum id BytesA (ns_EVMStorage s k n a b)"
| "ns_query s k (EVMSimulateCall n p l f a v d) = map_sum id BytesA (ns_EVMSimulateCall s k n p l f a v d)"

subsection \<open>The source of the process\<close>

text \<open>The methods of the cached source that are not queries.\<close>

definition pb_EVMCreate :: "sdk \<Rightarrow> Source \<Rightarrow> bytes \<Rightarrow> bytes \<Rightarrow> evm_tx" where
  "pb_EVMCreate lib src val initCode = ns_EVMCreate lib src val initCode"

definition pb_EVMCall :: "sdk \<Rightarrow> Source \<Rightarrow> bytes \<Rightarrow> bytes \<Rightarrow> bytes \<Rightarrow> evm_tx" where
  "pb_EVMCall lib src address val data = ns_EVMCall lib src address val data"

definition pb_Close :: "(('k, 'd) pebble, unit) call" where
  "pb_Close s = (case pb_fault s of (Some e, s') \<Rightarrow> (Err e, s') | (None, s') \<Rightarrow> (Ok (), s'))"

text \<open>The node source alone or behind the cache (\<open>cached_source\<close>), over the state of the cache, in which calls are counted.\<close>

record node_source =
  nsr_node :: Source
  nsr_cached :: bool

definition create_source :: "sdk \<Rightarrow> RuntimeClient \<Rightarrow> string option \<Rightarrow> (string \<Rightarrow> gerror option) \<Rightarrow> node_source outcome" where
  "create_source lib client path pebble_Open = (case path of
       None \<Rightarrow> Ok \<lparr>nsr_node = ns_New lib client, nsr_cached = False\<rparr>
     | Some p \<Rightarrow>
        (case pebble_Open p of
           Some e \<Rightarrow> Err (Wrapf ''creating pebble source'' e)
         | None \<Rightarrow> Ok \<lparr>nsr_node = ns_New lib client, nsr_cached = True\<rparr>))"

definition source_query :: "ext \<Rightarrow> ('k, 'd) cbor \<Rightarrow> node_source \<Rightarrow> node_query \<Rightarrow> (('k, 'd) pebble, node_answer) call" where
  "source_query x c s q =
     (if nsr_cached s then pb_query x c (ns_query (nsr_node s)) q else ask_source (\<lambda>k. ns_query (nsr_node s) k q))"

definition source_SubmitTxNoWait :: "node_source \<Rightarrow> bytes \<Rightarrow> string list \<Rightarrow> (('k, 'd) pebble, unit) call" where
  "source_SubmitTxNoWait s body proofs =
     (if nsr_cached s then pb_SubmitTxNoWait else ask_source (\<lambda>k. ns_SubmitTxNoWait (nsr_node s) k body proofs))"

definition source_EVMCreate :: "sdk \<Rightarrow> node_source \<Rightarrow> bytes \<Rightarrow> bytes \<Rightarrow> evm_tx" where
  "source_EVMCreate lib s = (if nsr_cached s then pb_EVMCreate lib (nsr_node s) else ns_EVMCreate lib (nsr_node s))"

definition source_EVMCall :: "sdk \<Rightarrow> node_source \<Rightarrow> bytes \<Rightarrow> bytes \<Rightarrow> bytes \<Rightarrow> evm_tx" where
  "source_EVMCall lib s = (if nsr_cached s then pb_EVMCall lib (nsr_node s) else ns_EVMCall lib (nsr_node s))"

definition source_Close :: "node_source \<Rightarrow> (('k, 'd) pebble, unit) call" where
  "source_Close s = (if nsr_cached s then pb_Close else (\<lambda>t. (ns_Close (nsr_node s), t)))"

subsection \<open>The cache changes no answer\<close>

text \<open>The node does not change its mind about what is not volatile.\<close>

definition stable_node :: "ext \<Rightarrow> node \<Rightarrow> bool" where
  "stable_node x src \<longleftrightarrow> (\<forall>q k k'. \<not> volatile x q \<longrightarrow> src k q = src k' q)"

lemma cached_answer_stable:
  assumes ok: "cbor_ok src c" and st: "stable_node x src" and v: "cache_valid c src s" and fs: "pb_faults s = []" and nv: "\<not> volatile x q"
  shows "fst (pb_query x c src q s) = (case src (pb_calls s) q of Inr a \<Rightarrow> Ok a | Inl e \<Rightarrow> Err (Wrapf ''fetching data'' e))"
proof -
  have f: "pb_fault s = (None, s)" using fs by (simp add: pb_fault_def)
  show ?thesis
  proof (cases "gm_load (pb_store s) (key_of c q)")
    case (Some d)
    then obtain k a where "src k q = Inr a" "d = cbor_Marshal c a" using v unfolding cache_valid_def by blast
    moreover from this have "cbor_Unmarshal c q d = Inr a" using ok by (simp add: cbor_ok_def)
    moreover have "src (pb_calls s) q = src k q" using st nv unfolding stable_node_def by blast
    ultimately show ?thesis using Some f nv by (simp add: pb_query_cached cached_def getFromCacheOrFetch_def key_of_def)
  next
    case None
    then show ?thesis using f nv
      by (simp add: pb_query_cached cached_def getFromCacheOrFetch_def key_of_def ask_source_def split: sum.split)
  qed
qed

text \<open>
  On a cache whose database works, the source behind the cache succeeds exactly when the node does, and then with its answer: the
  cache is only visible in the text of errors.
\<close>

lemma cached_source_agrees:
  assumes "cbor_ok (ns_query n) c" and "stable_node x (ns_query n)" and "cache_valid c (ns_query n) s" and "pb_faults s = []"
  shows "(\<forall>a. fst (source_query x c \<lparr>nsr_node = n, nsr_cached = True\<rparr> q s) = Ok a \<longleftrightarrow>
            fst (source_query x c \<lparr>nsr_node = n, nsr_cached = False\<rparr> q s) = Ok a)
    \<and> (\<forall>e. fst (source_query x c \<lparr>nsr_node = n, nsr_cached = False\<rparr> q s) = Err e \<longrightarrow>
         (\<exists>e'. fst (source_query x c \<lparr>nsr_node = n, nsr_cached = True\<rparr> q s) = Err e' \<and> (e' = e \<or> e' = Wrapf ''fetching data'' e)))"
proof (cases "volatile x q")
  case True
  then show ?thesis
    by (simp add: source_query_def pb_query_cached cached_def getFromCacheOrFetch_def)
next
  case False
  from cached_answer_stable [OF assms False] show ?thesis
    by (auto simp: source_query_def ask_source_def split: sum.splits)
qed

text \<open>
  Submission is the exception: behind the cache every raw transaction is refused, although the node would have taken it.
\<close>

lemma cached_source_refuses_transactions:
  assumes "create_source lib client (Some path) pebble_Open = Ok src"
  shows "source_SubmitTxNoWait src body proofs s = (Err (Errorf ''SubmitTxNoWait not supported on pebble source''), s)"
proof -
  have "nsr_cached src" using assms by (auto simp: create_source_def split: option.splits)
  then show ?thesis by (simp add: source_SubmitTxNoWait_def pb_SubmitTxNoWait_def)
qed

lemma plain_source_submits:
  assumes "create_source lib client None pebble_Open = Ok src" and "rcl_SubmitTxNoWait client (pb_calls s) body proofs = Inr ()"
  shows "fst (source_SubmitTxNoWait src body proofs s) = Ok ()"
  using assms by (auto simp: create_source_def source_SubmitTxNoWait_def ask_source_def ns_SubmitTxNoWait_def ns_New_def)

end
