(* ===== verification/Metrics.thy ===== *)
theory Metrics
  imports Node_Client
begin

text \<open>
  \<^verbatim>\<open>rpc/metrics\<close> and the instrumented wrappers of the APIs (\<^verbatim>\<open>rpc/eth/metrics\<close>, \<^verbatim>\<open>rpc/net\<close>, \<^verbatim>\<open>rpc/web3\<close>, \<^verbatim>\<open>rpc/txpool\<close>,
  \<^verbatim>\<open>rpc/oasis\<close>) and of the storage (\<^verbatim>\<open>storage/psql/metrics.go\<close>), with the small APIs they wrap. The Prometheus
  counters are counted here; of a duration only that it was observed. A goroutine that a wrapper
  starts is noted in \<open>ms_spawned\<close> and runs as a step of its own.
\<close>

subsection \<open>Counters\<close>

record counters =
  mc_requests :: nat
  mc_successes :: nat
  mc_failures :: nat
  mc_inflight :: int
  mc_durations :: nat

record metrics =
  ms_methods :: "string \<Rightarrow> counters"
  ms_heights :: "(string \<times> u64) list"
  ms_signed :: nat
  ms_spawned :: "(string \<times> int) list"

definition no_counts :: counters where
  "no_counts = \<lparr>mc_requests = 0, mc_successes = 0, mc_failures = 0, mc_inflight = 0, mc_durations = 0\<rparr>"

definition new_metrics :: metrics where
  "new_metrics = \<lparr>ms_methods = (\<lambda>_. no_counts), ms_heights = [], ms_signed = 0, ms_spawned = []\<rparr>"

definition upd_method :: "string \<Rightarrow> (counters \<Rightarrow> counters) \<Rightarrow> metrics \<Rightarrow> metrics" where
  "upd_method meth f m = m\<lparr>ms_methods := (ms_methods m)(meth := f (ms_methods m meth))\<rparr>"

text \<open>\<open>InstrumentCaller\<close>: what it does at once, and the deferred function it returns.\<close>

definition instrument_begin :: "string \<Rightarrow> metrics \<Rightarrow> metrics" where
  "instrument_begin meth = upd_method meth (\<lambda>c. c\<lparr>mc_inflight := mc_inflight c + 1\<rparr>)"

definition instrument_end :: "string \<Rightarrow> bool \<Rightarrow> metrics \<Rightarrow> metrics" where
  "instrument_end meth failed = upd_method meth (\<lambda>c.
     (let c1 = c\<lparr>mc_durations := mc_durations c + 1, mc_requests := mc_requests c + 1\<rparr>;
          c2 = (if failed then c1\<lparr>mc_failures := mc_failures c1 + 1\<rparr> else c1\<lparr>mc_successes := mc_successes c1 + 1\<rparr>)
      in c2\<lparr>mc_inflight := mc_inflight c2 - 1\<rparr>))"

text \<open>
  A method with the deferred call. \<open>failed\<close> says when the error variable that was passed is not nil; it is nil when the
  method panics, and the deferred function runs then too.
\<close>

definition instrumented :: "string \<Rightarrow> ('a outcome \<Rightarrow> bool) \<Rightarrow> ('s \<times> metrics, 'a) pcall \<Rightarrow> ('s \<times> metrics, 'a) pcall" where
  "instrumented meth failed body sm = (case sm of (s, m) \<Rightarrow>
     (case body (s, instrument_begin meth m) of
        None \<Rightarrow> None
      | Some (r, (s', m')) \<Rightarrow> Some (r, (s', instrument_end meth (failed r) m'))))"

definition is_err :: "'a outcome \<Rightarrow> bool" where
  "is_err r = (case r of Err e \<Rightarrow> True | _ \<Rightarrow> False)"

definition no_err :: "'a outcome \<Rightarrow> bool" where
  "no_err r = False"

definition on_api :: "('s, 'a) pcall \<Rightarrow> ('s \<times> metrics, 'a) pcall" where
  "on_api c sm = (case sm of (s, m) \<Rightarrow> (case c s of None \<Rightarrow> None | Some (r, s') \<Rightarrow> Some (r, (s', m))))"

definition pure_answer :: "('s \<Rightarrow> 'a outcome) \<Rightarrow> ('s, 'a) pcall" where
  "pure_answer f s = Some (f s, s)"

definition spawn :: "string \<Rightarrow> int \<Rightarrow> ('s \<times> metrics, 'a) pcall \<Rightarrow> ('s \<times> metrics, 'a) pcall" where
  "spawn meth blockNum c sm = (case c sm of
       Some (Panic p, sm') \<Rightarrow> Some (Panic p, sm')
     | Some (r, (s, m)) \<Rightarrow> Some (r, (s, m\<lparr>ms_spawned := ms_spawned m @ [(meth, blockNum)]\<rparr>))
     | None \<Rightarrow> None)"

subsection \<open>Heights of requests\<close>

text \<open>\<open>None\<close> in the first component: not returning is possible through the backend.\<close>

definition latestAndRequestHeights :: "'b publicAPI \<Rightarrow> int \<Rightarrow> ('b, u64 \<times> u64) pcall" where
  "latestAndRequestHeights api blockNum =
     (if blockNum = PendingBlockNumber (api_tags api) \<or> blockNum = LatestBlockNumber (api_tags api) then p_ret (0, 0)
      else p_then (if blockNum = EarliestBlockNumber (api_tags api) then be_QueryLastRetainedRound (api_backend api) else p_ret 0) (\<lambda>height.
        if blockNum < 0 then p_fail ErrMalformedBlockNumber
        else p_then (total (be_QueryLastIndexedRound (api_backend api))) (\<lambda>latest.
          p_ret (latest, if height = 0 then word_of_int blockNum else height))))"

definition meassureRequestHeightDiff :: "'b publicAPI \<Rightarrow> string \<Rightarrow> int \<Rightarrow> 'b api_state \<times> metrics \<Rightarrow> ('b api_state \<times> metrics) option" where
  "meassureRequestHeightDiff api meth blockNum sm = (case sm of (s, m) \<Rightarrow>
     (case on_be (latestAndRequestHeights api blockNum) s of
        None \<Rightarrow> None
      | Some (Ok (latest, request), s') \<Rightarrow>
          Some (s', if latest < request then m else m\<lparr>ms_heights := ms_heights m @ [(meth, latest - request)]\<rparr>)
      | Some (_, s') \<Rightarrow> Some (s', m)))"

subsection \<open>The \<open>eth_\<close> methods\<close>

definition m_Accounts :: "('s \<times> metrics, bytes list) pcall" where
  "m_Accounts = instrumented ''eth_accounts'' is_err (on_api (p_ret api_Accounts))"

definition m_BlockNumber :: "'b publicAPI \<Rightarrow> ('b api_state \<times> metrics, u64) pcall" where
  "m_BlockNumber api = instrumented ''eth_blockNumber'' is_err (on_api (api_BlockNumber api))"

text \<open>
  \<open>cbor.Unmarshal\<close> is given the pack by value: the parameter \<open>Unmarshal_value\<close> is its error for a destination that is not a
  pointer.
\<close>

definition isSignedQuery :: "(bytes \<Rightarrow> gerror option) \<Rightarrow> TransactionArgs \<Rightarrow> bool" where
  "isSignedQuery Unmarshal_value args =
     (case (case ta_Data args of Some d \<Rightarrow> Some d | None \<Rightarrow> ta_Input args) of
        None \<Rightarrow> False
      | Some data \<Rightarrow> 1 < length data \<and> data ! 0 = 0xa3 \<and> Unmarshal_value data = None)"

definition m_Call :: "(bytes \<Rightarrow> gerror option) \<Rightarrow> 'b publicAPI \<Rightarrow> TransactionArgs \<Rightarrow> BlockNumberOrHash \<Rightarrow> ('b api_state \<times> metrics, bytes) pcall" where
  "m_Call Unmarshal_value api args b = instrumented ''eth_call'' is_err (\<lambda>(s, m).
     on_api (api_Call api args b) (s, if isSignedQuery Unmarshal_value args then m\<lparr>ms_signed := ms_signed m + 1\<rparr> else m))"

definition m_ChainId :: "'b publicAPI \<Rightarrow> ('s \<times> metrics, int) pcall" where
  "m_ChainId api = instrumented ''eth_chainId'' is_err (on_api (p_ret (api_ChainId api)))"

definition m_EstimateGas :: "'b publicAPI \<Rightarrow> TransactionArgs \<Rightarrow> int option \<Rightarrow> ('b api_state \<times> metrics, u64) pcall" where
  "m_EstimateGas api args blockNum = instrumented ''eth_estimateGas'' is_err (on_api (api_EstimateGas api args blockNum))"

definition m_GasPrice :: "('b api_state \<times> metrics, nat) pcall" where
  "m_GasPrice = instrumented ''eth_gasPrice'' is_err (on_api (pure_answer (\<lambda>s. Ok (api_GasPrice s))))"

definition m_MaxPriorityFeePerGas :: "('b api_state \<times> metrics, nat) pcall" where
  "m_MaxPriorityFeePerGas = instrumented ''eth_maxPriorityFeePerGas'' is_err (on_api (pure_answer (\<lambda>s. Ok (api_MaxPriorityFeePerGas s))))"

definition m_FeeHistory :: "(f64 \<Rightarrow> u64) \<Rightarrow> 'b publicAPI \<Rightarrow> u64 \<Rightarrow> int \<Rightarrow> f64 list \<Rightarrow> ('b api_state \<times> metrics, FeeHistoryResult) pcall" where
  "m_FeeHistory oob api blockCount lastBlock ps =
     instrumented ''eth_feeHistory'' is_err (on_api (pure_answer (api_FeeHistory oob api blockCount lastBlock ps)))"

definition m_GetBalance :: "'b publicAPI \<Rightarrow> bytes \<Rightarrow> BlockNumberOrHash \<Rightarrow> ('b api_state \<times> metrics, int) pcall" where
  "m_GetBalance api address b = instrumented ''eth_getBalance'' is_err (on_api (api_GetBalance api address b))"

definition m_GetBlockByHash :: "'b publicAPI \<Rightarrow> bytes \<Rightarrow> bool \<Rightarrow> ('b api_state \<times> metrics, EthBlock option) pcall" where
  "m_GetBlockByHash api blockHash fullTx = instrumented ''eth_getBlockByHash'' is_err (on_api (api_GetBlockByHash api blockHash fullTx))"

definition m_GetBlockByNumber :: "'b publicAPI \<Rightarrow> int \<Rightarrow> bool \<Rightarrow> ('b api_state \<times> metrics, EthBlock option) pcall" where
  "m_GetBlockByNumber api blockNum fullTx = instrumented ''eth_getBlockByNumber'' is_err
     (spawn ''eth_getBlockByNumber'' blockNum (on_api (api_GetBlockByNumber api blockNum fullTx)))"

definition m_GetBlockHash :: "'b publicAPI \<Rightarrow> int \<Rightarrow> ('b api_state \<times> metrics, bytes) pcall" where
  "m_GetBlockHash api blockNum = instrumented ''eth_getBlockHash'' is_err
     (spawn ''eth_getBlockHash'' blockNum (on_api (api_GetBlockHash api blockNum)))"

definition m_GetBlockTransactionCountByHash :: "'b publicAPI \<Rightarrow> bytes \<Rightarrow> ('b api_state \<times> metrics, nat) pcall" where
  "m_GetBlockTransactionCountByHash api blockHash =
     instrumented ''eth_getBlockTransationCountByHash'' is_err (on_api (api_GetBlockTransactionCountByHash api blockHash))"

definition m_GetBlockTransactionCountByNumber :: "'b publicAPI \<Rightarrow> int \<Rightarrow> ('b api_state \<times> metrics, nat) pcall" where
  "m_GetBlockTransactionCountByNumber api blockNum = instrumented ''eth_getBlockTransationCountByNumber'' is_err
     (spawn ''eth_getBlockTransationCountByNumber'' blockNum (on_api (api_GetBlockTransactionCountByNumber api blockNum)))"

definition m_GetCode :: "'b publicAPI \<Rightarrow> bytes \<Rightarrow> BlockNumberOrHash \<Rightarrow> ('b api_state \<times> metrics, bytes) pcall" where
  "m_GetCode api address b = instrumented ''eth_getCode'' is_err (on_api (api_GetCode api address b))"

definition m_GetLogs :: "'b publicAPI \<Rightarrow> FilterQuery \<Rightarrow> ('b api_state \<times> metrics, EthLog list) pcall" where
  "m_GetLogs api filt = instrumented ''eth_getLogs'' is_err (on_api (api_GetLogs api filt))"

definition m_GetStorageAt :: "'b publicAPI \<Rightarrow> bytes \<Rightarrow> string \<Rightarrow> BlockNumberOrHash \<Rightarrow> ('b api_state \<times> metrics, bytes) pcall" where
  "m_GetStorageAt api address slot b = instrumented ''eth_getStorageAt'' is_err (on_api (api_GetStorageAt api address slot b))"

definition m_GetTransactionByBlockHashAndIndex :: "'b publicAPI \<Rightarrow> bytes \<Rightarrow> u64 \<Rightarrow> ('b api_state \<times> metrics, RPCTransaction option) pcall" where
  "m_GetTransactionByBlockHashAndIndex api blockHash index =
     instrumented ''eth_getTransactionByBlockHashAndIndex'' is_err (on_api (api_GetTransactionByBlockHashAndIndex api blockHash index))"

definition m_GetTransactionByBlockNumberAndIndex :: "'b publicAPI \<Rightarrow> int \<Rightarrow> u64 \<Rightarrow> ('b api_state \<times> metrics, RPCTransaction option) pcall" where
  "m_GetTransactionByBlockNumberAndIndex api blockNum index = instrumented ''eth_getTransactionByBlockNumberAndIndex'' is_err
     (spawn ''eth_getTransactionByBlockNumberAndIndex'' blockNum (on_api (api_GetTransactionByBlockNumberAndIndex api blockNum index)))"

definition m_GetTransactionByHash :: "'b publicAPI \<Rightarrow> bytes \<Rightarrow> ('b api_state \<times> metrics, RPCTransaction option) pcall" where
  "m_GetTransactionByHash api h = instrumented ''eth_getTransactionByHash'' is_err (on_api (api_GetTransactionByHash api h))"

definition m_GetTransactionCount :: "'b publicAPI \<Rightarrow> bytes \<Rightarrow> BlockNumberOrHash \<Rightarrow> ('b api_state \<times> metrics, u64) pcall" where
  "m_GetTransactionCount api ethAddr b = instrumented ''eth_getTransactionCount'' is_err (on_api (api_GetTransactionCount api ethAddr b))"

definition m_GetTransactionReceipt :: "'b publicAPI \<Rightarrow> bytes \<Rightarrow> ('b api_state \<times> metrics, EthReceipt option) pcall" where
  "m_GetTransactionReceipt api txHash = instrumented ''eth_getTransactionReceipt'' is_err (on_api (api_GetTransactionReceipt api txHash))"

definition m_Hashrate :: "('s \<times> metrics, u64) pcall" where
  "m_Hashrate = instrumented ''eth_hashrate'' no_err (on_api (p_ret api_Hashrate))"

definition m_Mining :: "('s \<times> metrics, bool) pcall" where
  "m_Mining = instrumented ''eth_mining'' no_err (on_api (p_ret api_Mining))"

text \<open>\<open>SendRawTransaction\<close> returns a hash together with its error.\<close>

definition m_SendRawTransaction :: "'b publicAPI \<Rightarrow> bytes \<Rightarrow> ('b api_state \<times> metrics, bytes \<times> gerror option) pcall" where
  "m_SendRawTransaction api data = instrumented ''eth_sendRawTransaction''
     (\<lambda>r. case r of Ok (_, e) \<Rightarrow> e \<noteq> None | _ \<Rightarrow> is_err r) (on_api (api_SendRawTransaction api data))"

definition m_Syncing :: "('s \<times> metrics, bool) pcall" where
  "m_Syncing = instrumented ''eth_syncing'' is_err (on_api (p_ret api_Syncing))"

subsection \<open>The small APIs\<close>

definition net_Version :: "u32 \<Rightarrow> string" where
  "net_Version chainID = big_String (uint chainID)"

definition web3_Sha3 :: "(bytes \<Rightarrow> bytes) \<Rightarrow> bytes \<Rightarrow> bytes" where
  "web3_Sha3 Keccak256 input = Keccak256 input"

definition web3_ClientVersion :: "string \<Rightarrow> string \<Rightarrow> string" where
  "web3_ClientVersion software toolchain = ''oasis/'' @ software @ ''/'' @ toolchain"

definition txpool_Content :: "(string, unit list) gomap" where
  "txpool_Content = gm_store ''pending'' [] []"

definition m_net_Version :: "u32 \<Rightarrow> ('s \<times> metrics, string) pcall" where
  "m_net_Version chainID = instrumented ''net_version'' no_err (on_api (p_ret (net_Version chainID)))"

definition m_web3_Sha3 :: "(bytes \<Rightarrow> bytes) \<Rightarrow> bytes \<Rightarrow> ('s \<times> metrics, bytes) pcall" where
  "m_web3_Sha3 Keccak256 input = instrumented ''web3_sha3'' no_err (on_api (p_ret (web3_Sha3 Keccak256 input)))"

definition m_web3_ClientVersion :: "string \<Rightarrow> string \<Rightarrow> ('s \<times> metrics, string) pcall" where
  "m_web3_ClientVersion software toolchain = instrumented ''web3_clientVersion'' no_err (on_api (p_ret (web3_ClientVersion software toolchain)))"

definition m_txpool_Content :: "('s \<times> metrics, (string, unit list) gomap) pcall" where
  "m_txpool_Content = instrumented ''txpool_content'' is_err (on_api (p_ret txpool_Content))"

definition m_CallDataPublicKey :: "gerror + call_data_key \<Rightarrow> ('s \<times> metrics, call_data_key) pcall" where
  "m_CallDataPublicKey answer = instrumented ''oasis_callDataPublicKey'' no_err (on_api (pure_answer (\<lambda>_. CallDataPublicKey answer)))"

subsection \<open>The storage wrapper\<close>

type_synonym timings = "string \<Rightarrow> nat"

definition measured :: "string \<Rightarrow> (pgdb, 'a) call \<Rightarrow> (pgdb \<times> timings, 'a) call" where
  "measured label c sd = (case sd of (db, d) \<Rightarrow> (case c db of (r, db') \<Rightarrow> (r, (db', d(label := d label + 1)))))"

definition rowTypeName :: "row \<Rightarrow> string" where
  "rowTypeName r = (case r of RowTransaction _ \<Rightarrow> ''*model.Transaction'' | RowBlock _ \<Rightarrow> ''*model.Block'' | RowLog _ \<Rightarrow> ''*model.Log''
     | RowReceipt _ \<Rightarrow> ''*model.Receipt'' | RowTip _ \<Rightarrow> ''*model.IndexedRoundWithTip'')"

definition getTypeName :: "any_value \<Rightarrow> string" where
  "getTypeName v = (case v of One r \<Rightarrow> rowTypeName r | Slice _ \<Rightarrow> ''[]interface {}'')"

definition tblTypeName :: "tbl_name \<Rightarrow> string" where
  "tblTypeName t = (case t of TblTransaction \<Rightarrow> ''*model.Transaction'' | TblBlock \<Rightarrow> ''*model.Block'' | TblLog \<Rightarrow> ''*model.Log''
     | TblReceipt \<Rightarrow> ''*model.Receipt'' | TblTip \<Rightarrow> ''*model.IndexedRoundWithTip'')"

definition ms_Delete :: "handle \<Rightarrow> tbl_name \<Rightarrow> u64 \<Rightarrow> (pgdb \<times> timings, unit) call" where
  "ms_Delete h t n = measured (''Delete('' @ tblTypeName t @ '')'') (Delete h t n)"

definition ms_GetBlockByHash :: "handle \<Rightarrow> string \<Rightarrow> (pgdb \<times> timings, Block) call" where
  "ms_GetBlockByHash h hash = measured ''GetBlockByHash'' (GetBlockByHash h hash)"

definition ms_GetBlockByNumber :: "handle \<Rightarrow> u64 \<Rightarrow> (pgdb \<times> timings, Block) call" where
  "ms_GetBlockByNumber h n = measured ''GetBlockByNumber'' (GetBlockByNumber h n)"

definition ms_GetBlockHash :: "handle \<Rightarrow> u64 \<Rightarrow> (pgdb \<times> timings, string) call" where
  "ms_GetBlockHash h n = measured ''GetBlockHash'' (GetBlockHash h n)"

definition ms_GetBlockRound :: "handle \<Rightarrow> string \<Rightarrow> (pgdb \<times> timings, u64) call" where
  "ms_GetBlockRound h hash = measured ''GetBlockRound'' (GetBlockRound h hash)"

definition ms_GetBlockTransaction :: "handle \<Rightarrow> string \<Rightarrow> int \<Rightarrow> (pgdb \<times> timings, Transaction) call" where
  "ms_GetBlockTransaction h blockHash txIndex = measured ''GetBlockTransaction'' (GetBlockTransaction h blockHash txIndex)"

definition ms_GetBlockTransactionCountByHash :: "handle \<Rightarrow> string \<Rightarrow> (pgdb \<times> timings, nat) call" where
  "ms_GetBlockTransactionCountByHash h hash = measured ''GetBlockTransactionCountByHash'' (GetBlockTransactionCountByHash h hash)"

definition ms_GetBlockTransactionCountByNumber :: "handle \<Rightarrow> u64 \<Rightarrow> (pgdb \<times> timings, nat) call" where
  "ms_GetBlockTransactionCountByNumber h n = measured ''GetBlockTransactionCountByNumber'' (GetBlockTransactionCountByNumber h n)"

definition ms_GetLastIndexedRound :: "handle \<Rightarrow> (pgdb \<times> timings, u64) call" where
  "ms_GetLastIndexedRound h = measured ''GetLastIndexedRound'' (GetLastIndexedRound h)"

definition ms_GetLastRetainedRound :: "handle \<Rightarrow> (pgdb \<times> timings, u64) call" where
  "ms_GetLastRetainedRound h = measured ''GetLastRetainedRound'' (GetLastRetainedRound h)"

definition ms_GetLatestBlockHash :: "handle \<Rightarrow> (pgdb \<times> timings, string) call" where
  "ms_GetLatestBlockHash h = measured ''GetLastestBlockHash'' (GetLatestBlockHash h)"

definition ms_GetLatestBlockNumber :: "handle \<Rightarrow> (pgdb \<times> timings, u64) call" where
  "ms_GetLatestBlockNumber h = measured ''GetLastestBlockNumber'' (GetLatestBlockNumber h)"

definition ms_GetLogs :: "handle \<Rightarrow> u64 \<Rightarrow> u64 \<Rightarrow> (pgdb \<times> timings, Log list) call" where
  "ms_GetLogs h a b = measured ''GetLogs'' (GetLogs h a b)"

definition ms_GetTransaction :: "handle \<Rightarrow> string \<Rightarrow> (pgdb \<times> timings, Transaction) call" where
  "ms_GetTransaction h hash = measured ''GetTransaction'' (GetTransaction h hash)"

definition ms_GetTransactionReceipt :: "handle \<Rightarrow> string \<Rightarrow> (pgdb \<times> timings, Receipt) call" where
  "ms_GetTransactionReceipt h txHash = measured ''GetTransactionReceipt'' (GetTransactionReceipt h txHash)"

definition ms_Insert :: "(nat \<Rightarrow> gerror option) \<Rightarrow> handle \<Rightarrow> any_value \<Rightarrow> (pgdb \<times> timings, unit) call" where
  "ms_Insert bun_int h v = measured (''Insert('' @ getTypeName v @ '')'') (Insert bun_int h v)"

definition ms_InsertIfNotExists :: "(nat \<Rightarrow> gerror option) \<Rightarrow> handle \<Rightarrow> any_value \<Rightarrow> (pgdb \<times> timings, unit) call" where
  "ms_InsertIfNotExists bun_int h v = measured (''InsertIfNotExists('' @ getTypeName v @ '')'') (InsertIfNotExists bun_int h v)"

definition ms_Upsert :: "(nat \<Rightarrow> gerror option) \<Rightarrow> handle \<Rightarrow> any_value \<Rightarrow> (pgdb \<times> timings, unit) call" where
  "ms_Upsert bun_int h v = measured (''Upsert('' @ getTypeName v @ '')'') (Upsert bun_int h v)"

text \<open>What is wrapped: a \<open>PostDB\<close> or another storage. The function runs with a wrapped storage over the transaction.\<close>

datatype wrapped = OverPostDB handle | OverOther

definition with_timings :: "(pgdb, 'a) call \<Rightarrow> (pgdb \<times> timings, 'a) call" where
  "with_timings c sd = (case sd of (db, d) \<Rightarrow> (case c db of (r, db') \<Rightarrow> (r, (db', d))))"

definition ms_RunInTransaction :: "wrapped \<Rightarrow> (handle \<Rightarrow> (pgdb \<times> timings, 'a) call) \<Rightarrow> (pgdb \<times> timings, 'a) call" where
  "ms_RunInTransaction w fn sd = (case (w, sd) of
       (OverOther, _) \<Rightarrow> (Err (Errorf ''unsupported backend''), sd)
     | (OverPostDB InTx, _) \<Rightarrow> (Err (Errorf ''already in a transaction''), sd)
     | (OverPostDB Pool, (db, d)) \<Rightarrow>
        (case next_fault db of
           (Some e, db') \<Rightarrow> (Err e, (db', d))
         | (None, db') \<Rightarrow>
             (case fn InTx (close_tx db', d) of
                (Ok y, sd') \<Rightarrow> and_then (with_timings commit_tx) (\<lambda>_. ret y) sd'
              | (r, (db'', d')) \<Rightarrow> (r, (close_tx db'', d')))))"

subsection \<open>Instrumentation is transparent\<close>

definition metrics_ok :: "metrics \<Rightarrow> bool" where
  "metrics_ok m \<longleftrightarrow> (\<forall>meth. let c = ms_methods m meth in mc_requests c = mc_successes c + mc_failures c
     \<and> mc_inflight c = 0 \<and> mc_durations c = mc_requests c)"

text \<open>
  Instrumentation is transparent and counts exactly: a wrapped method that returns gives what the wrapped method gives and
  leaves its state as that does; it adds one request, and one failure or one success depending on the
  error it was told of; the other methods' counters stay, and between calls requests are successes plus failures with none in flight.
\<close>

lemma instrumented_counts:
  assumes "metrics_ok m" and "instrumented meth failed (on_api c) (s, m) = Some (r, (s', m'))"
  shows "c s = Some (r, s') \<and> metrics_ok m' \<and> ms_methods m' = (ms_methods m)(meth := ms_methods m' meth)
    \<and> mc_requests (ms_methods m' meth) = mc_requests (ms_methods m meth) + 1
    \<and> mc_failures (ms_methods m' meth) = mc_failures (ms_methods m meth) + (if failed r then 1 else 0)"
proof -
  obtain r0 s0 where c: "c s = Some (r0, s0)" using assms(2) by (cases "c s") (auto simp: instrumented_def on_api_def)
  then have r: "r = r0" "s' = s0" "m' = instrument_end meth (failed r) (instrument_begin meth m)"
    using assms(2) by (auto simp: instrumented_def on_api_def)
  show ?thesis using assms(1) c unfolding r by (auto simp: metrics_ok_def instrument_end_def instrument_begin_def upd_method_def Let_def)
qed

lemma new_metrics_ok: "metrics_ok new_metrics"
  by (simp add: metrics_ok_def new_metrics_def no_counts_def Let_def)

lemma instrumented_counts_example:
  "\<exists>m'. m_CallDataPublicKey (Inl (ErrExt ''node down'')) ((), new_metrics) = Some (Err ErrInternalError, ((), m'))
     \<and> mc_requests (ms_methods m' ''oasis_callDataPublicKey'') = 1 \<and> mc_failures (ms_methods m' ''oasis_callDataPublicKey'') = 0"
proof -
  let ?c = "pure_answer (\<lambda>(_ :: unit). CallDataPublicKey (Inl (ErrExt ''node down'')))"
  have "\<exists>m'. instrumented ''oasis_callDataPublicKey'' no_err (on_api ?c) ((), new_metrics) = Some (Err ErrInternalError, ((), m'))"
    by (simp add: instrumented_def on_api_def pure_answer_def CallDataPublicKey_def)
  then obtain m' where m': "instrumented ''oasis_callDataPublicKey'' no_err (on_api ?c) ((), new_metrics) = Some (Err ErrInternalError, ((), m'))" by blast
  from instrumented_counts [OF new_metrics_ok m'] m' show ?thesis
    by (intro exI [of _ m']) (simp add: m_CallDataPublicKey_def no_err_def new_metrics_def no_counts_def)
qed

text \<open>A failed \<open>oasis_callDataPublicKey\<close> is counted as a success: its wrapper does not pass its error on.\<close>

lemma oasis_failure_counted_as_success:
  assumes "metrics_ok m" and "m_CallDataPublicKey answer (s, m) = Some (r, (s', m'))"
  shows "mc_successes (ms_methods m' ''oasis_callDataPublicKey'') = mc_successes (ms_methods m ''oasis_callDataPublicKey'') + 1"
  using assms by (auto simp: m_CallDataPublicKey_def instrumented_def on_api_def pure_answer_def no_err_def instrument_end_def
      instrument_begin_def upd_method_def Let_def)

text \<open>Requests for the earliest block are never measured: the tag is negative, and the code falls through to the check of negative numbers.\<close>

lemma earliest_never_measured:
  assumes "tags_ok (api_tags api)" and "meassureRequestHeightDiff api meth (EarliestBlockNumber (api_tags api)) (s, m) = Some (s', m')"
  shows "m' = m"
proof -
  have neg: "EarliestBlockNumber (api_tags api) < 0" and
    ne: "EarliestBlockNumber (api_tags api) \<noteq> PendingBlockNumber (api_tags api)" "EarliestBlockNumber (api_tags api) \<noteq> LatestBlockNumber (api_tags api)"
    using assms(1) by (auto simp: tags_ok_def)
  then have "latestAndRequestHeights api (EarliestBlockNumber (api_tags api)) =
      p_then (be_QueryLastRetainedRound (api_backend api)) (\<lambda>_. p_fail ErrMalformedBlockNumber)"
    by (simp add: latestAndRequestHeights_def)
  with assms(2) show ?thesis
    by (auto simp: meassureRequestHeightDiff_def on_be_def p_then_def p_fail_def split: option.splits prod.splits outcome.splits)
qed

text \<open>A signed query is never counted when decoding into a destination that is not a pointer is an error.\<close>

lemma signed_query_never_counted: "(\<And>d. Unmarshal_value d \<noteq> None) \<Longrightarrow> \<not> isSignedQuery Unmarshal_value args"
  by (auto simp: isSignedQuery_def split: option.splits)

text \<open>
  the instrumented storage behaves as the plain one: a function run in a transaction of the wrapped storage, in which
  it does on the wrapped storage what another does on the plain one, has the outcome and the effect on the database of that
  other function run in a plain transaction.
\<close>

lemma storage_metrics_transparent:
  assumes "\<And>h' db' d'. \<exists>d''. fn' h' (db', d') = (fst (fn h' db'), (snd (fn h' db'), d''))"
  shows "\<exists>d'. ms_RunInTransaction (OverPostDB h) fn' (db, d) = (fst (RunInTransaction h fn db), (snd (RunInTransaction h fn db), d'))"
proof (cases h)
  case InTx
  then show ?thesis by (simp add: ms_RunInTransaction_def RunInTransaction_def)
next
  case Pool
  obtain f db1 where nf: "next_fault db = (f, db1)" by (cases "next_fault db")
  obtain r db2 where fn: "fn InTx (close_tx db1) = (r, db2)" by (cases "fn InTx (close_tx db1)")
  obtain d1 where fn': "fn' InTx (close_tx db1, d) = (r, (db2, d1))" using assms [of InTx "close_tx db1" d] fn by auto
  obtain rc db3 where cm: "commit_tx db2 = (rc, db3)" by (cases "commit_tx db2")
  show ?thesis using Pool nf fn fn' cm
    by (cases f; cases r; cases rc) (simp_all add: ms_RunInTransaction_def RunInTransaction_def with_timings_def ret_def)
qed

lemma storage_metrics_transparent_example:
  "\<exists>d'. ms_RunInTransaction (OverPostDB Pool) (\<lambda>h. ms_Upsert (\<lambda>_. None) h (One (RowTransaction example_tx))) (example_db, \<lambda>_. 0)
     = (fst (RunInTransaction Pool (\<lambda>h. Upsert (\<lambda>_. None) h (One (RowTransaction example_tx))) example_db),
        (snd (RunInTransaction Pool (\<lambda>h. Upsert (\<lambda>_. None) h (One (RowTransaction example_tx))) example_db), d'))"
proof (rule storage_metrics_transparent)
  show "\<exists>d''. ms_Upsert (\<lambda>_. None) h' (One (RowTransaction example_tx)) (db', d') =
      (fst (Upsert (\<lambda>_. None) h' (One (RowTransaction example_tx)) db'), (snd (Upsert (\<lambda>_. None) h' (One (RowTransaction example_tx)) db'), d''))"
    for h' db' d'
    by (simp add: ms_Upsert_def measured_def split: prod.split)
qed


subsection \<open>The counters of the cache\<close>

text \<open>
  \<open>Accumulate\<close> and one iteration of \<open>metricsWorker\<close> of \<^verbatim>\<open>indexer/backend_cache.go\<close>: what is exported for a label (hits, misses and
  their ratio), and the counters it leaves.
\<close>

definition Accumulate :: "cacheMetrics \<Rightarrow> (f64 \<times> f64 \<times> f64) \<times> cacheMetrics" where
  "Accumulate m =
     (let hits = cm_hits m; misses = cm_misses m; fTotal = f_of_u64 (hits + misses)
      in ((f_of_u64 hits, f_of_u64 misses, if f_le fTotal (Fin 0) then Fin 1 else f_div (f_of_u64 hits) fTotal), zero_metrics))"

definition metrics_iteration :: "CachingBackend \<Rightarrow> (string \<times> f64 \<times> f64 \<times> f64) list \<times> CachingBackend" where
  "metrics_iteration c =
     ([(''blocks'', fst (Accumulate (metricsBlockCache c))), (''transactions'', fst (Accumulate (metricsTxCache c))),
       (''transaction_receipts'', fst (Accumulate (metricsReceiptCache c))), (''transaction_logs'', fst (Accumulate (metricsLogCache c)))],
      c\<lparr>metricsBlockCache := snd (Accumulate (metricsBlockCache c)), metricsTxCache := snd (Accumulate (metricsTxCache c)),
        metricsReceiptCache := snd (Accumulate (metricsReceiptCache c)), metricsLogCache := snd (Accumulate (metricsLogCache c))\<rparr>)"

datatype cache_event = CacheHit | CacheMiss | CacheExport

text \<open>The counts that the exports of a sequence of events saw, and the counters after it.\<close>

fun cache_events :: "cache_event list \<Rightarrow> cacheMetrics \<Rightarrow> (u64 \<times> u64) list \<times> cacheMetrics" where
  "cache_events [] m = ([], m)"
| "cache_events (CacheHit # es) m = cache_events es (OnHit m)"
| "cache_events (CacheMiss # es) m = cache_events es (OnMiss m)"
| "cache_events (CacheExport # es) m =
     (case cache_events es (snd (Accumulate m)) of (xs, m') \<Rightarrow> ((cm_hits m, cm_misses m) # xs, m'))"

text \<open>No access is lost and none is counted twice: the exported hits and those still to be exported are all hits, and so are the misses.\<close>

lemma cache_accesses_counted:
  "cache_events es m = (xs, m') \<Longrightarrow>
     sum_list (map fst xs) + cm_hits m' = cm_hits m + of_nat (count_list es CacheHit)
   \<and> sum_list (map snd xs) + cm_misses m' = cm_misses m + of_nat (count_list es CacheMiss)"
proof (induction es m arbitrary: xs m' rule: cache_events.induct)
  case (4 es m)
  then show ?case by (auto simp: Accumulate_def zero_metrics_def Let_def split: prod.splits)
qed (auto simp: OnHit_def OnMiss_def)

text \<open>A cache that was not asked reports a perfect ratio.\<close>

lemma unused_cache_ratio: "snd (snd (fst (Accumulate zero_metrics))) = Fin 1"
  by (simp add: Accumulate_def zero_metrics_def f_of_u64_def round_f64_def Let_def)

end
