(* ===== verification/Migrator.thy ===== *)
theory Migrator
  imports Go_Stdlib "HOL-Library.List_Lexorder" "HOL-Library.Char_ord"
begin

text \<open>
  \<^verbatim>\<open>db/migrator\<close>: the migrator, over any kind of data \<open>'d\<close> that the migrations change. The table
  \<open>bun_migrations\<close> is a list of names with their ids; the sequence that numbers new rows is not
  rolled back with a transaction. Any statement may fail (\<open>md_faults\<close>, as in the model of the storage). A migration
  may run forever, so a step that runs one is a partial call: \<open>None\<close> stands for not returning. The time of a
  migration and its group are stored but never read and are left out.
\<close>

declare p_then_def [simp]

subsection \<open>Migrations\<close>

type_synonym 'd session = "'d \<times> gerror option list"
type_synonym 'd MigrationFunc = "('d session, unit) pcall"

record 'd Migration =
  mg_ID :: int
  mg_Name :: string
  mg_Up :: "'d MigrationFunc option"
  mg_Down :: "'d MigrationFunc option"

definition IsApplied :: "'d Migration \<Rightarrow> bool" where
  "IsApplied m \<longleftrightarrow> 0 < mg_ID m"

definition sortAsc :: "'d Migration list \<Rightarrow> 'd Migration list" where
  "sortAsc ms = sort_key mg_Name ms"

definition sortDesc :: "'d Migration list \<Rightarrow> 'd Migration list" where
  "sortDesc ms = rev (sort_key mg_Name ms)"

definition Applied :: "'d Migration list \<Rightarrow> 'd Migration list" where
  "Applied ms = sortDesc (filter IsApplied ms)"

definition Unapplied :: "'d Migration list \<Rightarrow> 'd Migration list" where
  "Unapplied ms = sortAsc (filter (\<lambda>m. \<not> IsApplied m) ms)"

fun join_names :: "'d Migration list \<Rightarrow> string" where
  "join_names [] = []"
| "join_names [m] = mg_Name m"
| "join_names (m # ms) = mg_Name m @ '', '' @ join_names ms"

definition slice_String :: "'d Migration list \<Rightarrow> string" where
  "slice_String ms =
     (if ms = [] then ''empty''
      else if 5 < length ms
      then big_String (int (length ms)) @ '' migrations ('' @ mg_Name (ms ! 0) @ '' ... '' @ mg_Name (ms ! (length ms - 1)) @ '')''
      else join_names ms)"

definition Sorted :: "'d Migration list \<Rightarrow> 'd Migration list" where
  "Sorted ms = sortAsc ms"

definition Add :: "'d Migration \<Rightarrow> ('d Migration list, unit) call" where
  "Add migration ms = (if mg_Name migration = [] then (Panic ''migration name is required'', ms) else (Ok (), ms @ [migration]))"

subsection \<open>Migrations from SQL files\<close>

text \<open>The queries of a file, from the lines of its scanner, with the current query as an accumulator.\<close>

definition bun_prefix :: string where
  "bun_prefix = ''--bun:''"

fun split_queries :: "string \<Rightarrow> string list \<Rightarrow> gerror + string list" where
  "split_queries query [] = Inr (if query = [] then [] else [query])"
| "split_queries query (b # bs) =
     (if take (length bun_prefix) b = bun_prefix
      then if drop (length bun_prefix) b = ''split''
           then (case split_queries [] bs of Inl e \<Rightarrow> Inl e | Inr qs \<Rightarrow> Inr (query # qs))
           else Inl (Errorf ''bun: unknown directive'')
      else split_queries (query @ b @ [CHR 0x0A]) bs)"

definition sql_exec :: "(string \<Rightarrow> 'd \<Rightarrow> gerror + 'd) \<Rightarrow> string \<Rightarrow> ('d session, unit) call" where
  "sql_exec run q s = (case s of
       (d, Some e # fs) \<Rightarrow> (Err e, (d, fs))
     | (d, fs) \<Rightarrow> (case run q d of Inl e \<Rightarrow> (Err e, (d, tl fs)) | Inr d' \<Rightarrow> (Ok (), (d', tl fs))))"

text \<open>\<open>content\<close> is what opening and scanning the file gives: its lines and the error of the scanner.\<close>

definition NewSQLMigrationFunc :: "(string \<Rightarrow> 'd \<Rightarrow> gerror + 'd) \<Rightarrow> gerror + string list \<times> gerror option \<Rightarrow> ('d session, unit) call" where
  "NewSQLMigrationFunc run content s = (case content of
       Inl e \<Rightarrow> (Err e, s)
     | Inr (ls, scan_err) \<Rightarrow>
        (case split_queries [] ls of
           Inl e \<Rightarrow> (Err e, s)
         | Inr queries \<Rightarrow> (case scan_err of Some e \<Rightarrow> (Err e, s) | None \<Rightarrow> for_each (sql_exec run) queries s)))"

subsection \<open>The database\<close>

record 'd migdb =
  md_data :: 'd
  md_table :: "(string \<times> int) list option"
  md_nextID :: int
  md_faults :: "gerror option list"

definition no_table :: gerror where
  "no_table = ErrExt ''relation bun_migrations does not exist''"

definition mg_exec :: "('d migdb \<Rightarrow> gerror + 'a \<times> 'd migdb) \<Rightarrow> ('d migdb, 'a) call" where
  "mg_exec f db = (case md_faults db of
       Some e # fs \<Rightarrow> (Err e, db\<lparr>md_faults := fs\<rparr>)
     | fs \<Rightarrow> (let db1 = db\<lparr>md_faults := tl fs\<rparr> in case f db1 of Inl e \<Rightarrow> (Err e, db1) | Inr (x, db2) \<Rightarrow> (Ok x, db2)))"

definition mg_ping :: "('d migdb, unit) call" where
  "mg_ping = mg_exec (\<lambda>db. Inr ((), db))"

definition roll_back :: "'d migdb \<Rightarrow> 'd migdb \<Rightarrow> 'd migdb" where
  "roll_back before db = db\<lparr>md_data := md_data before, md_table := md_table before\<rparr>"

text \<open>bun's \<open>RunInTx\<close>: an error, a panic or a failed commit rolls back.\<close>

definition run_in_tx :: "('d migdb, 'a) pcall \<Rightarrow> ('d migdb, 'a) pcall" where
  "run_in_tx fn = p_then (total mg_ping) (\<lambda>_ db1. case fn db1 of
       None \<Rightarrow> None
     | Some (Ok x, db2) \<Rightarrow> (case mg_ping db2 of
           (Ok _, db3) \<Rightarrow> Some (Ok x, db3)
         | (Err e, db3) \<Rightarrow> Some (Err e, roll_back db1 db3)
         | (Panic p, db3) \<Rightarrow> Some (Panic p, roll_back db1 db3))
     | Some (r, db2) \<Rightarrow> Some (r, roll_back db1 db2))"

subsection \<open>The migrator\<close>

definition mg_Init :: "('d migdb, unit) call" where
  "mg_Init = mg_exec (\<lambda>db. Inr ((), case md_table db of None \<Rightarrow> db\<lparr>md_table := Some [], md_nextID := 1\<rparr> | Some _ \<Rightarrow> db))"

definition mg_Delete :: "('d migdb, unit) call" where
  "mg_Delete = mg_exec (\<lambda>db. Inr ((), db\<lparr>md_table := None\<rparr>))"

definition lockMigrations :: "('d migdb, unit) call" where
  "lockMigrations db = (case mg_exec (\<lambda>db. if md_table db = None then Inl no_table else Inr ((), db)) db of
       (Err e, db') \<Rightarrow> (Err (Wrapf ''locking migrations'' e), db')
     | r \<Rightarrow> r)"

text \<open>The ids of the applied migrations; of two rows with one name the later one is used.\<close>

definition with_status :: "(string \<times> int) list \<Rightarrow> 'd Migration list \<Rightarrow> 'd Migration list" where
  "with_status rows ms = map (\<lambda>m. case map_of (rev rows) (mg_Name m) of Some id' \<Rightarrow> m\<lparr>mg_ID := id'\<rparr> | None \<Rightarrow> m) ms"

definition migrationsWithStatus :: "'d Migration list \<Rightarrow> ('d migdb, 'd Migration list) call" where
  "migrationsWithStatus ms = mg_exec (\<lambda>db. case md_table db of
       None \<Rightarrow> Inl no_table | Some rows \<Rightarrow> Inr (with_status rows (Sorted ms), db))"

text \<open>\<open>INSERT\<close> of a migration: an id of zero is left to the sequence, and ids are the primary key.\<close>

definition markApplied :: "'d Migration \<Rightarrow> ('d migdb, unit) call" where
  "markApplied m = mg_exec (\<lambda>db. case md_table db of
       None \<Rightarrow> Inl no_table
     | Some rows \<Rightarrow>
        (let i = (if mg_ID m = 0 then md_nextID db else mg_ID m);
             db1 = (if mg_ID m = 0 then db\<lparr>md_nextID := md_nextID db + 1\<rparr> else db)
         in if i \<in> snd ` set rows then Inl (ErrExt ''duplicate key value violates unique constraint'')
            else Inr ((), db1\<lparr>md_table := Some (rows @ [(mg_Name m, i)])\<rparr>)))"

definition markUnapplied :: "'d Migration \<Rightarrow> ('d migdb, unit) call" where
  "markUnapplied m = mg_exec (\<lambda>db. case md_table db of
       None \<Rightarrow> Inl no_table
     | Some rows \<Rightarrow> Inr ((), db\<lparr>md_table := Some (filter (\<lambda>(_, i). i \<noteq> mg_ID m) rows)\<rparr>))"

definition run_func :: "'d MigrationFunc option \<Rightarrow> ('d migdb, unit) pcall" where
  "run_func fn db = (case fn of
       None \<Rightarrow> Some (Ok (), db)
     | Some f \<Rightarrow> (case f (md_data db, md_faults db) of
           None \<Rightarrow> None
         | Some (r, (d, fs)) \<Rightarrow> Some (r, db\<lparr>md_data := d, md_faults := fs\<rparr>)))"

text \<open>The closure of \<open>Migrate\<close>; its result is \<open>stop\<close>.\<close>

definition migrate_one :: "'d Migration list \<Rightarrow> ('d migdb, bool) pcall" where
  "migrate_one ms =
     p_then (total lockMigrations) (\<lambda>_.
     p_then (total (migrationsWithStatus ms)) (\<lambda>migrations.
       case Unapplied migrations of
         [] \<Rightarrow> total (ret True)
       | migration # _ \<Rightarrow>
           p_then (run_func (mg_Up migration)) (\<lambda>_.
           p_then (total (markApplied migration)) (\<lambda>_. total (ret False)))))"

partial_function (option) migrate_loop :: "'d Migration list \<Rightarrow> 'd migdb \<Rightarrow> (unit outcome \<times> 'd migdb) option" where
  "migrate_loop ms db = (case run_in_tx (migrate_one ms) db of
       None \<Rightarrow> None
     | Some (Ok stop, db') \<Rightarrow> if stop then Some (Ok (), db') else migrate_loop ms db'
     | Some (Err e, db') \<Rightarrow> Some (Err (Wrapf ''applying migration'' e), db')
     | Some (Panic p, db') \<Rightarrow> Some (Panic p, db'))"

definition Migrate :: "'d Migration list \<Rightarrow> ('d migdb, unit) pcall" where
  "Migrate ms db = (if Sorted ms = [] then Some (Err (Errorf ''no migrations''), db) else migrate_loop ms db)"

definition Rollback :: "'d Migration list \<Rightarrow> ('d migdb, unit) pcall" where
  "Rollback ms db = (if Sorted ms = [] then Some (Err (Errorf ''no migrations''), db)
     else run_in_tx
       (p_then (total lockMigrations) (\<lambda>_.
        p_then (total (migrationsWithStatus ms)) (\<lambda>migrations.
          case Applied migrations of
            [] \<Rightarrow> total (\<lambda>db'. (Err (Errorf ''no applied migrations''), db'))
          | migration # _ \<Rightarrow> p_then (run_func (mg_Down migration)) (\<lambda>_. total (markUnapplied migration))))) db)"

subsection \<open>What is still to be applied\<close>

definition pending :: "(string \<times> int) list \<Rightarrow> 'd Migration list \<Rightarrow> 'd Migration list" where
  "pending rows ms = filter (\<lambda>m. mg_Name m \<notin> fst ` set rows) (sort_key mg_Name ms)"

definition fresh_migrations :: "'d Migration list \<Rightarrow> bool" where
  "fresh_migrations ms \<longleftrightarrow> distinct (map mg_Name ms) \<and> (\<forall>m \<in> set ms. mg_ID m = 0)"

definition marks_ok :: "int \<Rightarrow> (string \<times> int) list \<Rightarrow> bool" where
  "marks_ok next_id rows \<longleftrightarrow> 0 < next_id \<and> (\<forall>(n, i) \<in> set rows. 0 < i \<and> i < next_id)"

lemma with_status_applied:
  assumes "marks_ok k rows" and "mg_ID m = 0"
  shows "IsApplied (case map_of (rev rows) (mg_Name m) of Some i \<Rightarrow> m\<lparr>mg_ID := i\<rparr> | None \<Rightarrow> m) \<longleftrightarrow> mg_Name m \<in> fst ` set rows"
proof (cases "map_of (rev rows) (mg_Name m)")
  case None
  then have "mg_Name m \<notin> fst ` set rows" by (simp add: map_of_eq_None_iff)
  with None assms(2) show ?thesis by (simp add: IsApplied_def)
next
  case (Some i)
  then have i: "(mg_Name m, i) \<in> set rows" using map_of_SomeD by fastforce
  then have "0 < i" using assms(1) by (auto simp: marks_ok_def)
  with Some i show ?thesis by (auto simp: IsApplied_def intro: rev_image_eqI)
qed

lemma unapplied_pending:
  assumes "marks_ok k rows" and "fresh_migrations ms"
  shows "Unapplied (with_status rows (Sorted ms)) = pending rows ms"
proof -
  have *: "filter (\<lambda>m. \<not> IsApplied m) (with_status rows xs) = filter (\<lambda>m. mg_Name m \<notin> fst ` set rows) xs"
    if "set xs \<subseteq> set ms" for xs
    using that
  proof (induction xs)
    case (Cons m xs)
    then have "mg_ID m = 0" using assms(2) by (auto simp: fresh_migrations_def)
    note st = with_status_applied [OF assms(1) this]
    have "map_of (rev rows) (mg_Name m) = None" if "mg_Name m \<notin> fst ` set rows"
      using that by (simp add: map_of_eq_None_iff)
    with Cons st show ?case by (auto simp: with_status_def)
  qed (simp add: with_status_def)
  have "sorted (map mg_Name (pending rows ms))"
    unfolding pending_def by (rule sorted_filter) simp
  then have "sort_key mg_Name (pending rows ms) = pending rows ms" by (rule sort_key_id_if_sorted)
  with * [of "sort_key mg_Name ms"] show ?thesis
    by (simp add: Unapplied_def sortAsc_def Sorted_def pending_def)
qed

lemma pending_mark:
  assumes "fresh_migrations ms" and "pending rows ms = m # rest"
  shows "pending (rows @ [(mg_Name m, i)]) ms = rest"
proof -
  have "pending (rows @ [(mg_Name m, i)]) ms = filter (\<lambda>x. mg_Name x \<noteq> mg_Name m) (pending rows ms)"
    by (auto simp: pending_def intro!: filter_cong)
  moreover have "distinct (map mg_Name (sort_key mg_Name ms))"
    using assms(1) by (simp add: fresh_migrations_def distinct_map)
  then have "distinct (map mg_Name (pending rows ms))" unfolding pending_def by (rule distinct_map_filter)
  ultimately show ?thesis using assms(2) by (auto intro!: filter_True) (metis image_eqI)
qed

lemma pending_subset: "set (pending rows ms) \<subseteq> set ms"
  by (auto simp: pending_def)

subsection \<open>One transaction of \<open>Migrate\<close>\<close>

text \<open>The data after the \<open>Up\<close> functions of some migrations ran successfully one after the other.\<close>

inductive ran :: "'d Migration list \<Rightarrow> 'd \<Rightarrow> 'd \<Rightarrow> bool" where
  ran_none: "ran [] d d"
| ran_skip: "mg_Up m = None \<Longrightarrow> ran ms d d' \<Longrightarrow> ran (m # ms) d d'"
| ran_up: "mg_Up m = Some f \<Longrightarrow> f (d, fs) = Some (Ok (), (d1, fs')) \<Longrightarrow> ran ms d1 d' \<Longrightarrow> ran (m # ms) d d'"

text \<open>Every \<open>Up\<close> returns on data with the property \<open>Q\<close>, and keeps it when it succeeds.\<close>

definition ups_return :: "('d \<Rightarrow> bool) \<Rightarrow> 'd Migration list \<Rightarrow> bool" where
  "ups_return Q ms \<longleftrightarrow> (\<forall>m \<in> set ms. \<forall>f d fs. mg_Up m = Some f \<longrightarrow> Q d \<longrightarrow>
     (\<exists>r d' fs'. f (d, fs) = Some (r, (d', fs')) \<and> (r = Ok () \<longrightarrow> Q d')))"

lemma mg_exec_cases:
  "(\<exists>e. mg_exec f db = (Err e, db\<lparr>md_faults := tl (md_faults db)\<rparr>)) \<or> (\<exists>x db'. f (db\<lparr>md_faults := tl (md_faults db)\<rparr>) = Inr (x, db')
     \<and> mg_exec f db = (Ok x, db'))"
  by (auto simp: mg_exec_def Let_def split: list.splits option.splits sum.splits)

lemma mg_ping_cases: "\<exists>fs. mg_ping db = (Ok (), db\<lparr>md_faults := fs\<rparr>) \<or> (\<exists>e. mg_ping db = (Err e, db\<lparr>md_faults := fs\<rparr>))"
  using mg_exec_cases [of "\<lambda>db. Inr ((), db)" db] by (auto simp: mg_ping_def)

lemma lock_cases:
  "md_table db = Some rows \<Longrightarrow> \<exists>fs. lockMigrations db = (Ok (), db\<lparr>md_faults := fs\<rparr>) \<or> (\<exists>e. lockMigrations db = (Err e, db\<lparr>md_faults := fs\<rparr>))"
  using mg_exec_cases [of "\<lambda>db. if md_table db = None then Inl no_table else Inr ((), db)" db]
  by (auto simp: lockMigrations_def)

lemma status_cases:
  "md_table db = Some rows \<Longrightarrow> \<exists>fs. migrationsWithStatus ms db = (Ok (with_status rows (Sorted ms)), db\<lparr>md_faults := fs\<rparr>)
     \<or> (\<exists>e. migrationsWithStatus ms db = (Err e, db\<lparr>md_faults := fs\<rparr>))"
  using mg_exec_cases [of "\<lambda>db. case md_table db of None \<Rightarrow> Inl no_table | Some rows \<Rightarrow> Inr (with_status rows (Sorted ms), db)" db]
  by (auto simp: migrationsWithStatus_def)

lemma mark_cases:
  assumes "md_table db = Some rows" and "marks_ok (md_nextID db) rows" and "mg_ID m = 0"
  shows "(\<exists>e fs. markApplied m db = (Err e, db\<lparr>md_faults := fs\<rparr>)) \<or>
    (\<exists>fs. markApplied m db = (Ok (), db\<lparr>md_faults := fs, md_nextID := md_nextID db + 1,
        md_table := Some (rows @ [(mg_Name m, md_nextID db)])\<rparr>))"
proof -
  let ?f = "\<lambda>db. case md_table db of
       None \<Rightarrow> Inl no_table
     | Some rows \<Rightarrow>
        (let i = (if mg_ID m = 0 then md_nextID db else mg_ID m);
             db1 = (if mg_ID m = 0 then db\<lparr>md_nextID := md_nextID db + 1\<rparr> else db)
         in if i \<in> snd ` set rows then Inl (ErrExt ''duplicate key value violates unique constraint'')
            else Inr ((), db1\<lparr>md_table := Some (rows @ [(mg_Name m, i)])\<rparr>))"
  have "md_nextID db \<notin> snd ` set rows" using assms(2) by (auto simp: marks_ok_def)
  then have "?f (db\<lparr>md_faults := fs\<rparr>) = Inr ((), db\<lparr>md_faults := fs, md_nextID := md_nextID db + 1,
        md_table := Some (rows @ [(mg_Name m, md_nextID db)])\<rparr>)" for fs
    using assms(1,3) by (simp add: Let_def)
  with mg_exec_cases [of ?f db] show ?thesis by (auto simp: markApplied_def)
qed

definition step_result :: "'d Migration list \<Rightarrow> ('d \<Rightarrow> bool) \<Rightarrow> (string \<times> int) list \<Rightarrow> 'd migdb \<Rightarrow> bool outcome \<Rightarrow> 'd migdb \<Rightarrow> bool" where
  "step_result ms Q rows db r db' \<longleftrightarrow>
     r = Ok True \<and> pending rows ms = [] \<and> md_data db' = md_data db \<and> md_table db' = Some rows
   \<or> (\<exists>m rest. r = Ok False \<and> pending rows ms = m # rest \<and> ran [m] (md_data db) (md_data db') \<and> Q (md_data db')
       \<and> md_table db' = Some (rows @ [(mg_Name m, md_nextID db)]) \<and> md_nextID db' = md_nextID db + 1)"

lemma migrate_one_cases:
  assumes t: "md_table db = Some rows" and k: "marks_ok (md_nextID db) rows" and f: "fresh_migrations ms"
    and u: "ups_return Q ms" "Q (md_data db)"
  shows "\<exists>r db'. migrate_one ms db = Some (r, db') \<and> ((\<forall>x. r \<noteq> Ok x) \<and> md_nextID db' = md_nextID db \<or> step_result ms Q rows db r db')"
proof -
  obtain fs1 where l: "lockMigrations db = (Ok (), db\<lparr>md_faults := fs1\<rparr>) \<or> (\<exists>e. lockMigrations db = (Err e, db\<lparr>md_faults := fs1\<rparr>))"
    using lock_cases [OF t] by blast
  let ?db1 = "db\<lparr>md_faults := fs1\<rparr>"
  obtain fs2 where q: "migrationsWithStatus ms ?db1 = (Ok (with_status rows (Sorted ms)), db\<lparr>md_faults := fs2\<rparr>)
      \<or> (\<exists>e. migrationsWithStatus ms ?db1 = (Err e, db\<lparr>md_faults := fs2\<rparr>))"
    using status_cases [of ?db1 rows ms] t by auto
  let ?db2 = "db\<lparr>md_faults := fs2\<rparr>"
  note up = unapplied_pending [OF k f]
  show ?thesis
  proof (cases "(\<exists>e. lockMigrations db = (Err e, ?db1)) \<or> (\<exists>e. migrationsWithStatus ms ?db1 = (Err e, ?db2))")
    case True
    with l show ?thesis by (auto simp: migrate_one_def total_def)
  next
    case False
    with l q have s: "migrate_one ms db = (case pending rows ms of
         [] \<Rightarrow> total (ret True)
       | migration # _ \<Rightarrow>
           p_then (run_func (mg_Up migration)) (\<lambda>_.
           p_then (total (markApplied migration)) (\<lambda>_. total (ret False)))) ?db2"
      by (auto simp: migrate_one_def total_def up)
    show ?thesis
    proof (cases "pending rows ms")
      case Nil
      with s t show ?thesis by (simp add: total_def ret_def step_result_def)
    next
      case (Cons m rest)
      then have m: "m \<in> set ms" "mg_ID m = 0" using pending_subset [of rows ms] f by (auto simp: fresh_migrations_def)
      have "\<exists>r d' fs3. run_func (mg_Up m) ?db2 = Some (r, db\<lparr>md_data := d', md_faults := fs3\<rparr>) \<and> (r = Ok () \<longrightarrow> Q d' \<and> ran [m] (md_data db) d')"
      proof (cases "mg_Up m")
        case None
        with u(2) show ?thesis by (auto simp: run_func_def intro: ran.intros intro!: exI [of _ "md_data db"])
      next
        case (Some up')
        then obtain r d' fs' where "up' (md_data db, fs2) = Some (r, (d', fs'))" "r = Ok () \<longrightarrow> Q d'"
          using u m(1) unfolding ups_return_def by blast
        with Some show ?thesis by (auto simp: run_func_def intro: ran.intros)
      qed
      then obtain r d' fs3 where rf: "run_func (mg_Up m) ?db2 = Some (r, db\<lparr>md_data := d', md_faults := fs3\<rparr>)"
        "r = Ok () \<longrightarrow> Q d' \<and> ran [m] (md_data db) d'" by blast
      let ?db3 = "db\<lparr>md_data := d', md_faults := fs3\<rparr>"
      have "(\<exists>e fs. markApplied m ?db3 = (Err e, ?db3\<lparr>md_faults := fs\<rparr>)) \<or>
        (\<exists>fs. markApplied m ?db3 = (Ok (), ?db3\<lparr>md_faults := fs, md_nextID := md_nextID db + 1,
          md_table := Some (rows @ [(mg_Name m, md_nextID db)])\<rparr>))"
        using mark_cases [of ?db3 rows m] t k m(2) by simp
      with s Cons rf show ?thesis
        by (cases r) (auto simp: total_def ret_def step_result_def)
    qed
  qed
qed

lemma migrate_tx_cases:
  assumes "md_table db = Some rows" and "marks_ok (md_nextID db) rows" and "fresh_migrations ms"
    and "ups_return Q ms" and "Q (md_data db)"
  shows "\<exists>r db'. run_in_tx (migrate_one ms) db = Some (r, db')
    \<and> ((\<forall>x. r \<noteq> Ok x) \<and> md_data db' = md_data db \<and> md_table db' = Some rows \<or> step_result ms Q rows db r db')"
proof -
  obtain fs where p: "mg_ping db = (Ok (), db\<lparr>md_faults := fs\<rparr>) \<or> (\<exists>e. mg_ping db = (Err e, db\<lparr>md_faults := fs\<rparr>))"
    using mg_ping_cases by blast
  let ?db1 = "db\<lparr>md_faults := fs\<rparr>"
  obtain r db2 where o1: "migrate_one ms ?db1 = Some (r, db2)" and res: "(\<forall>x. r \<noteq> Ok x) \<or> step_result ms Q rows db r db2"
    using migrate_one_cases [of ?db1 rows ms Q] assms by (auto simp: step_result_def)
  obtain fs2 where p2: "mg_ping db2 = (Ok (), db2\<lparr>md_faults := fs2\<rparr>) \<or> (\<exists>e. mg_ping db2 = (Err e, db2\<lparr>md_faults := fs2\<rparr>))"
    using mg_ping_cases by blast
  have "step_result ms Q rows db r db2 \<Longrightarrow> step_result ms Q rows db r (db2\<lparr>md_faults := fs2\<rparr>)"
    by (simp add: step_result_def)
  with p o1 res p2 assms(1) show ?thesis
    by (cases r) (auto simp: run_in_tx_def total_def roll_back_def)
qed

subsection \<open>The whole migration\<close>

lemma ran_append: "ran ms d d' \<Longrightarrow> ran ms' d' d'' \<Longrightarrow> ran (ms @ ms') d d''"
  by (induction rule: ran.induct) (auto intro: ran.intros)

lemma marks_ok_step: "marks_ok k rows \<Longrightarrow> marks_ok (k + 1) (rows @ [(n, k)])"
  by (auto simp: marks_ok_def)

lemma migrate_loop_applies:
  assumes "md_table db = Some rows" and "marks_ok (md_nextID db) rows" and "fresh_migrations ms"
    and "ups_return Q ms" and "Q (md_data db)"
  shows "\<exists>r db' rows' k. migrate_loop ms db = Some (r, db') \<and> md_table db' = Some rows' \<and> k \<le> length (pending rows ms)
    \<and> map fst rows' = map fst rows @ map mg_Name (take k (pending rows ms))
    \<and> ran (take k (pending rows ms)) (md_data db) (md_data db')
    \<and> (r = Ok () \<longrightarrow> k = length (pending rows ms))"
  using assms
proof (induction "length (pending rows ms)" arbitrary: rows db rule: less_induct)
  case less
  obtain r db1 where tx: "run_in_tx (migrate_one ms) db = Some (r, db1)"
    and res: "(\<forall>x. r \<noteq> Ok x) \<and> md_data db1 = md_data db \<and> md_table db1 = Some rows \<or> step_result ms Q rows db r db1"
    using migrate_tx_cases [OF less.prems] by blast
  consider (stop) "\<not> (r = Ok False)" "md_data db1 = md_data db" "md_table db1 = Some rows" "r = Ok True \<longrightarrow> pending rows ms = []"
    | (more) m rest where "r = Ok False" "pending rows ms = m # rest" "ran [m] (md_data db) (md_data db1)" "Q (md_data db1)"
        "md_table db1 = Some (rows @ [(mg_Name m, md_nextID db)])" "md_nextID db1 = md_nextID db + 1"
    using res by (auto simp: step_result_def)
  then show ?case
  proof cases
    case stop
    then have "\<exists>r'. migrate_loop ms db = Some (r', db1) \<and> (r' = Ok () \<longrightarrow> pending rows ms = [])"
      using tx by (subst migrate_loop.simps) (auto split: outcome.split)
    then obtain r' where "migrate_loop ms db = Some (r', db1)" "r' = Ok () \<longrightarrow> pending rows ms = []" by blast
    with stop show ?thesis by (intro exI [of _ r'] exI [of _ db1] exI [of _ rows] exI [of _ 0]) (simp add: ran.intros)
  next
    case (more m rest)
    let ?rows = "rows @ [(mg_Name m, md_nextID db)]"
    have p: "pending ?rows ms = rest" by (rule pending_mark [OF less.prems(3) more(2)])
    have "migrate_loop ms db = migrate_loop ms db1" using tx more(1) by (subst migrate_loop.simps) simp
    moreover have "marks_ok (md_nextID db1) ?rows" using marks_ok_step [OF less.prems(2)] more(6) by simp
    ultimately obtain r' db' rows' k where *: "migrate_loop ms db = Some (r', db')" "md_table db' = Some rows'" "k \<le> length rest"
        "map fst rows' = map fst ?rows @ map mg_Name (take k rest)" "ran (take k rest) (md_data db1) (md_data db')"
        "r' = Ok () \<longrightarrow> k = length rest"
      using less.hyps [of ?rows db1] p more less.prems by auto
    moreover have "ran (m # take k rest) (md_data db) (md_data db')" using ran_append [OF more(3) *(5)] by simp
    ultimately show ?thesis using more(2)
      by (intro exI [of _ r'] exI [of _ db'] exI [of _ rows'] exI [of _ "Suc k"]) simp
  qed
qed

end
