(* ===== verification/Logs_Migration.thy ===== *)
theory Logs_Migration
  imports Psql Migrator
begin

text \<open>
  \<^verbatim>\<open>db/migrations\<close>: the list of the gateway's migrations and the one written in Go, which numbers the logs of every
  round anew. It runs on the tables of the storage model; the rows of a round come back in any order
  (\<open>scan\<close>), because the statement orders by round only. The SQL files are parameters.
\<close>

subsection \<open>The storage helper of the migration\<close>

definition up_stmt :: "(tables \<Rightarrow> gerror + 'a \<times> tables) \<Rightarrow> (tables session, 'a) call" where
  "up_stmt f s = (case s of
       (t, Some e # fs) \<Rightarrow> (Err e, (t, fs))
     | (t, fs) \<Rightarrow> (case f t of Inl e \<Rightarrow> (Err e, (t, tl fs)) | Inr (x, t') \<Rightarrow> (Ok x, (t', tl fs))))"

definition up_tip :: "string \<Rightarrow> (tables session, u64) call" where
  "up_tip tip s = (case up_stmt (\<lambda>t. Inr (tbl_lookup ir_Tip (indexed_rounds t) tip, t)) s of
       (Ok None, s') \<Rightarrow> (Ok 0, s')
     | (Ok (Some r), s') \<Rightarrow> (Ok (ir_Round r), s')
     | (Err e, s') \<Rightarrow> (if errors_Is e ErrNoRows then Ok 0 else Err e, s')
     | (Panic p, s') \<Rightarrow> (Panic p, s'))"

definition up_GetLastRetainedRound :: "(tables session, u64) call" where
  "up_GetLastRetainedRound = up_tip LastRetained"

definition up_GetLastIndexedRound :: "(tables session, u64) call" where
  "up_GetLastIndexedRound = up_tip Continues"

definition between :: "u64 \<Rightarrow> u64 \<Rightarrow> Log \<Rightarrow> bool" where
  "between startRound endRound l \<longleftrightarrow> startRound \<le> log_Round l \<and> log_Round l \<le> endRound"

definition up_GetLogs :: "(Log list \<Rightarrow> Log list) \<Rightarrow> u64 \<Rightarrow> u64 \<Rightarrow> (tables session, Log list) call" where
  "up_GetLogs scan startRound endRound =
     up_stmt (\<lambda>t. Inr (sort_key log_Round (scan (filter (between startRound endRound) (logs t))), t))"

definition up_DeleteLogs :: "u64 \<Rightarrow> u64 \<Rightarrow> (tables session, unit) call" where
  "up_DeleteLogs startRound endRound =
     up_stmt (\<lambda>t. Inr ((), t\<lparr>logs := filter (\<lambda>l. \<not> between startRound endRound l) (logs t)\<rparr>))"

fun insert_all :: "Log list \<Rightarrow> Log list \<Rightarrow> gerror + Log list" where
  "insert_all [] rows = Inr rows"
| "insert_all (l # ls) rows = (case tbl_insert log_pk l rows of Inl e \<Rightarrow> Inl e | Inr rows' \<Rightarrow> insert_all ls rows')"

definition up_InsertLogs :: "Log list \<Rightarrow> (tables session, unit) call" where
  "up_InsertLogs values = up_stmt (\<lambda>t. case insert_all values (logs t) of
       Inl e \<Rightarrow> Inl e | Inr rows \<Rightarrow> Inr ((), t\<lparr>logs := rows\<rparr>))"

subsection \<open>The migration\<close>

definition up_batchSize :: u64 where
  "up_batchSize = 100"

fun reindex :: "u64 \<Rightarrow> u64 \<Rightarrow> Log list \<Rightarrow> Log list" where
  "reindex currentIdx currentRound [] = []"
| "reindex currentIdx currentRound (l # ls) =
     (let idx = (if log_Round l \<noteq> currentRound then 0 else currentIdx)
      in l\<lparr>log_Index := idx\<rparr> # reindex (idx + 1) (log_Round l) ls)"

definition wrap_err :: "string \<Rightarrow> ('s, 'a) call \<Rightarrow> ('s, 'a) call" where
  "wrap_err msg c s = (case c s of (Err e, s') \<Rightarrow> (Err (Wrapf msg e), s') | r \<Rightarrow> r)"

definition up_batch :: "(Log list \<Rightarrow> Log list) \<Rightarrow> u64 \<Rightarrow> u64 \<Rightarrow> (tables session, unit) call" where
  "up_batch scan bs be =
     and_then (wrap_err ''GetLogs'' (up_GetLogs scan bs be)) (\<lambda>ls.
     and_then (wrap_err ''DeleteLogs'' (up_DeleteLogs bs be)) (\<lambda>_.
       if ls \<noteq> [] then wrap_err ''BulkInsert'' (up_InsertLogs (reindex 0 bs ls)) else ret ()))"

partial_function (option) logs_up_loop :: "(Log list \<Rightarrow> Log list) \<Rightarrow> u64 \<Rightarrow> u64 \<Rightarrow> tables session \<Rightarrow> (unit outcome \<times> tables session) option" where
  "logs_up_loop scan endRound i s =
     (if i \<le> endRound
      then (case up_batch scan i (min (i + up_batchSize - 1) endRound) s of
              (Ok _, s') \<Rightarrow> logs_up_loop scan endRound (i + up_batchSize) s'
            | (Err e, s') \<Rightarrow> Some (Err e, s')
            | (Panic p, s') \<Rightarrow> Some (Panic p, s'))
      else Some (Ok (), s))"

definition LogsUp :: "(Log list \<Rightarrow> Log list) \<Rightarrow> tables MigrationFunc" where
  "LogsUp scan =
     p_then (total (wrap_err ''GetLastRetainedRound'' up_GetLastRetainedRound)) (\<lambda>start.
     p_then (total (wrap_err ''GetLastIndexedRound'' up_GetLastIndexedRound)) (\<lambda>endRound.
       logs_up_loop scan endRound start))"

text \<open>The migrations in the order \<open>init\<close> adds them.\<close>

definition Migrations :: "(Log list \<Rightarrow> Log list) \<Rightarrow> (string \<Rightarrow> (tables session, unit) call) \<Rightarrow> tables Migration list" where
  "Migrations scan sql_file =
     [\<lparr>mg_ID = 0, mg_Name = ''20211213143752'', mg_Up = Some (total (sql_file ''20211213143752_initial.up.sql'')), mg_Down = None\<rparr>,
      \<lparr>mg_ID = 0, mg_Name = ''20220109122505'', mg_Up = Some (LogsUp scan), mg_Down = None\<rparr>,
      \<lparr>mg_ID = 0, mg_Name = ''20220324091030'', mg_Up = Some (total (sql_file ''20220324091030_receipt_round_index.up.sql'')), mg_Down = None\<rparr>,
      \<lparr>mg_ID = 0, mg_Name = ''20240527164010'', mg_Up = Some (total (sql_file ''20240527164010_receipt_effective_gas_price.up.sql'')), mg_Down = None\<rparr>]"

definition migrations_Migrate :: "tables Migration list \<Rightarrow> (tables migdb, unit) pcall" where
  "migrations_Migrate ms = p_then (Migrate ms) (\<lambda>_. p_then (total (migrationsWithStatus ms)) (\<lambda>_. total (ret ())))"

definition RunMigrations :: "tables Migration list \<Rightarrow> (tables migdb, unit) pcall" where
  "RunMigrations ms =
     p_then (total (wrap_err ''init migrations'' mg_Init)) (\<lambda>_ db.
       case migrations_Migrate ms db of
         Some (Err e, db') \<Rightarrow> Some (Err (Wrapf ''migrations'' e), db')
       | r \<Rightarrow> r)"

subsection \<open>Numbering\<close>

definition erase_index :: "Log \<Rightarrow> Log" where
  "erase_index l = l\<lparr>log_Index := 0\<rparr>"

definition of_round :: "u64 \<Rightarrow> Log list \<Rightarrow> Log list" where
  "of_round n ls = filter (\<lambda>l. log_Round l = n) ls"

lemma erase_reindex [simp]: "map erase_index (reindex i m ls) = map erase_index ls"
  by (induction i m ls rule: reindex.induct) (simp_all add: Let_def erase_index_def)

lemma reindex_indices:
  assumes "sorted (map log_Round ls)" and "\<And>l. l \<in> set ls \<Longrightarrow> m \<le> log_Round l"
  shows "map log_Index (of_round n (reindex i m ls)) =
    map (\<lambda>k. (if n = m then i else 0) + of_nat k) [0..<length (of_round n ls)]"
  using assms
proof (induction i m ls rule: reindex.induct)
  case (1 i m)
  then show ?case by (simp add: of_round_def)
next
  case (2 i m l ls)
  let ?idx = "if log_Round l \<noteq> m then 0 else i"
  have IH: "map log_Index (of_round n (reindex (?idx + 1) (log_Round l) ls)) =
      map (\<lambda>k. (if n = log_Round l then ?idx + 1 else 0) + of_nat k) [0..<length (of_round n ls)]"
    by (rule "2.IH") (use "2.prems" in auto)
  have shift: "map (\<lambda>k. j + of_nat k) [0..<Suc c] = j # map (\<lambda>k. (j + 1) + of_nat k) [0..<c]" for j :: u64 and c
    by (simp add: upt_conv_Cons map_Suc_upt [symmetric] del: upt_Suc)
  have none: "of_round n ls = []" if "n = m" "log_Round l \<noteq> m"
  proof -
    have "m < log_Round l" using "2.prems"(2) [of l] that by simp
    then show ?thesis using "2.prems"(1) that by (fastforce simp: of_round_def filter_empty_conv)
  qed
  show ?case
  proof (cases "log_Round l = n")
    case True
    then have "map log_Index (of_round n (reindex i m (l # ls))) = ?idx # map (\<lambda>k. (?idx + 1) + of_nat k) [0..<length (of_round n ls)]"
      using IH by (simp add: Let_def of_round_def)
    moreover have "length (of_round n (l # ls)) = Suc (length (of_round n ls))" using True by (simp add: of_round_def)
    moreover have "?idx = (if n = m then i else 0)" using True by auto
    ultimately show ?thesis using shift [of ?idx "length (of_round n ls)"] by simp
  next
    case False
    have "of_round n (reindex i m (l # ls)) = of_round n (reindex (?idx + 1) (log_Round l) ls)"
      using False by (simp add: Let_def of_round_def)
    moreover have "of_round n (l # ls) = of_round n ls" using False by (simp add: of_round_def)
    ultimately show ?thesis using IH False none by auto
  qed
qed

subsection \<open>One batch\<close>

text \<open>
  What the table has to satisfy: keys are unique, the logs of a transaction are in one round, and there are not so many
  logs that an index would wrap around.
\<close>

definition numberable :: "Log list \<Rightarrow> bool" where
  "numberable ls \<longleftrightarrow> tbl_unique log_pk ls \<and> (\<forall>l \<in> set ls. \<forall>l' \<in> set ls. log_TxHash l = log_TxHash l' \<longrightarrow> log_Round l = log_Round l')
     \<and> length ls < 2 ^ 64"

text \<open>The logs of the rounds from \<open>a\<close> to \<open>b\<close> are numbered from zero, all others are untouched, and only indices change.\<close>

definition reindexed :: "u64 \<Rightarrow> u64 \<Rightarrow> Log list \<Rightarrow> Log list \<Rightarrow> bool" where
  "reindexed a b ls ls' \<longleftrightarrow> mset (map erase_index ls') = mset (map erase_index ls)
     \<and> (\<forall>n. if a \<le> n \<and> n \<le> b then map log_Index (of_round n ls') = map of_nat [0..<length (of_round n ls)]
         else of_round n ls' = of_round n ls)"

lemma reindexed_erased: "reindexed a b ls ls' \<Longrightarrow> mset (map erase_index ls') = mset (map erase_index ls)"
  by (simp add: reindexed_def)

lemma reindexed_inside:
  "reindexed a b ls ls' \<Longrightarrow> a \<le> n \<Longrightarrow> n \<le> b \<Longrightarrow> map log_Index (of_round n ls') = map of_nat [0..<length (of_round n ls)]"
  by (simp add: reindexed_def)

lemma reindexed_outside: "reindexed a b ls ls' \<Longrightarrow> \<not> (a \<le> n \<and> n \<le> b) \<Longrightarrow> of_round n ls' = of_round n ls"
  unfolding reindexed_def by presburger

lemma distinct_by_groups:
  assumes "\<And>n. distinct (map f (filter (\<lambda>y. g y = n) ys))"
    and "\<And>y y'. y \<in> set ys \<Longrightarrow> y' \<in> set ys \<Longrightarrow> f y = f y' \<Longrightarrow> g y = g y'"
  shows "distinct (map f ys)"
  using assms
proof (induction ys)
  case (Cons y ys)
  have "f y \<notin> f ` set ys"
  proof
    assume "f y \<in> f ` set ys"
    then obtain y' where y': "y' \<in> set ys" "f y = f y'" by auto
    then have "g y' = g y" using Cons.prems(2) [of y' y] by simp
    then show False using Cons.prems(1) [of "g y"] y' by auto
  qed
  moreover have "distinct (map f (filter (\<lambda>y. g y = n) ys))" for n
    using Cons.prems(1) [of n] by (simp split: if_splits)
  then have "distinct (map f ys)" using Cons.prems(2) by (intro Cons.IH) auto
  ultimately show ?case by simp
qed simp

lemma erase_index_fields: "erase_index l = erase_index l' \<Longrightarrow> log_Round l = log_Round l' \<and> log_TxHash l = log_TxHash l'"
  by (cases l; cases l') (simp add: erase_index_def)

lemma same_erased:
  assumes "mset (map erase_index ls') = mset (map erase_index ls)" and "l' \<in> set ls'"
  shows "\<exists>l \<in> set ls. log_Round l = log_Round l' \<and> log_TxHash l = log_TxHash l'"
proof -
  have "erase_index l' \<in> erase_index ` set ls" using assms by (metis image_eqI list.set_map set_mset_mset)
  then obtain l where "l \<in> set ls" "erase_index l' = erase_index l" by auto
  with erase_index_fields [of l' l] show ?thesis by auto
qed

lemma length_of_round: "length (of_round n ls) \<le> length ls"
  by (simp add: of_round_def)

lemma distinct_indices: "c < 2 ^ 64 \<Longrightarrow> distinct (map (of_nat :: nat \<Rightarrow> u64) [0..<c])"
proof -
  assume "c < 2 ^ 64"
  then have "inj_on (of_nat :: nat \<Rightarrow> u64) {0..<c}"
    by (intro inj_onI) (simp add: word_of_nat_eq_iff take_bit_nat_eq_self)
  then show ?thesis by (simp add: distinct_map)
qed

lemma insert_all_fresh: "tbl_unique log_pk (rows @ ls) \<Longrightarrow> insert_all ls rows = Inr (rows @ ls)"
proof (induction ls arbitrary: rows)
  case (Cons l ls)
  then have "tbl_lookup log_pk rows (log_pk l) = None" by (auto simp: tbl_unique_def tbl_lookup_None_iff)
  then have "insert_all (l # ls) rows = insert_all ls (rows @ [l])" by (simp add: tbl_insert_def)
  with Cons show ?case by (simp add: tbl_unique_def)
qed simp

definition batch_logs :: "(Log list \<Rightarrow> Log list) \<Rightarrow> u64 \<Rightarrow> u64 \<Rightarrow> Log list \<Rightarrow> Log list" where
  "batch_logs scan a b ls = filter (\<lambda>l. \<not> between a b l) ls @ reindex 0 a (sort_key log_Round (scan (filter (between a b) ls)))"

lemma mset_filter_partition: "mset (filter (\<lambda>x. \<not> P x) xs) + mset (filter P xs) = mset xs"
  by (induction xs) auto

lemma of_round_erased:
  assumes "map erase_index ls' = map erase_index ls"
  shows "of_round n ls' = [] \<longleftrightarrow> of_round n ls = []"
proof -
  have "map log_Round xs = map log_Round (map erase_index xs)" for xs by (simp add: erase_index_def)
  with assms have "map log_Round ls' = map log_Round ls" by metis
  then have "log_Round ` set ls' = log_Round ` set ls" by (metis list.set_map)
  moreover have "of_round n xs = [] \<longleftrightarrow> n \<notin> log_Round ` set xs" for xs by (auto simp: of_round_def filter_empty_conv)
  ultimately show ?thesis by simp
qed

lemma batch_reindexed:
  assumes "\<And>xs. mset (scan xs) = mset xs"
  shows "reindexed a b ls (batch_logs scan a b ls)"
proof -
  let ?in = "filter (between a b) ls" and ?out = "filter (\<lambda>l. \<not> between a b l) ls"
  let ?s = "sort_key log_Round (scan ?in)"
  have ms: "mset ?s = mset ?in" using assms by simp
  then have st: "set ?s = set ?in" by (metis set_mset_mset)
  have "mset (map erase_index (batch_logs scan a b ls)) = image_mset erase_index (mset ?out) + image_mset erase_index (mset ?in)"
    using ms by (simp add: batch_logs_def)
  also have "\<dots> = image_mset erase_index (mset ls)" by (simp only: image_mset_union [symmetric] mset_filter_partition)
  finally have er: "mset (map erase_index (batch_logs scan a b ls)) = mset (map erase_index ls)" by simp
  have len: "length (of_round n ?s) = length (of_round n ls)" if "a \<le> n" "n \<le> b" for n
  proof -
    have "mset (of_round n ?s) = mset (of_round n ?in)" by (simp only: of_round_def mset_filter ms)
    moreover have "of_round n ?in = of_round n ls" using that by (auto simp: of_round_def between_def intro!: filter_cong)
    ultimately show ?thesis by (metis mset_eq_length)
  qed
  have "if a \<le> n \<and> n \<le> b then map log_Index (of_round n (batch_logs scan a b ls)) = map of_nat [0..<length (of_round n ls)]
      else of_round n (batch_logs scan a b ls) = of_round n ls" for n
  proof (cases "a \<le> n \<and> n \<le> b")
    case True
    have "of_round n ?out = []" using True by (auto simp: of_round_def between_def filter_empty_conv)
    then have "of_round n (batch_logs scan a b ls) = of_round n (reindex 0 a ?s)" by (simp add: batch_logs_def of_round_def)
    moreover have "map log_Index (of_round n (reindex 0 a ?s)) = map (\<lambda>k. (if n = a then 0 else 0) + of_nat k) [0..<length (of_round n ?s)]"
      by (rule reindex_indices) (use st in \<open>auto simp: between_def\<close>)
    ultimately show ?thesis using True len by simp
  next
    case False
    then have "of_round n ?s = []" using st by (auto simp: of_round_def between_def filter_empty_conv)
    then have "of_round n (reindex 0 a ?s) = []" using of_round_erased [OF erase_reindex [of 0 a ?s]] by simp
    moreover have "of_round n ?out = of_round n ls" using False by (auto simp: of_round_def between_def intro!: filter_cong)
    ultimately have "of_round n (batch_logs scan a b ls) = of_round n ls" by (simp add: batch_logs_def of_round_def)
    with False show ?thesis by presburger
  qed
  with er show ?thesis by (simp add: reindexed_def)
qed

lemma reindexed_length:
  assumes "reindexed a b ls ls'"
  shows "length (of_round n ls') = length (of_round n ls)" and "length ls' = length ls"
proof -
  have "length (map erase_index ls') = length (map erase_index ls)"
    by (rule mset_eq_length) (rule reindexed_erased [OF assms])
  then show "length ls' = length ls" by simp
  show "length (of_round n ls') = length (of_round n ls)"
  proof (cases "a \<le> n \<and> n \<le> b")
    case True
    then have "length (map log_Index (of_round n ls')) = length (map of_nat [0..<length (of_round n ls)] :: u64 list)"
      using reindexed_inside [OF assms, of n] by metis
    then show ?thesis by simp
  qed (use reindexed_outside [OF assms, of n] in simp)
qed

lemma reindexed_numberable:
  assumes r: "reindexed a b ls ls'" and nb: "numberable ls"
  shows "numberable ls'"
proof -
  note er = reindexed_erased [OF r]
  have hash_round: "log_Round l = log_Round l'" if "l \<in> set ls" "l' \<in> set ls" "log_TxHash l = log_TxHash l'" for l l'
    using nb that unfolding numberable_def by blast
  have one: "log_Round l = log_Round l'" if "l \<in> set ls'" "l' \<in> set ls'" "log_TxHash l = log_TxHash l'" for l l'
  proof -
    note h = that
    obtain k where k: "k \<in> set ls" "log_Round k = log_Round l" "log_TxHash k = log_TxHash l" using same_erased [OF er h(1)] by blast
    obtain k' where k': "k' \<in> set ls" "log_Round k' = log_Round l'" "log_TxHash k' = log_TxHash l'" using same_erased [OF er h(2)] by blast
    show ?thesis using hash_round [OF k(1) k'(1)] k k' h(3) by simp
  qed
  have "distinct (map log_pk (filter (\<lambda>l. log_Round l = n) ls'))" for n
  proof (cases "a \<le> n \<and> n \<le> b")
    case True
    have "length (of_round n ls) < 2 ^ 64" using length_of_round [of n ls] nb unfolding numberable_def by linarith
    then have "distinct (map snd (map log_pk (of_round n ls')))"
      using distinct_indices reindexed_inside [OF r, of n] True by (simp add: log_pk_def o_def)
    then show ?thesis unfolding of_round_def by (rule distinct_map [THEN iffD1, THEN conjunct1])
  next
    case False
    have "distinct (map log_pk ls)" using nb by (simp add: numberable_def tbl_unique_def)
    then have "distinct (map log_pk (of_round n ls))" unfolding of_round_def by (rule distinct_map_filter)
    then show ?thesis using reindexed_outside [OF r False] by (simp add: of_round_def)
  qed
  then have "distinct (map log_pk ls')" by (rule distinct_by_groups) (simp add: log_pk_def, blast intro: one)
  moreover have "length ls' < 2 ^ 64" using reindexed_length(2) [OF r] nb by (simp add: numberable_def)
  ultimately show ?thesis unfolding numberable_def tbl_unique_def by (intro conjI ballI impI one)
qed

lemma reindexed_trans:
  assumes "reindexed a b ls ls1" and "reindexed a' c ls1 ls2" and "\<And>n. n \<le> b \<longleftrightarrow> n < a'" and "a \<le> a'" and "b \<le> c"
  shows "reindexed a c ls ls2"
proof -
  have "if a \<le> n \<and> n \<le> c then map log_Index (of_round n ls2) = map of_nat [0..<length (of_round n ls)]
      else of_round n ls2 = of_round n ls" for n
  proof (cases "n < a'")
    case True
    have out: "of_round n ls2 = of_round n ls1" by (rule reindexed_outside [OF assms(2)]) (use True in auto)
    have "n \<le> b" "n \<le> c" using assms(3) [of n] True assms(5) by auto
    with out show ?thesis using reindexed_inside [OF assms(1), of n] reindexed_outside [OF assms(1), of n] by auto
  next
    case False
    then have n: "\<not> n \<le> b" "a \<le> n" using assms(3) [of n] assms(4) by auto
    then have "of_round n ls1 = of_round n ls" using reindexed_outside [OF assms(1), of n] by simp
    with n False show ?thesis using reindexed_inside [OF assms(2), of n] reindexed_outside [OF assms(2), of n] by auto
  qed
  then show ?thesis using reindexed_erased [OF assms(1)] reindexed_erased [OF assms(2)] unfolding reindexed_def by simp
qed

subsection \<open>The whole migration\<close>

lemma up_stmt_ok: "up_stmt f (t, []) = (case f t of Inl e \<Rightarrow> (Err e, (t, [])) | Inr (x, t') \<Rightarrow> (Ok x, (t', [])))"
  by (simp add: up_stmt_def split: sum.split prod.split)

lemma up_batch_ok:
  assumes sc: "\<And>xs. mset (scan xs) = mset xs" and nb: "numberable (logs t)"
  shows "up_batch scan a b (t, []) = (Ok (), (t\<lparr>logs := batch_logs scan a b (logs t)\<rparr>, []))"
proof -
  let ?ls = "sort_key log_Round (scan (filter (between a b) (logs t)))" and ?out = "filter (\<lambda>l. \<not> between a b l) (logs t)"
  have b: "batch_logs scan a b (logs t) = ?out @ reindex 0 a ?ls" by (simp add: batch_logs_def)
  have "numberable (batch_logs scan a b (logs t))" by (rule reindexed_numberable [OF batch_reindexed [OF sc] nb])
  then have "tbl_unique log_pk (?out @ reindex 0 a ?ls)" by (simp add: numberable_def b)
  then have ins: "insert_all (reindex 0 a ?ls) ?out = Inr (?out @ reindex 0 a ?ls)" by (rule insert_all_fresh)
  show ?thesis
  proof (cases "?ls = []")
    case True
    then have "batch_logs scan a b (logs t) = ?out" using b by simp
    with True show ?thesis by (simp add: up_batch_def wrap_err_def up_GetLogs_def up_DeleteLogs_def up_stmt_ok ret_def)
  next
    case False
    with ins b show ?thesis
      by (simp add: up_batch_def wrap_err_def up_GetLogs_def up_DeleteLogs_def up_InsertLogs_def up_stmt_ok)
  qed
qed

text \<open>The rounds of a batch, when the last round is far enough from the largest one.\<close>

lemma batch_bounds:
  fixes i e :: u64
  assumes "i \<le> e" and "unat e + 100 < 2 ^ 64"
  shows "i \<le> min (i + up_batchSize - 1) e" and "unat (i + up_batchSize) = unat i + 100"
    and "n \<le> i + up_batchSize - 1 \<longleftrightarrow> n < i + up_batchSize"
proof -
  have "unat i \<le> unat e" using assms(1) by (simp add: word_le_nat_alt)
  then have s: "unat i + unat (100 :: u64) < 2 ^ LENGTH(64)" using assms(2) by simp
  then show u: "unat (i + up_batchSize) = unat i + 100" unfolding up_batchSize_def by (subst unat_add_lem [THEN iffD1]) auto
  then have ne: "i + up_batchSize \<noteq> 0" by (metis add_is_0 unat_0 zero_neq_numeral)
  show iff: "m \<le> i + up_batchSize - 1 \<longleftrightarrow> m < i + up_batchSize" for m using ne by uint_arith
  have "i < i + up_batchSize" using u by (simp add: word_less_nat_alt)
  then have "i \<le> i + up_batchSize - 1" using iff by blast
  with assms(1) show "i \<le> min (i + up_batchSize - 1) e" by simp
qed

lemma logs_up_loop_ok:
  assumes sc: "\<And>xs. mset (scan xs) = mset xs" and e: "unat e + 100 < 2 ^ 64" and nb: "numberable (logs t)"
  shows "\<exists>ls'. logs_up_loop scan e i (t, []) = Some (Ok (), (t\<lparr>logs := ls'\<rparr>, [])) \<and> numberable ls' \<and> reindexed i e (logs t) ls'"
  using nb
proof (induction "Suc (unat e) - unat i" arbitrary: i t rule: less_induct)
  case less
  show ?case
  proof (cases "i \<le> e")
    case False
    then have "logs_up_loop scan e i (t, []) = Some (Ok (), (t\<lparr>logs := logs t\<rparr>, []))" by (subst logs_up_loop.simps) simp
    moreover have "reindexed i e (logs t) (logs t)" using False by (auto simp: reindexed_def)
    ultimately show ?thesis using less.prems by blast
  next
    case True
    let ?b = "min (i + up_batchSize - 1) e" and ?next = "i + up_batchSize"
    let ?ls1 = "batch_logs scan i ?b (logs t)"
    note bb = batch_bounds [OF True e]
    have r1: "reindexed i ?b (logs t) ?ls1" by (rule batch_reindexed [OF sc])
    have n1: "numberable ?ls1" by (rule reindexed_numberable [OF r1 less.prems])
    have step: "logs_up_loop scan e i (t, []) = logs_up_loop scan e ?next (t\<lparr>logs := ?ls1\<rparr>, [])"
      using True up_batch_ok [where scan = scan, OF sc less.prems] by (subst logs_up_loop.simps) simp
    have "unat i \<le> unat e" using True by (simp add: word_le_nat_alt)
    then have "Suc (unat e) - unat ?next < Suc (unat e) - unat i" using bb(2) by simp
    then obtain ls' where l: "logs_up_loop scan e ?next (t\<lparr>logs := ?ls1\<rparr>, []) = Some (Ok (), (t\<lparr>logs := ls'\<rparr>, []))"
        "numberable ls'" "reindexed ?next e ?ls1 ls'"
      using less.hyps [of ?next "t\<lparr>logs := ?ls1\<rparr>"] n1 by auto
    have "reindexed i e (logs t) ls'"
    proof (cases "?next \<le> e")
      case True
      then have "\<not> e \<le> ?next - 1" using bb(3) [of e] by (simp add: not_less)
      then have b: "?b = ?next - 1" by (intro min_absorb1) simp
      have "i \<le> ?next" using bb(2) by (simp add: word_le_nat_alt)
      moreover have "m \<le> ?b \<longleftrightarrow> m < ?next" for m unfolding b by (rule bb(3))
      ultimately show ?thesis by (intro reindexed_trans [OF r1 l(3)]) simp_all
    next
      case False
      then have "e \<le> ?next - 1" using bb(3) [of e] by simp
      then have b: "?b = e" by (rule min_absorb2)
      have "of_round n ls' = of_round n ?ls1" for n
        by (rule reindexed_outside [OF l(3)]) (use False order.trans in blast)
      with r1 b reindexed_erased [OF l(3)] show ?thesis by (simp add: reindexed_def)
    qed
    with step l show ?thesis by auto
  qed
qed

text \<open>A table where the migration reads its bounds.\<close>

definition tip_round :: "string \<Rightarrow> tables \<Rightarrow> u64" where
  "tip_round tip t = (case tbl_lookup ir_Tip (indexed_rounds t) tip of None \<Rightarrow> 0 | Some r \<Rightarrow> ir_Round r)"

lemma up_tip_ok: "up_tip tip (t, []) = (Ok (tip_round tip t), (t, []))"
  by (simp add: up_tip_def up_stmt_ok tip_round_def split: option.split)


definition example_unnumbered :: tables where
  "example_unnumbered = empty_tables\<lparr>indexed_rounds := [\<lparr>ir_Tip = Continues, ir_Round = 9\<rparr>],
     logs := [(example_log 7 5)\<lparr>log_TxHash := ''0x02''\<rparr>, example_log 7 4]\<rparr>"


text \<open>Whatever statements fail, the migration returns, and it never touches the indexed rounds.\<close>

lemma up_stmt_keeps:
  assumes "\<And>t x t'. f t = Inr (x, t') \<Longrightarrow> indexed_rounds t' = indexed_rounds t"
  shows "indexed_rounds (fst (snd (up_stmt f s))) = indexed_rounds (fst s)"
  using assms by (auto simp: up_stmt_def split: prod.splits list.splits option.splits sum.splits)

lemma wrap_err_snd [simp]: "snd (wrap_err msg c s) = snd (c s)"
  by (simp add: wrap_err_def split: prod.split outcome.split)

lemma keeps_then:
  assumes "\<And>s. indexed_rounds (fst (snd (c s))) = indexed_rounds (fst s)"
    and "\<And>x s. indexed_rounds (fst (snd (k x s))) = indexed_rounds (fst s)"
  shows "indexed_rounds (fst (snd (and_then c k s))) = indexed_rounds (fst s)"
proof -
  obtain r s' where c: "c s = (r, s')" by (cases "c s")
  with assms(1) [of s] have "indexed_rounds (fst s') = indexed_rounds (fst s)" by simp
  with c assms(2) show ?thesis by (cases r) simp_all
qed

lemma up_batch_keeps: "indexed_rounds (fst (snd (up_batch scan a b s))) = indexed_rounds (fst s)"
  unfolding up_batch_def
  by (intro keeps_then)
    (auto simp del: and_then.simps simp: up_GetLogs_def up_DeleteLogs_def up_InsertLogs_def ret_def split: sum.splits intro!: up_stmt_keeps keeps_then)

lemma logs_up_loop_returns:
  assumes "unat e + 100 < 2 ^ 64"
  shows "\<exists>r s'. logs_up_loop scan e i s = Some (r, s') \<and> indexed_rounds (fst s') = indexed_rounds (fst s)"
proof (induction "Suc (unat e) - unat i" arbitrary: i s rule: less_induct)
  case less
  show ?case
  proof (cases "i \<le> e")
    case False
    then show ?thesis by (subst logs_up_loop.simps) simp
  next
    case True
    obtain r s1 where b: "up_batch scan i (min (i + up_batchSize - 1) e) s = (r, s1)" by (cases "up_batch scan i (min (i + up_batchSize - 1) e) s")
    with up_batch_keeps [of scan i "min (i + up_batchSize - 1) e" s] have k: "indexed_rounds (fst s1) = indexed_rounds (fst s)" by simp
    have "unat i \<le> unat e" using True by (simp add: word_le_nat_alt)
    then have "Suc (unat e) - unat (i + up_batchSize) < Suc (unat e) - unat i" using batch_bounds(2) [OF True assms] by simp
    from less.hyps [OF this, of s1] b k True show ?thesis by (cases r) (subst logs_up_loop.simps, simp)+
  qed
qed

subsection \<open>All migrations\<close>

definition rounds_far :: "tables \<Rightarrow> bool" where
  "rounds_far t \<longleftrightarrow> unat (tip_round Continues t) + 100 < 2 ^ 64"

lemma up_tip_snd: "indexed_rounds (fst (snd (up_tip tip s))) = indexed_rounds (fst s)"
proof -
  have "snd (up_tip tip s) = snd (up_stmt (\<lambda>t. Inr (tbl_lookup ir_Tip (indexed_rounds t) tip, t)) s)"
    by (simp add: up_tip_def split: prod.split outcome.split option.split)
  moreover have "indexed_rounds (fst (snd (up_stmt (\<lambda>t. Inr (tbl_lookup ir_Tip (indexed_rounds t) tip, t)) s))) = indexed_rounds (fst s)"
    by (rule up_stmt_keeps) simp
  ultimately show ?thesis by simp
qed

lemma up_tip_value: "up_tip tip s = (Ok n, s') \<Longrightarrow> n = tip_round tip (fst s) \<or> n = 0"
  by (auto simp: up_tip_def up_stmt_def tip_round_def split: prod.splits list.splits option.splits outcome.splits if_splits)

lemma LogsUp_returns:
  assumes "rounds_far (fst s)"
  shows "\<exists>r s'. LogsUp scan s = Some (r, s') \<and> indexed_rounds (fst s') = indexed_rounds (fst s)"
proof -
  obtain r1 s1 where t1: "up_tip LastRetained s = (r1, s1)" by (cases "up_tip LastRetained s")
  obtain r2 s2 where t2: "up_tip Continues s1 = (r2, s2)" by (cases "up_tip Continues s1")
  have k: "indexed_rounds (fst s1) = indexed_rounds (fst s)" "indexed_rounds (fst s2) = indexed_rounds (fst s1)"
    using up_tip_snd [of LastRetained s] up_tip_snd [of Continues s1] t1 t2 by simp_all
  show ?thesis
  proof (cases "\<exists>a b. r1 = Ok a \<and> r2 = Ok b")
    case True
    then obtain a b where ab: "r1 = Ok a" "r2 = Ok b" by blast
    then have "LogsUp scan s = logs_up_loop scan b a s2"
      using t1 t2 by (simp add: LogsUp_def total_def wrap_err_def up_GetLastRetainedRound_def up_GetLastIndexedRound_def)
    moreover have "unat b + 100 < 2 ^ 64"
      using up_tip_value [of Continues s1 b s2] t2 ab k(1) assms by (auto simp: rounds_far_def tip_round_def)
    ultimately show ?thesis using logs_up_loop_returns [of b scan a s2] k by auto
  next
    case False
    with t1 t2 k show ?thesis
      by (cases r1; cases r2) (simp_all add: LogsUp_def total_def wrap_err_def up_GetLastRetainedRound_def up_GetLastIndexedRound_def)
  qed
qed

lemma Migrations_fresh: "fresh_migrations (Migrations scan sql_file)"
  by (simp add: fresh_migrations_def Migrations_def)

lemma Migrations_sorted: "sorted (map mg_Name (Migrations scan sql_file))"
  by (simp add: Migrations_def)

text \<open>The SQL files change the schema and the receipts, not the table of the indexed rounds.\<close>

definition sql_keeps_rounds :: "(string \<Rightarrow> (tables session, unit) call) \<Rightarrow> bool" where
  "sql_keeps_rounds sql_file \<longleftrightarrow>
     (\<forall>f s d fs. sql_file f s = (Ok (), (d, fs)) \<longrightarrow> indexed_rounds d = indexed_rounds (fst s))"

lemma Migrations_return:
  assumes "sql_keeps_rounds sql_file"
  shows "ups_return rounds_far (Migrations scan sql_file)"
proof -
  have far: "rounds_far d'" if "rounds_far d" "indexed_rounds d' = indexed_rounds d" for d d'
    using that by (simp add: rounds_far_def tip_round_def)
  have sql: "\<exists>r d' fs'. total (sql_file f) (d, fs) = Some (r, (d', fs')) \<and> (r = Ok () \<longrightarrow> rounds_far d')" if "rounds_far d" for f d fs
  proof -
    obtain r d' fs' where "sql_file f (d, fs) = (r, (d', fs'))" by (metis prod.exhaust)
    with assms [unfolded sql_keeps_rounds_def, rule_format, of f "(d, fs)" d' fs'] far [OF that] show ?thesis by (auto simp: total_def)
  qed
  have go: "\<exists>r d' fs'. LogsUp scan (d, fs) = Some (r, (d', fs')) \<and> (r = Ok () \<longrightarrow> rounds_far d')" if "rounds_far d" for d fs
    using LogsUp_returns [of "(d, fs)" scan] far [OF that] that by fastforce
  show ?thesis using sql go by (auto simp: ups_return_def Migrations_def)
qed

definition marked :: "'d migdb \<Rightarrow> (string \<times> int) list" where
  "marked db = (case md_table db of None \<Rightarrow> [] | Some rows \<Rightarrow> rows)"

lemma marked_faults [simp]: "marked (db\<lparr>md_faults := fs\<rparr>) = marked db"
  by (simp add: marked_def)

lemma mg_Init_cases:
  assumes "md_table db = None \<or> marks_ok (md_nextID db) (marked db)"
  shows "(\<exists>e db1. mg_Init db = (Err e, db1) \<and> md_data db1 = md_data db \<and> marked db1 = marked db) \<or>
    (\<exists>db1. mg_Init db = (Ok (), db1) \<and> md_data db1 = md_data db \<and> md_table db1 = Some (marked db) \<and> marks_ok (md_nextID db1) (marked db))"
  using assms mg_exec_cases [of "\<lambda>db. Inr ((), case md_table db of None \<Rightarrow> db\<lparr>md_table := Some [], md_nextID := 1\<rparr> | Some _ \<Rightarrow> db)" db]
  by (cases "md_table db") (fastforce simp: mg_Init_def marks_ok_def marked_def [of db])+

text \<open>
  C35: migrations are applied in order, atomically and completely: whatever statements fail, \<open>RunMigrations\<close> returns, and
  afterwards exactly the first few of the migrations that were missing, in the order of their names, have
  taken effect on the data and are marked as applied; when it reports success these are all of them.
\<close>

theorem migrations_applied_in_order:
  assumes "sql_keeps_rounds sql_file"
    and "rounds_far (md_data db)" and "md_table db = None \<or> marks_ok (md_nextID db) (marked db)"
  shows "\<exists>r db' k. RunMigrations (Migrations scan sql_file) db = Some (r, db')
    \<and> map fst (marked db') = map fst (marked db) @ map mg_Name (take k (pending (marked db) (Migrations scan sql_file)))
    \<and> ran (take k (pending (marked db) (Migrations scan sql_file))) (md_data db) (md_data db')
    \<and> (r = Ok () \<longrightarrow> k = length (pending (marked db) (Migrations scan sql_file)))"
proof (cases "\<exists>e db1. mg_Init db = (Err e, db1)")
  case True
  then obtain e db1 where i: "mg_Init db = (Err e, db1)" "md_data db1 = md_data db" "marked db1 = marked db"
    using mg_Init_cases [OF assms(3)] by auto
  then have "RunMigrations (Migrations scan sql_file) db = Some (Err (Wrapf ''init migrations'' e), db1)"
    by (simp add: RunMigrations_def migrations_Migrate_def total_def wrap_err_def)
  with i show ?thesis by (intro exI [of _ "Err (Wrapf ''init migrations'' e)"] exI [of _ db1] exI [of _ 0]) (simp add: ran.intros)
next
  case False
  let ?ms = "Migrations scan sql_file"
  obtain db1 where i: "mg_Init db = (Ok (), db1)" "md_data db1 = md_data db" "md_table db1 = Some (marked db)"
      "marks_ok (md_nextID db1) (marked db)"
    using mg_Init_cases [OF assms(3)] False by auto
  have far: "rounds_far (md_data db1)" using i(2) assms(2) by simp
  obtain r db2 rows k where m: "migrate_loop ?ms db1 = Some (r, db2)" "md_table db2 = Some rows"
      "map fst rows = map fst (marked db) @ map mg_Name (take k (pending (marked db) ?ms))"
      "ran (take k (pending (marked db) ?ms)) (md_data db1) (md_data db2)" "r = Ok () \<longrightarrow> k = length (pending (marked db) ?ms)"
    using migrate_loop_applies [OF i(3,4) Migrations_fresh Migrations_return [OF assms(1)] far] by blast
  have M: "Migrate ?ms db1 = Some (r, db2)"
    using m(1) sort_key_id_if_sorted [OF Migrations_sorted [of scan sql_file]] by (simp add: Migrate_def Sorted_def sortAsc_def Migrations_def)
  obtain fs where s: "migrationsWithStatus ?ms db2 = (Ok (with_status rows (Sorted ?ms)), db2\<lparr>md_faults := fs\<rparr>)
      \<or> (\<exists>e. migrationsWithStatus ?ms db2 = (Err e, db2\<lparr>md_faults := fs\<rparr>))"
    using status_cases [OF m(2)] by blast
  have "\<exists>r' db3. RunMigrations ?ms db = Some (r', db3) \<and> md_data db3 = md_data db2 \<and> md_table db3 = md_table db2 \<and> (r' = Ok () \<longrightarrow> r = Ok ())"
    using i(1) M s by (cases r) (auto simp: RunMigrations_def migrations_Migrate_def total_def wrap_err_def ret_def)
  then obtain r' db3 where "RunMigrations ?ms db = Some (r', db3)" "md_data db3 = md_data db2" "md_table db3 = md_table db2"
      "r' = Ok () \<longrightarrow> r = Ok ()" by blast
  with m i(2) show ?thesis by (intro exI [of _ r'] exI [of _ db3] exI [of _ k]) (simp add: marked_def)
qed

definition example_migdb :: "tables migdb" where
  "example_migdb = \<lparr>md_data = example_unnumbered, md_table = None, md_nextID = 0, md_faults = []\<rparr>"

theorem migrations_applied_in_order_witness:
  "\<exists>r db' k. RunMigrations (Migrations rev (\<lambda>_ s. (Ok (), s))) example_migdb = Some (r, db')
     \<and> map fst (marked db') = map mg_Name (take k (Migrations rev (\<lambda>_ s. (Ok (), s)))) \<and> (r = Ok () \<longrightarrow> k = 4)"
proof -
  let ?sql = "\<lambda>(_ :: string) (s :: tables session). (Ok () :: unit outcome, s)"
  have sql: "sql_keeps_rounds ?sql" by (simp add: sql_keeps_rounds_def)
  have far: "rounds_far (md_data example_migdb)"
    by (simp add: rounds_far_def tip_round_def example_migdb_def example_unnumbered_def tbl_lookup_Cons)
  have t: "md_table example_migdb = None \<or> marks_ok (md_nextID example_migdb) (marked example_migdb)" by (simp add: example_migdb_def)
  have m: "marked example_migdb = []" by (simp add: marked_def example_migdb_def)
  have p: "pending [] (Migrations rev ?sql) = Migrations rev ?sql"
    using sort_key_id_if_sorted [OF Migrations_sorted] by (simp add: pending_def)
  have "length (Migrations rev ?sql) = 4" by (simp add: Migrations_def)
  with migrations_applied_in_order [OF sql far t, of rev] show ?thesis unfolding m p by auto
qed

end
