(* ===== verification/Drop_Tables.thy ===== *)
theory Drop_Tables
  imports Gateway_Prelude
begin

text \<open>
  \<open>DropTables\<close> of \<^verbatim>\<open>db/migrations/migrations.go\<close>, the work of the command \<^verbatim>\<open>truncate-db\<close>. Of the server only the
  catalogue matters: the tables with their schemas, as \<^verbatim>\<open>pg_tables\<close> lists them. Any statement may fail.
\<close>

subsection \<open>The catalogue\<close>

record catalogue =
  ct_tables :: "(string \<times> string) list"
  ct_faults :: "gerror option list"

text \<open>A statement takes the next fault; without one it succeeds.\<close>

definition ct_statement :: "(catalogue \<Rightarrow> 'a \<times> catalogue) \<Rightarrow> (catalogue, 'a) call" where
  "ct_statement f c = (case ct_faults c of
       [] \<Rightarrow> (case f c of (y, c') \<Rightarrow> (Ok y, c'))
     | None # fs \<Rightarrow> (case f (c\<lparr>ct_faults := fs\<rparr>) of (y, c') \<Rightarrow> (Ok y, c'))
     | Some e # fs \<Rightarrow> (Err e, c\<lparr>ct_faults := fs\<rparr>))"

definition list_tables :: "(catalogue, (string \<times> string) list) call" where
  "list_tables = ct_statement (\<lambda>c. (ct_tables c, c))"

text \<open>The name in the statement has no schema, so it is looked up in the schema \<open>public\<close>.\<close>

definition drop_table :: "string \<Rightarrow> (catalogue, unit) call" where
  "drop_table tableName = ct_statement (\<lambda>c. ((), c\<lparr>ct_tables := filter (\<lambda>t. t \<noteq> (''public'', tableName)) (ct_tables c)\<rparr>))"

text \<open>The loop: a table of another schema is skipped, a failed drop is logged.\<close>

fun drop_loop :: "(string \<times> string) list \<Rightarrow> catalogue \<Rightarrow> catalogue" where
  "drop_loop [] c = c"
| "drop_loop ((schemaName, tableName) # results) c =
     (if schemaName \<noteq> ''public'' then drop_loop results c
      else drop_loop results (snd (drop_table tableName c)))"

definition DropTables :: "(catalogue, unit) call" where
  "DropTables = and_then list_tables (\<lambda>results c. (Ok (), drop_loop results c))"

subsection \<open>What is dropped\<close>

lemma drop_table_cases:
  "ct_tables (snd (drop_table t c)) = ct_tables c
   \<or> ct_tables (snd (drop_table t c)) = filter (\<lambda>s. s \<noteq> (''public'', t)) (ct_tables c)"
  by (auto simp: drop_table_def ct_statement_def split: list.splits option.splits)

lemma drop_loop_others:
  "schema \<noteq> ''public'' \<Longrightarrow> (schema, t) \<in> set (ct_tables (drop_loop results c)) \<longleftrightarrow> (schema, t) \<in> set (ct_tables c)"
proof (induction results c rule: drop_loop.induct)
  case (2 schemaName tableName results c)
  then show ?case using drop_table_cases [of tableName c] by auto
qed simp

lemma drop_loop_quiet:
  "ct_faults c = [] \<Longrightarrow> ct_tables (drop_loop results c) = filter (\<lambda>t. fst t \<noteq> ''public'' \<or> t \<notin> set results) (ct_tables c)"
proof (induction results c rule: drop_loop.induct)
  case (2 schemaName tableName results c)
  show ?case
  proof (cases "schemaName = ''public''")
    case True
    let ?c = "snd (drop_table tableName c)"
    have d: "ct_faults ?c = []" "ct_tables ?c = filter (\<lambda>t. t \<noteq> (''public'', tableName)) (ct_tables c)"
      using 2(3) by (simp_all add: drop_table_def ct_statement_def)
    from 2(2) [OF _ d(1)] True d(2) show ?thesis
      by (auto simp: filter_filter intro!: filter_cong)
  next
    case False
    with 2(1) 2(3) show ?thesis by (auto intro!: filter_cong)
  qed
qed simp

text \<open>
  On a server that does not fail, every table of the schema \<open>public\<close> is dropped and no other; whatever fails, the tables of
  the other schemas stay.
\<close>

lemma drop_tables_exact:
  "ct_faults c = [] \<Longrightarrow> DropTables c = (r, c') \<Longrightarrow>
     r = Ok () \<and> ct_tables c' = filter (\<lambda>t. fst t \<noteq> ''public'') (ct_tables c)"
  by (auto simp: DropTables_def list_tables_def ct_statement_def drop_loop_quiet intro!: filter_cong)

lemma drop_tables_keeps_others:
  "DropTables c = (r, c') \<Longrightarrow> schema \<noteq> ''public'' \<Longrightarrow>
     (schema, t) \<in> set (ct_tables c') \<longleftrightarrow> (schema, t) \<in> set (ct_tables c)"
  by (auto simp: DropTables_def list_tables_def ct_statement_def drop_loop_others split: list.splits option.splits)

text \<open>A failed drop is not reported: the call succeeds and the table is still there.\<close>

lemma failed_drop_unnoticed:
  "DropTables \<lparr>ct_tables = [(''public'', t)], ct_faults = [None, Some e]\<rparr>
     = (Ok (), \<lparr>ct_tables = [(''public'', t)], ct_faults = []\<rparr>)"
  by (simp add: DropTables_def list_tables_def drop_table_def ct_statement_def)

end
