(* ===== verification/Log_Fixer.thy ===== *)
theory Log_Fixer
  imports Psql
begin

text \<open>
  \<^verbatim>\<open>worker/log_tx_index_fixer.go\<close>: the worker that repairs the transaction index of stored logs, in batches of rounds
  from the highest mismatched round down to round zero. Its two SQL statements run on the pool. A batch that fails is
  tried again after a pause, so the loop is a partial function; the context and the row count of the driver are
  parameters, by the number of the iteration.
\<close>

subsection \<open>The statements\<close>

text \<open>\<open>JOIN transactions t ON l.tx_hash = t.hash WHERE l.tx_index != t.index\<close>; the hash is the key of the table.\<close>

definition right_index :: "tables \<Rightarrow> Log \<Rightarrow> u64" where
  "right_index t l = (case tbl_lookup tx_Hash (transactions t) (log_TxHash l) of
     None \<Rightarrow> log_TxIndex l | Some tx \<Rightarrow> ucast (tx_Index tx))"

definition mismatched :: "tables \<Rightarrow> Log \<Rightarrow> bool" where
  "mismatched t l \<longleftrightarrow> log_TxIndex l \<noteq> right_index t l"

definition findHighestMismatchedRound :: "(pgdb, u64) call" where
  "findHighestMismatchedRound db =
     (case query Pool (\<lambda>t. rev (sort (map log_Round (filter (mismatched t) (logs t))))) db of
        (Err e, db') \<Rightarrow> (Err (Wrapf ''finding highest mismatched round'' e), db')
      | (Panic p, db') \<Rightarrow> (Panic p, db')
      | (Ok rounds, db') \<Rightarrow> (Ok (case rounds of [] \<Rightarrow> 0 | n # _ \<Rightarrow> n), db'))"

definition fix_log :: "u64 \<Rightarrow> u64 \<Rightarrow> tables \<Rightarrow> Log \<Rightarrow> Log" where
  "fix_log startRound endRound t l =
     (if startRound \<le> log_Round l \<and> log_Round l \<le> endRound \<and> mismatched t l then l\<lparr>log_TxIndex := right_index t l\<rparr> else l)"

definition fix_rows :: "u64 \<Rightarrow> u64 \<Rightarrow> tables \<Rightarrow> tables" where
  "fix_rows startRound endRound t = t\<lparr>logs := map (fix_log startRound endRound t) (logs t)\<rparr>"

definition fixRoundRange :: "gerror option \<Rightarrow> u64 \<Rightarrow> u64 \<Rightarrow> (pgdb, nat) call" where
  "fixRoundRange rowsErr startRound endRound db =
     (case next_fault db of
        (Some e, db') \<Rightarrow> (Err e, db')
      | (None, db') \<Rightarrow>
         (let t = committed db';
              affected = length (filter (\<lambda>l. startRound \<le> log_Round l \<and> log_Round l \<le> endRound \<and> mismatched t l) (logs t))
          in (case rowsErr of Some e \<Rightarrow> Err e | None \<Rightarrow> Ok affected, db'\<lparr>committed := fix_rows startRound endRound t\<rparr>)))"

subsection \<open>The worker\<close>

definition batchSize :: u64 where
  "batchSize = 10000"

definition batch_start :: "u64 \<Rightarrow> u64" where
  "batch_start currentEndRound = (if batchSize \<le> currentEndRound then currentEndRound - batchSize + 1 else 0)"

partial_function (option) fixer_loop :: "(nat \<Rightarrow> bool) \<Rightarrow> (nat \<Rightarrow> gerror option) \<Rightarrow> nat \<Rightarrow> u64 \<Rightarrow> pgdb \<Rightarrow> (unit outcome \<times> pgdb) option" where
  "fixer_loop stopped rowsErr k currentEndRound db =
     (if stopped k then Some (Err ErrCanceled, db)
      else case fixRoundRange (rowsErr k) (batch_start currentEndRound) currentEndRound db of
        (Err e, db') \<Rightarrow> fixer_loop stopped rowsErr (Suc k) currentEndRound db'
      | (Panic p, db') \<Rightarrow> Some (Panic p, db')
      | (Ok _, db') \<Rightarrow>
          if batch_start currentEndRound = 0 then Some (Ok (), db')
          else fixer_loop stopped rowsErr (Suc k) (batch_start currentEndRound - 1) db')"

definition fixer_Start :: "(nat \<Rightarrow> bool) \<Rightarrow> (nat \<Rightarrow> gerror option) \<Rightarrow> pgdb \<Rightarrow> (unit outcome \<times> pgdb) option" where
  "fixer_Start stopped rowsErr db =
     (case findHighestMismatchedRound db of
        (Err e, db') \<Rightarrow> Some (Err (Wrapf ''failed to find highest mismatched round'' e), db')
      | (Panic p, db') \<Rightarrow> Some (Panic p, db')
      | (Ok n, db') \<Rightarrow> if n = 0 then Some (Ok (), db') else fixer_loop stopped rowsErr 0 n db')"

subsection \<open>Batches compose\<close>

lemma fix_rows_transactions [simp]: "transactions (fix_rows a b t) = transactions t"
  by (simp add: fix_rows_def)

lemma right_index_upd [simp]: "right_index t (l\<lparr>log_TxIndex := i\<rparr>) = (if tbl_lookup tx_Hash (transactions t) (log_TxHash l) = None
    then i else right_index t l)"
  by (simp add: right_index_def split: option.split)

lemma right_index_cong: "transactions t' = transactions t \<Longrightarrow> right_index t' l = right_index t l"
  by (simp add: right_index_def)

lemma mismatched_has_tx: "mismatched t l \<Longrightarrow> tbl_lookup tx_Hash (transactions t) (log_TxHash l) \<noteq> None"
  by (auto simp: mismatched_def right_index_def split: option.splits)

lemma fix_log_fixed: "a \<le> log_Round l \<Longrightarrow> log_Round l \<le> b \<Longrightarrow> \<not> mismatched t (fix_log a b t l)"
  using mismatched_has_tx [of t l] by (auto simp: fix_log_def mismatched_def)

lemma fix_log_round [simp]: "log_Round (fix_log a b t l) = log_Round l"
  by (simp add: fix_log_def)

lemma fix_log_compose:
  assumes "transactions t' = transactions t" and "c \<le> a" and "\<And>n. n < a \<longleftrightarrow> n \<le> b'" and "a \<le> b"
  shows "fix_log c b' t' (fix_log a b t l) = fix_log c b t l"
proof -
  have m: "mismatched t' l' = mismatched t l'" "right_index t' l' = right_index t l'" for l'
    by (simp_all add: mismatched_def right_index_cong [OF assms(1)])
  consider (inside) "a \<le> log_Round l" "log_Round l \<le> b" | (below) "log_Round l < a" | (above) "b < log_Round l"
    by fastforce
  then show ?thesis
  proof cases
    case inside
    then have "\<not> mismatched t (fix_log a b t l)" by (rule fix_log_fixed)
    then have "fix_log c b' t' (fix_log a b t l) = fix_log a b t l" by (simp add: fix_log_def [of c b' t'] m)
    moreover have "c \<le> log_Round l" using inside assms(2) by simp
    ultimately show ?thesis using inside by (simp add: fix_log_def)
  next
    case below
    then have "fix_log a b t l = l" by (auto simp: fix_log_def)
    moreover have "log_Round l \<le> b'" using below assms(3) by blast
    moreover have "log_Round l \<le> b" using below assms(4) by (meson less_le_trans less_imp_le)
    ultimately show ?thesis by (simp add: fix_log_def m)
  next
    case above
    then have "\<not> log_Round l < a" using assms(4) by simp
    then have "\<not> log_Round l \<le> b'" using assms(3) by blast
    moreover have "\<not> log_Round l \<le> b" using above by simp
    ultimately show ?thesis by (simp add: fix_log_def)
  qed
qed

lemma fix_rows_compose:
  assumes "c \<le> a" and "\<And>n. n < a \<longleftrightarrow> n \<le> b'" and "a \<le> b"
  shows "fix_rows c b' (fix_rows a b t) = fix_rows c b t"
proof -
  have "fix_log c b' (fix_rows a b t) (fix_log a b t l) = fix_log c b t l" for l
    by (rule fix_log_compose) (use assms in simp_all)
  then show ?thesis by (simp add: fix_rows_def)
qed

lemma batch_start_le: "batch_start e \<le> e"
  by (simp add: batch_start_def batchSize_def) uint_arith

lemma pred_less_iff: "(a :: u64) \<noteq> 0 \<Longrightarrow> n < a \<longleftrightarrow> n \<le> a - 1"
  by uint_arith

subsection \<open>Termination and correctness\<close>

text \<open>Every iteration uses up a failure of the database or lowers the end of the batch.\<close>

lemma fixer_loop_fixes:
  assumes "\<And>k. \<not> stopped k" and "\<And>k. rowsErr k = None"
  shows "\<exists>db'. fixer_loop stopped rowsErr k e db = Some (Ok (), db') \<and> committed db' = fix_rows 0 e (committed db)"
proof (induction "length (faults db) + unat e" arbitrary: k e db rule: less_induct)
  case less
  let ?s = "batch_start e"
  obtain f db1 where nf: "next_fault db = (f, db1)" by (cases "next_fault db")
  have c1: "committed db1 = committed db" and len: "length (faults db1) \<le> length (faults db)"
    "f \<noteq> None \<Longrightarrow> length (faults db1) < length (faults db)"
    using nf by (auto simp: next_fault_def split: list.splits)
  show ?case
  proof (cases f)
    case (Some err)
    with nf have "fixer_loop stopped rowsErr k e db = fixer_loop stopped rowsErr (Suc k) e db1"
      by (subst fixer_loop.simps) (simp add: assms fixRoundRange_def)
    moreover have "length (faults db1) + unat e < length (faults db) + unat e" using len(2) Some by simp
    ultimately show ?thesis using less.hyps [of db1 e "Suc k"] c1 by simp
  next
    case None
    define db2 where "db2 = db1\<lparr>committed := fix_rows ?s e (committed db)\<rparr>"
    have fr: "\<exists>n. fixRoundRange (rowsErr k) ?s e db = (Ok n, db2)"
      using nf None c1 by (simp add: fixRoundRange_def assms Let_def db2_def)
    show ?thesis
    proof (cases "?s = 0")
      case True
      with fr have "fixer_loop stopped rowsErr k e db = Some (Ok (), db2)"
        by (subst fixer_loop.simps) (auto simp: assms)
      with True show ?thesis by (simp add: db2_def)
    next
      case False
      with fr have "fixer_loop stopped rowsErr k e db = fixer_loop stopped rowsErr (Suc k) (?s - 1) db2"
        by (subst fixer_loop.simps) (auto simp: assms)
      moreover have "unat (?s - 1) < unat e"
        using batch_start_le [of e] pred_less_iff [OF False, of "?s - 1"] by (simp add: word_le_nat_alt word_less_nat_alt)
      then have "length (faults db2) + unat (?s - 1) < length (faults db) + unat e"
        using len(1) by (simp add: db2_def)
      ultimately obtain db' where "fixer_loop stopped rowsErr k e db = Some (Ok (), db')"
          "committed db' = fix_rows 0 (?s - 1) (committed db2)"
        using less.hyps [of db2 "?s - 1" "Suc k"] by auto
      moreover have "fix_rows 0 (?s - 1) (fix_rows ?s e (committed db)) = fix_rows 0 e (committed db)"
        by (rule fix_rows_compose) (use pred_less_iff [OF False] batch_start_le in simp_all)
      ultimately show ?thesis by (simp add: db2_def)
    qed
  qed
qed

lemma highest_bounds:
  assumes "findHighestMismatchedRound db = (Ok n, db')"
  shows "committed db' = committed db \<and> (\<forall>l \<in> set (logs (committed db)). mismatched (committed db) l \<longrightarrow> log_Round l \<le> n)"
proof -
  obtain rounds where q: "query Pool (\<lambda>t. rev (sort (map log_Round (filter (mismatched t) (logs t))))) db = (Ok rounds, db')"
    and n: "n = (case rounds of [] \<Rightarrow> 0 | m # _ \<Rightarrow> m)"
    using assms by (auto simp: findHighestMismatchedRound_def split: prod.splits outcome.splits)
  let ?rs = "sort (map log_Round (filter (mismatched (committed db)) (logs (committed db))))"
  have r: "rounds = rev ?rs" and c: "committed db' = committed db"
    using q by (auto simp: query_def statement_def visible_def abort_tx_def dest: next_fault_frame split: prod.splits option.splits)
  have "m \<le> n" if "m \<in> set ?rs" for m
  proof (cases rounds)
    case (Cons a as)
    then have "?rs = rev as @ [a]" using r by (metis rev.simps(2) rev_rev_ident)
    moreover have "sorted ?rs" by simp
    ultimately show ?thesis using that n Cons by (auto simp: sorted_append)
  qed (use r that in simp)
  with c show ?thesis by auto
qed


definition example_mismatch :: pgdb where
  "example_mismatch = example_db\<lparr>committed := empty_tables\<lparr>transactions := [example_tx\<lparr>tx_Index := 1\<rparr>],
     logs := [(example_log 7 0)\<lparr>log_TxIndex := 2\<rparr>]\<rparr>, faults := [None, Some (ErrExt ''timeout'')]\<rparr>"


text \<open>
  mismatches at round zero are never repaired when there are no others: round zero is also the answer
  for "no mismatch", so the worker stops at once.
\<close>

lemma round_zero_mismatch_ignored:
  assumes "findHighestMismatchedRound db = (Ok 0, db1)"
  shows "fixer_Start stopped rowsErr db = Some (Ok (), db1) \<and> committed db1 = committed db"
  using assms highest_bounds [OF assms] by (simp add: fixer_Start_def)

lemma round_zero_mismatch_ignored_example:
  "\<exists>db'. fixer_Start (\<lambda>_. False) (\<lambda>_. None) (example_db\<lparr>committed := empty_tables\<lparr>transactions := [example_tx\<lparr>tx_Index := 1\<rparr>],
       logs := [(example_log 0 0)\<lparr>log_TxIndex := 2\<rparr>]\<rparr>\<rparr>) = Some (Ok (), db')
     \<and> map log_TxIndex (logs (committed db')) = [2]"
proof -
  let ?db = "example_db\<lparr>committed := empty_tables\<lparr>transactions := [example_tx\<lparr>tx_Index := 1\<rparr>],
       logs := [(example_log 0 0)\<lparr>log_TxIndex := 2\<rparr>]\<rparr>\<rparr>"
  have "\<exists>db1. findHighestMismatchedRound ?db = (Ok 0, db1)"
    by (simp add: findHighestMismatchedRound_def query_def statement_def next_fault_def visible_def example_db_def
        mismatched_def right_index_def example_log_def example_tx_def tbl_lookup_Cons)
  then obtain db1 where "findHighestMismatchedRound ?db = (Ok 0, db1)" by blast
  from round_zero_mismatch_ignored [OF this, of "\<lambda>_. False" "\<lambda>_. None"] show ?thesis by simp
qed

end
