(* ===== verification/Indexer_Service.thy ===== *)
theory Indexer_Service
  imports Cache_Backend
begin

text \<open>
  \<^verbatim>\<open>indexer/indexer.go\<close>: the indexer service on top of the caching backend. Its workers repeat an
  iteration after a delay; the iterations are the definitions here, the service record is their
  state. The node is a parameter (\<^verbatim>\<open>source/source.go\<close> is an interface to it): its answers may
  change from call to call, so every answer depends on the number of the call (\<open>svc_calls\<close>), and
  so does whether the context is done.
\<close>

subsection \<open>The node and the service\<close>

record NodeSource =
  ns_GetBlock :: "nat \<Rightarrow> u64 \<Rightarrow> gerror + OasisBlock"
  ns_GetLastRetainedBlock :: "nat \<Rightarrow> gerror + OasisBlock"
  ns_CoreParameters :: "nat \<Rightarrow> u64 \<Rightarrow> gerror + CoreParameters"
  ns_CoreRuntimeInfo :: "nat \<Rightarrow> gerror + RuntimeInfo"
  ns_GetTransactionsWithResults :: "nat \<Rightarrow> u64 \<Rightarrow> gerror + TxWithResults list"
  ns_Done :: "nat \<Rightarrow> bool"

record Service =
  enablePruning :: bool
  pruningStep :: u64
  indexingStart :: u64
  indexingEnd :: u64
  indexingDisable :: bool
  svc_backend :: caching
  svc_calls :: nat
  queryEpochParameters :: bool
  coreParameters :: "CoreParameters option"
  svc_rtInfo :: "RuntimeInfo option"
  health :: u32

record IndexerConfig =
  ic_EnablePruning :: bool
  ic_PruningStep :: u64
  ic_IndexingStart :: u64
  ic_IndexingEnd :: u64
  ic_IndexingDisable :: bool

definition New :: "caching \<Rightarrow> IndexerConfig \<Rightarrow> Service" where
  "New backend cfg = \<lparr>enablePruning = ic_EnablePruning cfg, pruningStep = ic_PruningStep cfg,
     indexingStart = ic_IndexingStart cfg, indexingEnd = ic_IndexingEnd cfg, indexingDisable = ic_IndexingDisable cfg,
     svc_backend = backend, svc_calls = 0, queryEpochParameters = False, coreParameters = None, svc_rtInfo = None,
     health = 0\<rparr>"

definition healthCheckIndexerDriftThreshold :: u64 where
  "healthCheckIndexerDriftThreshold = 10"

definition Health :: "Service \<Rightarrow> unit outcome" where
  "Health s = (if health s = 0 then Err ErrNotHealthy else Ok ())"

definition updateHealth :: "bool \<Rightarrow> Service \<Rightarrow> Service" where
  "updateHealth healthy s = s\<lparr>health := (if healthy then 1 else 0)\<rparr>"

text \<open>A call to the node, and a call to the backend.\<close>

definition ask :: "(nat \<Rightarrow> gerror + 'a) \<Rightarrow> (Service, 'a) call" where
  "ask f s = (case f (svc_calls s) of Inl e \<Rightarrow> Err e | Inr y \<Rightarrow> Ok y, s\<lparr>svc_calls := Suc (svc_calls s)\<rparr>)"

definition on_backend :: "(caching, 'a) call \<Rightarrow> (Service, 'a) call" where
  "on_backend f s = (case f (svc_backend s) of (r, b) \<Rightarrow> (r, s\<lparr>svc_backend := b\<rparr>))"

definition wrap_err :: "string \<Rightarrow> (Service, 'a) call \<Rightarrow> (Service, 'a) call" where
  "wrap_err msg f s = (case f s of (Err e, s') \<Rightarrow> (Err (Wrapf msg e), s') | (r, s') \<Rightarrow> (r, s'))"

subsection \<open>Indexing\<close>

text \<open>
  The parameters are queried when they are missing or the last block ended an epoch; a failed
  runtime info query stores the nil it returned.
\<close>

definition query_parameters :: "NodeSource \<Rightarrow> u64 \<Rightarrow> (Service, unit) call" where
  "query_parameters node n s =
     (if coreParameters s = None \<or> svc_rtInfo s = None \<or> queryEpochParameters s
      then and_then (wrap_err ''querying block parameters'' (ask (\<lambda>t. ns_CoreParameters node t n)))
        (\<lambda>params s1.
          (case wrap_err ''querying runtime info'' (ask (ns_CoreRuntimeInfo node)) (s1\<lparr>coreParameters := Some params\<rparr>) of
             (Ok ri, s2) \<Rightarrow> (Ok (), s2\<lparr>svc_rtInfo := Some ri\<rparr>)
           | (Err e, s2) \<Rightarrow> (Err e, s2\<lparr>svc_rtInfo := None\<rparr>)
           | (Panic p, s2) \<Rightarrow> (Panic p, s2))) s
      else (Ok (), s))"

definition note_epoch :: "OasisBlock \<Rightarrow> Service \<Rightarrow> Service" where
  "note_epoch blk s =
     (if ob_HeaderType blk = EpochTransition then s\<lparr>queryEpochParameters := True\<rparr>
      else if queryEpochParameters s \<and> ob_HeaderType blk = Normal then s\<lparr>queryEpochParameters := False\<rparr>
      else s)"

definition indexBlock :: "ext \<Rightarrow> NodeSource \<Rightarrow> u64 \<Rightarrow> (Service, unit) call" where
  "indexBlock x node n =
     and_then (wrap_err ''querying block'' (ask (\<lambda>t. ns_GetBlock node t n))) (\<lambda>blk.
     and_then (query_parameters node n) (\<lambda>_.
     and_then (wrap_err ''querying transactions with results''
         (ask (\<lambda>t. ns_GetTransactionsWithResults node t (ob_Round blk)))) (\<lambda>txs.
     and_then (\<lambda>s. wrap_err ''indexing block''
         (on_backend (cb_Index x blk txs (coreParameters s) (svc_rtInfo s))) s) (\<lambda>_ s.
       (Ok (), note_epoch blk s)))))"

text \<open>
  The loop \<open>for round := startAt; round <= latest; round++\<close>: it stops when the context is done or
  a block cannot be indexed, and a panic ends the process.
\<close>

partial_function (option) index_rounds :: "ext \<Rightarrow> NodeSource \<Rightarrow> u64 \<Rightarrow> u64 \<Rightarrow> Service \<Rightarrow> (unit outcome \<times> Service) option" where
  "index_rounds x node n latest s =
     (if n \<le> latest
      then if ns_Done node (svc_calls s) then Some (Ok (), s)
        else (case indexBlock x node n s of
                (Ok _, s') \<Rightarrow> index_rounds x node (n + 1) latest s'
              | (Err e, s') \<Rightarrow> Some (Ok (), s')
              | (Panic p, s') \<Rightarrow> Some (Panic p, s'))
      else Some (Ok (), s))"

text \<open>Where an iteration starts: after the last indexed round, not before the configured or retained one.\<close>

definition start_at :: "NodeSource \<Rightarrow> (Service, u64) call" where
  "start_at node s =
     (case on_backend cb_QueryLastIndexedRound s of
        (Panic p, s1) \<Rightarrow> (Panic p, s1)
      | (r, s1) \<Rightarrow>
         (case (case r of
             Ok lastIndexed \<Rightarrow> Inr (lastIndexed + 1)
           | Err e \<Rightarrow> if errors_Is e ErrNoRoundsIndexed then Inr 0 else Inl e
           | Panic p \<Rightarrow> Inl ErrInternalError) of
            Inl e \<Rightarrow> (Err e, s1)
          | Inr startAt \<Rightarrow>
             (if indexingStart s1 = 0
              then and_then (ask (ns_GetLastRetainedBlock node))
                (\<lambda>blk. ret (if startAt < ob_Round blk then ob_Round blk else startAt)) s1
              else (Ok (if startAt < indexingStart s1 then indexingStart s1 else startAt), s1))))"

text \<open>One iteration; the value says whether the configured end was reached.\<close>

definition indexing_iteration :: "ext \<Rightarrow> NodeSource \<Rightarrow> Service \<Rightarrow> (bool outcome \<times> Service) option" where
  "indexing_iteration x node s =
     (case start_at node s of
        (Panic p, s1) \<Rightarrow> Some (Panic p, s1)
      | (Err e, s1) \<Rightarrow> Some (Ok False, s1)
      | (Ok startAt, s1) \<Rightarrow>
         (let loop = (\<lambda>latest s2. case index_rounds x node startAt latest s2 of
                None \<Rightarrow> None
              | Some (Panic p, s3) \<Rightarrow> Some (Panic p, s3)
              | Some (_, s3) \<Rightarrow> Some (Ok False, s3))
          in if indexingEnd s1 = 0
             then (case ask (\<lambda>t. ns_GetBlock node t (RoundLatest x)) s1 of
                     (Ok blk, s2) \<Rightarrow> loop (ob_Round blk) s2
                   | (_, s2) \<Rightarrow> Some (Ok False, s2))
             else if indexingEnd s1 < startAt then Some (Ok True, s1)
             else loop (indexingEnd s1) s1))"

text \<open>The worker: iterations until the context is done or the end is reached, at most \<open>fuel\<close> of them.\<close>

fun indexingWorker :: "nat \<Rightarrow> ext \<Rightarrow> NodeSource \<Rightarrow> Service \<Rightarrow> (unit outcome \<times> Service) option" where
  "indexingWorker 0 x node s = None"
| "indexingWorker (Suc fuel) x node s =
     (if ns_Done node (svc_calls s) then Some (Err ErrCanceled, s)
      else case indexing_iteration x node s of
        None \<Rightarrow> None
      | Some (Panic p, s') \<Rightarrow> Some (Panic p, s')
      | Some (Err e, s') \<Rightarrow> Some (Err e, s')
      | Some (Ok finished, s') \<Rightarrow>
          if finished then Some (Ok (), updateHealth True s') else indexingWorker fuel x node s')"

subsection \<open>Health and pruning\<close>

definition health_iteration :: "ext \<Rightarrow> NodeSource \<Rightarrow> Service \<Rightarrow> Service" where
  "health_iteration x node s =
     (case on_backend cb_QueryLastIndexedRound s of
        (Ok lastIndexed, s1) \<Rightarrow>
          (case ask (\<lambda>t. ns_GetBlock node t (RoundLatest x)) s1 of
             (Ok latestBlk, s2) \<Rightarrow>
               (let latestRound = ob_Round latestBlk in
                if lastIndexed \<le> latestRound
                then updateHealth (latestRound - lastIndexed \<le> healthCheckIndexerDriftThreshold) s2
                else updateHealth False s2)
           | (_, s2) \<Rightarrow> updateHealth False s2)
      | (_, s1) \<Rightarrow> updateHealth False s1)"

definition pruning_iteration :: "ext \<Rightarrow> Service \<Rightarrow> Service" where
  "pruning_iteration x s =
     (case on_backend cb_QueryLastIndexedRound s of
        (Ok lastIndexed, s1) \<Rightarrow>
          if pruningStep s1 < lastIndexed
          then snd (on_backend (cb_Prune x (lastIndexed - pruningStep s1)) s1)
          else s1
      | (_, s1) \<Rightarrow> s1)"

text \<open>\<open>Start\<close> with indexing disabled: it only checks that something was indexed.\<close>

definition Start_disabled :: "(Service, unit) call" where
  "Start_disabled s = (case on_backend cb_QueryLastIndexedRound s of
       (Ok _, s1) \<Rightarrow> (Ok (), updateHealth True s1)
     | (Err e, s1) \<Rightarrow> (Err e, s1)
     | (Panic p, s1) \<Rightarrow> (Panic p, s1))"

subsection \<open>What one block does to the announcements\<close>

abbreviation svc_tables :: "Service \<Rightarrow> tables" where
  "svc_tables s \<equiv> committed (ib_storage (snd (svc_backend s)))"

abbreviation announced :: "Service \<Rightarrow> BlockData list" where
  "announced s \<equiv> ib_blockNotifier (snd (svc_backend s))"

lemma block_models_round:
  "block_models x oblk items params = Ok ((blk, txs, rcs, ls), median) \<Longrightarrow> blk_Round blk = ob_Round oblk"
  by (auto simp: block_models_def blockToModels_def Let_def split: outcome.splits prod.splits)

lemma publish_notifier:
  "publish on_block ev bd ib = (r, ib') \<Longrightarrow>
     (r = Ok () \<and> ib_blockNotifier ib' = ib_blockNotifier ib @ [bd])
     \<or> (\<exists>p. r = Panic p) \<and> ib_blockNotifier ib' = ib_blockNotifier ib"
  by (auto simp: publish_def Let_def split: option.splits prod.splits outcome.splits)

lemma StoreBlockData_notifier:
  assumes "StoreBlockData x on_block oblk items params ib = (r, ib')"
  shows "(r = Ok () \<and> (\<exists>bd. ib_blockNotifier ib' = ib_blockNotifier ib @ [bd] \<and> blk_Round (bd_Block bd) = ob_Round oblk))
    \<or> (r \<noteq> Ok () \<and> ib_blockNotifier ib' = ib_blockNotifier ib)"
proof (cases "block_models x oblk items params")
  case (Ok mm)
  obtain blk txs rcs ls median where mm: "mm = ((blk, txs, rcs, ls), median)" by (metis prod.exhaust)
  obtain rt db' where rt: "RunInTransaction Pool (store_models x blk txs rcs ls) (ib_storage ib) = (rt, db')"
    by (cases "RunInTransaction Pool (store_models x blk txs rcs ls) (ib_storage ib)")
  show ?thesis
  proof (cases rt)
    case u: (Ok u)
    obtain utxs urcs where "u = (utxs, urcs)" by (cases u)
    with assms Ok mm rt u have "publish on_block
        \<lparr>ce_Block = blk, ce_Hash = HexToHash x (OasisHash_Hex x (ob_EncodedHash oblk)), ce_Logs = ls\<rparr>
        \<lparr>bd_Block = blk, bd_Receipts = urcs, bd_UniqueTxes = utxs, bd_Median = median\<rparr> (ib\<lparr>ib_storage := db'\<rparr>) = (r, ib')"
      by (simp add: StoreBlockData_def)
    from publish_notifier [OF this] block_models_round Ok mm show ?thesis by auto
  qed (use assms Ok mm rt in \<open>auto simp: StoreBlockData_def\<close>)
qed (use assms in \<open>auto simp: StoreBlockData_def\<close>)

lemma cb_Index_notifier:
  assumes "cb_Index x oblk items params rtInfo b = (r, b')"
  shows "(r = Ok () \<and> (\<exists>bd. ib_blockNotifier (snd b') = ib_blockNotifier (snd b) @ [bd] \<and> blk_Round (bd_Block bd) = ob_Round oblk))
    \<or> (r \<noteq> Ok () \<and> ib_blockNotifier (snd b') = ib_blockNotifier (snd b))"
proof -
  obtain c ib where b: "b = (c, ib)" by (cases b)
  obtain r1 ib1 where st: "StoreBlockData x OnBlockIndexed oblk items params (SetObserver c ib) = (r1, ib1)"
    by (cases "StoreBlockData x OnBlockIndexed oblk items params (SetObserver c ib)")
  have "ib_blockNotifier (snd b') = ib_blockNotifier ib1" "r = r1"
    using assms b st by (cases r1; auto simp: cb_Index_def Index_def split: option.splits)+
  with StoreBlockData_notifier [OF st] b show ?thesis by (simp add: SetObserver_def)
qed

lemma ask_frame [simp]: "svc_backend (snd (ask f s)) = svc_backend s"
  by (simp add: ask_def)

lemma wrap_err_frame [simp]: "snd (wrap_err msg f s) = snd (f s)"
  by (auto simp: wrap_err_def split: prod.splits outcome.splits)

lemma wrap_err_Ok_iff [simp]: "wrap_err msg f s = (Ok y, s') \<longleftrightarrow> f s = (Ok y, s')"
  by (auto simp: wrap_err_def split: prod.splits outcome.splits)

lemma query_parameters_frame:
  assumes "query_parameters node n s = (r, s')"
  shows "svc_backend s' = svc_backend s"
proof (cases "coreParameters s = None \<or> svc_rtInfo s = None \<or> queryEpochParameters s")
  case True
  obtain r1 s1 where a: "wrap_err ''querying block parameters'' (ask (\<lambda>t. ns_CoreParameters node t n)) s = (r1, s1)"
    by (cases "wrap_err ''querying block parameters'' (ask (\<lambda>t. ns_CoreParameters node t n)) s")
  have s1: "svc_backend s1 = svc_backend s" using a wrap_err_frame ask_frame by (metis snd_conv)
  show ?thesis
  proof (cases r1)
    case (Ok params)
    let ?s = "s1\<lparr>coreParameters := Some params\<rparr>"
    obtain r2 s2 where b: "wrap_err ''querying runtime info'' (ask (ns_CoreRuntimeInfo node)) ?s = (r2, s2)"
      by (cases "wrap_err ''querying runtime info'' (ask (ns_CoreRuntimeInfo node)) ?s")
    have "svc_backend s2 = svc_backend ?s" using b wrap_err_frame ask_frame by (metis snd_conv)
    with assms True a Ok b s1 show ?thesis by (cases r2) (auto simp: query_parameters_def)
  qed (use assms True a s1 in \<open>auto simp: query_parameters_def\<close>)
next
  case False
  then have "query_parameters node n s = (Ok (), s)" unfolding query_parameters_def by (rule if_not_P)
  with assms show ?thesis by simp
qed

text \<open>The node answers with the block it was asked for (as oasis-core documents \<open>GetBlock\<close>).\<close>

definition honest_node :: "ext \<Rightarrow> NodeSource \<Rightarrow> bool" where
  "honest_node x node \<longleftrightarrow> (\<forall>t n b. n \<noteq> RoundLatest x \<longrightarrow> ns_GetBlock node t n = Inr b \<longrightarrow> ob_Round b = n)"

lemma indexBlock_announces:
  assumes "honest_node x node" and "n \<noteq> RoundLatest x" and "indexBlock x node n s = (r, s')"
  shows "(r = Ok () \<and> (\<exists>bd. announced s' = announced s @ [bd] \<and> blk_Round (bd_Block bd) = n))
    \<or> (r \<noteq> Ok () \<and> announced s' = announced s)"
proof -
  obtain r1 s1 where 1: "wrap_err ''querying block'' (ask (\<lambda>t. ns_GetBlock node t n)) s = (r1, s1)"
    by (cases "wrap_err ''querying block'' (ask (\<lambda>t. ns_GetBlock node t n)) s")
  have b1: "svc_backend s1 = svc_backend s" using 1 wrap_err_frame ask_frame by (metis snd_conv)
  show ?thesis
  proof (cases r1)
    case (Ok blk)
    with 1 have "ns_GetBlock node (svc_calls s) n = Inr blk" by (auto simp: ask_def split: sum.splits)
    with assms(1,2) have rnd: "ob_Round blk = n" by (auto simp: honest_node_def)
    obtain r2 s2 where 2: "query_parameters node n s1 = (r2, s2)" by (cases "query_parameters node n s1")
    have b2: "svc_backend s2 = svc_backend s" using query_parameters_frame [OF 2] b1 by simp
    show ?thesis
    proof (cases r2)
      case r2: (Ok u)
      let ?q = "wrap_err ''querying transactions with results'' (ask (\<lambda>t. ns_GetTransactionsWithResults node t (ob_Round blk)))"
      obtain r3 s3 where 3: "?q s2 = (r3, s3)" by (cases "?q s2")
      have b3: "svc_backend s3 = svc_backend s" using 3 b2 wrap_err_frame ask_frame by (metis snd_conv)
      show ?thesis
      proof (cases r3)
        case r3: (Ok txs)
        obtain r4 b4 where 4: "cb_Index x blk txs (coreParameters s3) (svc_rtInfo s3) (svc_backend s3) = (r4, b4)"
          by (cases "cb_Index x blk txs (coreParameters s3) (svc_rtInfo s3) (svc_backend s3)")
        have "svc_backend s' = b4 \<and> (r = Ok () \<longleftrightarrow> r4 = Ok ())"
          using assms(3) 1 Ok 2 r2 3 r3 4
          by (cases r4) (auto simp: indexBlock_def wrap_err_def on_backend_def note_epoch_def)
        with cb_Index_notifier [OF 4] b3 rnd show ?thesis by auto
      qed (use assms(3) 1 Ok 2 r2 3 b3 in \<open>auto simp: indexBlock_def\<close>)
    qed (use assms(3) 1 Ok 2 b2 in \<open>auto simp: indexBlock_def\<close>)
  qed (use assms(3) 1 b1 in \<open>auto simp: indexBlock_def\<close>)
qed

lemma index_rounds_order:
  assumes "honest_node x node" and "RoundLatest x = max_u64" and latest: "latest \<noteq> max_u64"
  shows "\<exists>r s' k. index_rounds x node n latest s = Some (r, s') \<and> k \<le> Suc (unat latest) - unat n
    \<and> map (\<lambda>bd. blk_Round (bd_Block bd)) (announced s') =
        map (\<lambda>bd. blk_Round (bd_Block bd)) (announced s) @ map (\<lambda>i. n + word_of_nat i) [0..<k]"
proof (induction "Suc (unat latest) - unat n" arbitrary: n s)
  case 0
  then have "\<not> n \<le> latest" by (simp add: word_le_nat_alt)
  then show ?case by (subst index_rounds.simps) (auto intro!: exI [of _ 0])
next
  case (Suc m)
  then have le: "n \<le> latest" by (simp add: word_le_nat_alt)
  have nm: "n \<noteq> max_u64" using le latest by (rule u64_le_less_max)
  obtain r1 s1 where ib: "indexBlock x node n s = (r1, s1)" by (cases "indexBlock x node n s")
  note an = indexBlock_announces [OF assms(1) _ ib, unfolded assms(2), OF nm]
  show ?case
  proof (cases "ns_Done node (svc_calls s)")
    case True
    with le show ?thesis by (subst index_rounds.simps) (auto intro!: exI [of _ 0])
  next
    case nd: False
    show ?thesis
    proof (cases "r1 = Ok ()")
      case True
      with an obtain bd where bd: "announced s1 = announced s @ [bd]" "blk_Round (bd_Block bd) = n" by auto
      have m: "m = Suc (unat latest) - unat (n + 1)" using Suc.hyps(2) nm by simp
      obtain r s' k where ih: "index_rounds x node (n + 1) latest s1 = Some (r, s')" "k \<le> Suc (unat latest) - unat (n + 1)"
        "map (\<lambda>bd. blk_Round (bd_Block bd)) (announced s') =
           map (\<lambda>bd. blk_Round (bd_Block bd)) (announced s1) @ map (\<lambda>i. n + 1 + word_of_nat i) [0..<k]"
        using Suc.hyps(1) [OF m] by blast
      have "index_rounds x node n latest s = Some (r, s')"
        using le nd ib True ih(1) by (subst index_rounds.simps) simp
      moreover have "Suc k \<le> Suc (unat latest) - unat n" using ih(2) m Suc.hyps(2) by simp
      moreover have "map (\<lambda>i. n + word_of_nat i) [0..<Suc k] = n # map (\<lambda>i. n + 1 + word_of_nat i) [0..<k]"
        by (simp add: upt_conv_Cons map_Suc_upt [symmetric] algebra_simps comp_def del: upt_Suc)
      ultimately show ?thesis using ih(3) bd by (intro exI [of _ r] exI [of _ s'] exI [of _ "Suc k"]) (simp del: upt_Suc)
    next
      case False
      then have "\<exists>r2. index_rounds x node n latest s = Some (r2, s1)"
        using le nd ib by (subst index_rounds.simps) (cases r1; auto)
      then obtain r2 where "index_rounds x node n latest s = Some (r2, s1)" by blast
      with False an show ?thesis by (intro exI [of _ r2] exI [of _ s1] exI [of _ 0]) simp
    qed
  qed
qed


definition example_node :: NodeSource where
  "example_node = \<lparr>ns_GetBlock = (\<lambda>t n. Inr (example_block\<lparr>ob_Round := n\<rparr>)),
     ns_GetLastRetainedBlock = (\<lambda>t. Inr (example_block\<lparr>ob_Round := 3\<rparr>)),
     ns_CoreParameters = (\<lambda>t n. Inl (ErrExt ''unavailable'')), ns_CoreRuntimeInfo = (\<lambda>t. Inl (ErrExt ''unavailable'')),
     ns_GetTransactionsWithResults = (\<lambda>t n. Inr []), ns_Done = (\<lambda>t. False)\<rparr>"

definition example_config :: IndexerConfig where
  "example_config = \<lparr>ic_EnablePruning = True, ic_PruningStep = 2, ic_IndexingStart = 0, ic_IndexingEnd = 9,
     ic_IndexingDisable = False\<rparr>"

definition example_service :: Service where
  "example_service = New example_caching example_config"


subsection \<open>Start of an iteration\<close>

lemma on_backend_frame:
  "on_backend f s = (r, s') \<Longrightarrow> \<exists>b. f (svc_backend s) = (r, b) \<and> s' = s\<lparr>svc_backend := b\<rparr>"
  by (auto simp: on_backend_def split: prod.splits)

text \<open>
  an iteration starts right after the last indexed round (at round zero when nothing is
  indexed), or at the configured start or the first round the node retains when that is later;
  it never goes back to a round at or before the last indexed one.
\<close>

lemma start_after_last_indexed:
  assumes "cb_QueryLastIndexedRound (svc_backend s) = (r, b)" and "start_at node s = (Ok n, s')"
  shows "(\<forall>m. r = Ok m \<longrightarrow> m + 1 \<le> n \<and> (m \<noteq> max_u64 \<longrightarrow> m < n))
    \<and> indexingStart s \<le> n
    \<and> (\<forall>blk. indexingStart s = 0 \<longrightarrow> ns_GetLastRetainedBlock node (svc_calls s) = Inr blk \<longrightarrow> ob_Round blk \<le> n)
    \<and> ((\<exists>m. r = Ok m \<and> n = m + 1) \<or> n = 0 \<or> n = indexingStart s
        \<or> (\<exists>blk. ns_GetLastRetainedBlock node (svc_calls s) = Inr blk \<and> n = ob_Round blk))"
proof -
  have q: "on_backend cb_QueryLastIndexedRound s = (r, s\<lparr>svc_backend := b\<rparr>)"
    using assms(1) by (simp add: on_backend_def)
  define st where "st = (case r of Ok m \<Rightarrow> m + 1 | _ \<Rightarrow> 0)"
  have st: "n = (if indexingStart s = 0
      then (case ns_GetLastRetainedBlock node (svc_calls s) of Inr blk \<Rightarrow> max st (ob_Round blk) | Inl _ \<Rightarrow> n)
      else max st (indexingStart s)) \<and> (indexingStart s = 0 \<longrightarrow> (\<exists>blk. ns_GetLastRetainedBlock node (svc_calls s) = Inr blk))"
    using assms(2) q
    by (auto simp: start_at_def st_def ask_def ret_def max_def word_gt_0 split: outcome.splits if_splits sum.splits)
  have inc: "m + 1 \<le> n" if "r = Ok m" for m
    using st that by (auto simp: st_def split: if_splits sum.splits)
  moreover have "m < n" if "r = Ok m" "m \<noteq> max_u64" for m
  proof -
    have "unat (m + 1) = Suc (unat m)" using that(2) by simp
    then show ?thesis using inc [OF that(1)] by (simp add: word_less_nat_alt word_le_nat_alt)
  qed
  moreover have "indexingStart s \<le> n" using st by (auto split: if_splits)
  moreover have "n = st \<or> n = indexingStart s \<or> (\<exists>blk. ns_GetLastRetainedBlock node (svc_calls s) = Inr blk \<and> n = ob_Round blk)"
    using st by (auto simp: max_def split: if_splits)
  moreover have "st = 0 \<or> (\<exists>m. r = Ok m \<and> st = m + 1)" by (cases r) (auto simp: st_def)
  moreover have "ob_Round blk \<le> n" if "indexingStart s = 0" "ns_GetLastRetainedBlock node (svc_calls s) = Inr blk" for blk
    using st that by simp
  ultimately show ?thesis by blast
qed

lemma start_after_last_indexed_example:
  "\<exists>b s'. cb_QueryLastIndexedRound (svc_backend example_service) = (Err ErrNoRoundsIndexed, b)
     \<and> start_at example_node example_service = (Ok 3, s') \<and> 0 \<le> (3 :: u64)"
proof -
  have "\<exists>b. cb_QueryLastIndexedRound (svc_backend example_service) = (Err ErrNoRoundsIndexed, b)"
    by (simp add: example_service_def New_def example_caching_def NewCachingBackend_def SetObserver_def NewIndexBackend_def
        cb_QueryLastIndexedRound_def NewCache_def on_inner_def ib_QueryLastIndexedRound_def on_storage_def
        GetLastIndexedRound_def query_row_def query_def statement_def next_fault_def example_db_def visible_def empty_tables_def)
  then obtain b where q: "cb_QueryLastIndexedRound (svc_backend example_service) = (Err ErrNoRoundsIndexed, b)" by blast
  have "\<exists>s'. start_at example_node example_service = (Ok 3, s')"
    using q by (simp add: start_at_def on_backend_def ask_def ret_def example_node_def example_service_def New_def example_config_def)
  then obtain s' where st: "start_at example_node example_service = (Ok 3, s')" by blast
  from start_after_last_indexed [OF q st] have "indexingStart example_service \<le> 3" by blast
  with q st show ?thesis by (simp add: example_service_def New_def example_config_def)
qed

subsection \<open>Health\<close>

text \<open>
  C27: a health check that gets both rounds reports healthy exactly when the indexer is at most
  ten rounds behind the node; an indexer in front of the node is unhealthy (the subtraction never
  wraps around), and a failed query is unhealthy.
\<close>

theorem health_check_exact:
  assumes "cb_QueryLastIndexedRound (svc_backend s) = (r, b)"
  shows "Health (health_iteration x node s) = Ok () \<longleftrightarrow>
    (\<exists>lastIndexed blk. r = Ok lastIndexed \<and> ns_GetBlock node (svc_calls s) (RoundLatest x) = Inr blk
       \<and> unat lastIndexed \<le> unat (ob_Round blk) \<and> unat (ob_Round blk) - unat lastIndexed \<le> 10)"
proof -
  have q: "on_backend cb_QueryLastIndexedRound s = (r, s\<lparr>svc_backend := b\<rparr>)"
    using assms by (simp add: on_backend_def)
  have le: "latest - li \<le> healthCheckIndexerDriftThreshold \<longleftrightarrow> unat latest - unat li \<le> 10" if "li \<le> latest" for latest li :: u64
    using that by (simp add: healthCheckIndexerDriftThreshold_def word_le_nat_alt unat_sub)
  show ?thesis
  proof (cases r)
    case (Ok li)
    show ?thesis
    proof (cases "ns_GetBlock node (svc_calls s) (RoundLatest x)")
      case (Inl e)
      with q Ok show ?thesis by (simp add: health_iteration_def ask_def updateHealth_def Health_def)
    next
      case (Inr blk)
      show ?thesis
      proof (cases "li \<le> ob_Round blk")
        case True
        with q Ok Inr le show ?thesis
          by (simp add: health_iteration_def ask_def updateHealth_def Health_def Let_def word_le_nat_alt [of li])
      next
        case False
        with q Ok Inr show ?thesis
          by (simp add: health_iteration_def ask_def updateHealth_def Health_def Let_def word_le_nat_alt [of li])
      qed
    qed
  qed (use q in \<open>simp_all add: health_iteration_def updateHealth_def Health_def\<close>)
qed

definition example_indexed_service :: "u64 \<Rightarrow> Service" where
  "example_indexed_service n =
     example_service\<lparr>svc_backend := ((NewCache None)\<lparr>lastIndexedRound := n\<rparr>, snd example_caching)\<rparr>"

theorem health_check_exact_witness:
  "Health (health_iteration example_ext
     (example_node\<lparr>ns_GetBlock := (\<lambda>t n. Inr (example_block\<lparr>ob_Round := 25\<rparr>))\<rparr>) (example_indexed_service 15)) = Ok ()"
proof -
  have "cb_QueryLastIndexedRound (svc_backend (example_indexed_service 15)) = (Ok 15, svc_backend (example_indexed_service 15))"
    by (simp add: example_indexed_service_def cb_QueryLastIndexedRound_def)
  from health_check_exact [OF this] show ?thesis by simp
qed

subsection \<open>Pruning\<close>

lemma tx_local_GetLastIndexedRound: "GetLastIndexedRound h db = (r, db') \<Longrightarrow> committed db' = committed db"
  using tx_localD [OF tx_local_query_row]
  by (fastforce simp: GetLastIndexedRound_def split: prod.splits outcome.splits if_splits)

lemma last_indexed_keeps_tables:
  assumes "cb_QueryLastIndexedRound b = (r, b')"
  shows "committed (ib_storage (snd b')) = committed (ib_storage (snd b))"
proof (cases "lastIndexedRound (fst b) = 0")
  case True
  obtain c ib where b: "b = (c, ib)" by (cases b)
  obtain r1 db1 where g: "GetLastIndexedRound Pool (ib_storage ib) = (r1, db1)"
    by (cases "GetLastIndexedRound Pool (ib_storage ib)")
  with assms True b have "b' = (c, ib\<lparr>ib_storage := db1\<rparr>)"
    by (simp add: cb_QueryLastIndexedRound_def on_inner_def ib_QueryLastIndexedRound_def on_storage_def)
  with tx_local_GetLastIndexedRound [OF g] b show ?thesis by simp
qed (use assms in \<open>auto simp: cb_QueryLastIndexedRound_def split: prod.splits\<close>)

lemma cb_Prune_tables:
  assumes "cb_Prune x n b = (r, b')"
  shows "let t = committed (ib_storage (snd b)); t' = committed (ib_storage (snd b')) in
    t' = retained n (with_last_retained n t) \<or> t' = t \<or> t' = with_last_retained n t"
proof -
  obtain c ib where b: "b = (c, ib)" by (cases b)
  obtain r1 ib1 where p: "Prune x n ib = (r1, ib1)" by (cases "Prune x n ib")
  with assms b have "b' = (c, ib1)" by (simp add: cb_Prune_def on_inner_def)
  with prune_cases [OF p] b show ?thesis by (auto simp: Let_def)
qed

lemma rows_after_prune:
  "set (tbl_delete_below rnd n rows) = {y \<in> set rows. n \<le> rnd y}"
  by (auto simp: tbl_delete_below_def)

text \<open>
  C26: a pruning iteration never removes a block, log, transaction or receipt of the last
  \<open>pruningStep\<close> rounds: every row whose round is at least the last indexed round minus the
  step is still there, whatever happens to the statements; when nothing is indexed, or not
  more than the step, nothing is removed at all.
\<close>

theorem pruning_keeps_recent:
  assumes q: "cb_QueryLastIndexedRound (svc_backend s) = (r, b)"
  shows "(\<forall>lastIndexed. r = Ok lastIndexed \<longrightarrow>
      (\<forall>y \<in> set (blocks (svc_tables s)). unat lastIndexed \<le> unat (blk_Round y) + unat (pruningStep s)
         \<longrightarrow> y \<in> set (blocks (svc_tables (pruning_iteration x s))))
    \<and> (\<forall>y \<in> set (logs (svc_tables s)). unat lastIndexed \<le> unat (log_Round y) + unat (pruningStep s)
         \<longrightarrow> y \<in> set (logs (svc_tables (pruning_iteration x s))))
    \<and> (\<forall>y \<in> set (transactions (svc_tables s)). unat lastIndexed \<le> unat (tx_Round y) + unat (pruningStep s)
         \<longrightarrow> y \<in> set (transactions (svc_tables (pruning_iteration x s))))
    \<and> (\<forall>y \<in> set (receipts (svc_tables s)). unat lastIndexed \<le> unat (rc_Round y) + unat (pruningStep s)
         \<longrightarrow> y \<in> set (receipts (svc_tables (pruning_iteration x s)))))
  \<and> (\<not> (\<exists>lastIndexed. r = Ok lastIndexed \<and> pruningStep s < lastIndexed)
       \<longrightarrow> svc_tables (pruning_iteration x s) = svc_tables s)"
proof -
  have ob: "on_backend cb_QueryLastIndexedRound s = (r, s\<lparr>svc_backend := b\<rparr>)" using q by (simp add: on_backend_def)
  have same: "committed (ib_storage (snd b)) = svc_tables s" by (rule last_indexed_keeps_tables [OF q])
  show ?thesis
  proof (cases "\<exists>li. r = Ok li \<and> pruningStep s < li")
    case True
    then obtain li where li: "r = Ok li" "pruningStep s < li" by blast
    let ?n = "li - pruningStep s"
    obtain r2 b2 where p: "cb_Prune x ?n b = (r2, b2)" by (cases "cb_Prune x ?n b")
    have t: "svc_tables (pruning_iteration x s) = committed (ib_storage (snd b2))"
      using ob li p by (simp add: pruning_iteration_def on_backend_def)
    have n: "?n \<le> rnd \<longleftrightarrow> unat li \<le> unat rnd + unat (pruningStep s)" for rnd
    proof -
      have "unat ?n = unat li - unat (pruningStep s)" using li(2) by (simp add: unat_sub word_le_nat_alt word_less_nat_alt)
      then show ?thesis by (auto simp: word_le_nat_alt)
    qed
    have "t' = retained ?n (with_last_retained ?n (svc_tables s)) \<or> t' = svc_tables s \<or> t' = with_last_retained ?n (svc_tables s)"
      if "t' = committed (ib_storage (snd b2))" for t'
      using cb_Prune_tables [OF p] same that by (simp add: Let_def)
    with t li show ?thesis
      by (fastforce simp: retained_def with_last_retained_def rows_after_prune n)
  next
    case False
    then have "pruning_iteration x s = s\<lparr>svc_backend := b\<rparr>"
      using ob by (auto simp: pruning_iteration_def split: outcome.splits)
    with same show ?thesis by simp
  qed
qed

theorem pruning_keeps_recent_witness:
  "svc_tables (pruning_iteration example_ext (example_indexed_service 2)) = svc_tables (example_indexed_service 2)"
proof -
  have "cb_QueryLastIndexedRound (svc_backend (example_indexed_service 2)) = (Ok 2, svc_backend (example_indexed_service 2))"
    by (simp add: example_indexed_service_def cb_QueryLastIndexedRound_def)
  moreover have "pruningStep (example_indexed_service 2) = 2"
    by (simp add: example_indexed_service_def example_service_def New_def example_config_def)
  ultimately show ?thesis using pruning_keeps_recent [of "example_indexed_service 2" "Ok 2" _ example_ext] by auto
qed

subsection \<open>Parameters and epochs\<close>

text \<open>
  after a block that ended an epoch was indexed, the next block is never indexed with the
  parameters of the old epoch: an \<open>indexBlock\<close> that succeeds has queried the node for the core
  parameters of its round and for the runtime info, and stores both.
\<close>

lemma epoch_parameters_refreshed:
  assumes "queryEpochParameters s" and "indexBlock x node n s = (Ok (), s')"
  shows "\<exists>params ri. ns_CoreParameters node (Suc (svc_calls s)) n = Inr params
    \<and> ns_CoreRuntimeInfo node (Suc (Suc (svc_calls s))) = Inr ri
    \<and> coreParameters s' = Some params \<and> svc_rtInfo s' = Some ri"
proof -
  obtain blk s1 where 1: "ask (\<lambda>t. ns_GetBlock node t n) s = (Ok blk, s1)"
    and r1: "and_then (query_parameters node n) (\<lambda>_.
     and_then (wrap_err ''querying transactions with results''
         (ask (\<lambda>t. ns_GetTransactionsWithResults node t (ob_Round blk)))) (\<lambda>txs.
     and_then (\<lambda>s. wrap_err ''indexing block''
         (on_backend (cb_Index x blk txs (coreParameters s) (svc_rtInfo s))) s) (\<lambda>_ s.
       (Ok (), note_epoch blk s)))) s1 = (Ok (), s')"
    using assms(2) unfolding indexBlock_def and_then_Ok_iff wrap_err_Ok_iff by blast
  obtain s2 txs s3 u s4 where 2: "query_parameters node n s1 = (Ok (), s2)"
    and 3: "ask (\<lambda>t. ns_GetTransactionsWithResults node t (ob_Round blk)) s2 = (Ok txs, s3)"
    and 4: "on_backend (cb_Index x blk txs (coreParameters s3) (svc_rtInfo s3)) s3 = (Ok u, s4)"
    and 5: "s' = note_epoch blk s4"
    using r1 unfolding and_then_Ok_iff wrap_err_Ok_iff by auto
  have s1: "s1 = s\<lparr>svc_calls := Suc (svc_calls s)\<rparr>" using 1 by (auto simp: ask_def)
  have "coreParameters s3 = coreParameters s2" "svc_rtInfo s3 = svc_rtInfo s2" using 3 by (auto simp: ask_def)
  moreover have "coreParameters s4 = coreParameters s3" "svc_rtInfo s4 = svc_rtInfo s3"
    using on_backend_frame [OF 4] by auto
  moreover have "coreParameters s' = coreParameters s4" "svc_rtInfo s' = svc_rtInfo s4"
    using 5 by (simp_all add: note_epoch_def)
  moreover have "\<exists>params ri. ns_CoreParameters node (Suc (svc_calls s)) n = Inr params
      \<and> ns_CoreRuntimeInfo node (Suc (Suc (svc_calls s))) = Inr ri \<and> coreParameters s2 = Some params \<and> svc_rtInfo s2 = Some ri"
    using 2 s1 assms(1)
    by (auto simp: query_parameters_def wrap_err_def ask_def split: prod.splits outcome.splits sum.splits)
  ultimately show ?thesis by simp
qed

definition example_epoch_node :: NodeSource where
  "example_epoch_node = example_node\<lparr>ns_CoreParameters := (\<lambda>t n. Inr \<lparr>cp_MinGasPrice = 5, cp_MaxBatchGas = 100\<rparr>),
     ns_CoreRuntimeInfo := (\<lambda>t. Inr \<lparr>ri_EvmVersion = 2\<rparr>)\<rparr>"

lemma example_empty_models:
  "\<exists>blk. block_models example_ext (example_block\<lparr>ob_Round := 7\<rparr>) [] params = Ok ((blk, [], [], []), None)"
  by (simp add: block_models_def decode_txs_def empty_decoded_def blockToModels_def ethToModelLogs_def Let_def)

lemma example_empty_store:
  "\<exists>db'. RunInTransaction Pool (store_models example_ext blk [] [] []) example_db = (Ok ([], []), db')"
  by (simp add: RunInTransaction_def example_db_def next_fault_def close_tx_def store_models_def statement_def visible_def
      empty_tables_def insertSingle_def exec_stmt_def ret_def store_rest_def apply_stmt_def tbl_insert_def round_taken_def
      commit_tx_def tbl_insert_do_update_def)

lemma example_cb_Index:
  "\<exists>b'. cb_Index example_ext (example_block\<lparr>ob_Round := 7\<rparr>) [] params rtInfo example_caching = (Ok (), b')"
proof -
  obtain blk where m: "block_models example_ext (example_block\<lparr>ob_Round := 7\<rparr>) [] params = Ok ((blk, [], [], []), None)"
    using example_empty_models by blast
  obtain db' where r: "RunInTransaction Pool (store_models example_ext blk [] [] []) example_db = (Ok ([], []), db')"
    using example_empty_store by blast
  let ?bd = "\<lparr>bd_Block = blk, bd_Receipts = [], bd_UniqueTxes = [], bd_Median = None\<rparr>"
  have mx: "maxCacheSize (NewCache None) \<noteq> max_u64" by (simp add: NewCache_def)
  obtain c' where "OnBlockIndexed ?bd (NewCache None) = (Ok (), c')"
    by (rule on_block_indexed_cases [OF new_cache_ok _ mx, of ?bd]) auto
  with m r show ?thesis
    by (auto simp: cb_Index_def Index_def StoreBlockData_def publish_def Let_def example_caching_def NewCachingBackend_def
        SetObserver_def NewIndexBackend_def split: option.splits)
qed

lemma epoch_parameters_refreshed_example:
  "\<exists>s'. indexBlock example_ext example_epoch_node 7 (example_service\<lparr>queryEpochParameters := True\<rparr>) = (Ok (), s')
     \<and> coreParameters s' = Some \<lparr>cp_MinGasPrice = 5, cp_MaxBatchGas = 100\<rparr>"
proof -
  let ?s = "example_service\<lparr>queryEpochParameters := True\<rparr>"
  have "\<exists>s'. indexBlock example_ext example_epoch_node 7 ?s = (Ok (), s')"
    using example_cb_Index [of "Some \<lparr>cp_MinGasPrice = 5, cp_MaxBatchGas = 100\<rparr>" "Some \<lparr>ri_EvmVersion = 2\<rparr>"]
    by (auto simp: indexBlock_def wrap_err_def ask_def query_parameters_def on_backend_def example_epoch_node_def
        example_node_def example_service_def New_def)
  then obtain s' where i: "indexBlock example_ext example_epoch_node 7 ?s = (Ok (), s')" by blast
  have "queryEpochParameters ?s" by simp
  from epoch_parameters_refreshed [OF this i] i show ?thesis by (auto simp: example_epoch_node_def)
qed

end
