(* ===== verification/Step_Systems.thy ===== *)
theory Step_Systems
  imports Main
begin

text \<open>
  Labelled step relations, shared by the theories that run goroutines beside each other: the states a relation reaches, and
  the contract of an invariant (locale \<open>step_invariant\<close>), which every such theory interprets on its own relation.
\<close>

inductive reach :: "('s \<Rightarrow> 'l \<Rightarrow> 's \<Rightarrow> bool) \<Rightarrow> 's \<Rightarrow> 's \<Rightarrow> bool" for step :: "'s \<Rightarrow> 'l \<Rightarrow> 's \<Rightarrow> bool" and s0 :: 's where
  reach_start: "reach step s0 s0"
| reach_step: "reach step s0 s \<Longrightarrow> step s l s' \<Longrightarrow> reach step s0 s'"

lemma reach_trans: "reach step s1 s2 \<Longrightarrow> reach step s0 s1 \<Longrightarrow> reach step s0 s2"
  by (induction rule: reach.induct) (auto intro: reach.intros)

lemma reach_one: "step s l s' \<Longrightarrow> reach step s s'"
  by (rule reach_step [OF reach_start])

text \<open>Fewer steps reach fewer states.\<close>

lemma reach_mono:
  assumes "reach step s0 s" and "\<And>s l s'. step s l s' \<Longrightarrow> step' s l s'"
  shows "reach step' s0 s"
  using assms(1) by induction (auto intro: reach.intros assms(2))

locale step_invariant =
  fixes step :: "'s \<Rightarrow> 'l \<Rightarrow> 's \<Rightarrow> bool" and inv :: "'s \<Rightarrow> bool"
  assumes inv_step: "step s l s' \<Longrightarrow> inv s \<Longrightarrow> inv s'"
begin

lemma reach_inv: "reach step s0 s \<Longrightarrow> inv s0 \<Longrightarrow> inv s"
  by (induction rule: reach.induct) (auto intro: inv_step)

end

end
