(* ===== verification/Indexer_Start.thy ===== *)
theory Indexer_Start
  imports Indexer_Service Step_Systems
begin

text \<open>
  \<^verbatim>\<open>indexer/indexer.go\<close>: \<open>Start\<close> and the goroutines it supervises. Every goroutine is at a
  point of its code (\<open>worker_pc\<close>, \<open>start_pc\<close>); a step of \<open>su_step\<close> is one channel operation, one call
  of \<open>cancel\<close> or one iteration of a worker, and its label says who made it. Where a \<open>select\<close> has several
  ready cases, each of them is a step: the program may take any. The node of an iteration is a parameter of
  that step, since its answers change; a panic of an iteration ends the process.
\<close>

subsection \<open>The goroutines\<close>

datatype worker = IndexingWorker | HealthWorker | PruningWorker

text \<open>\<open>Leaving e\<close>: the worker function returned \<open>e\<close>; \<open>Exited\<close>: the wait group counts it no more.\<close>

datatype worker_pc = Looping | Leaving "gerror option" | Exited

text \<open>
  \<open>Start\<close> at its first \<open>select\<close>, before \<open>cancel()\<close>, before \<open>s.client.Close()\<close>, at its second
  \<open>select\<close>, and after its return.
\<close>

datatype start_pc = Supervising | Stopping | Closing | Awaiting | Returned "unit outcome" | Died

record supervisor =
  su_svc :: Service
  su_parent_done :: bool
  su_ctx_done :: bool
  su_errCh :: "gerror list"
  su_worker :: "worker \<Rightarrow> worker_pc"
  su_closed :: bool
  su_pc :: start_pc

definition errCh_size :: nat where
  "errCh_size = 4"

definition worker_error :: "worker \<Rightarrow> gerror \<Rightarrow> gerror" where
  "worker_error w e = Wrapf (case w of IndexingWorker \<Rightarrow> ''indexing worker'' | HealthWorker \<Rightarrow> ''health worker''
     | PruningWorker \<Rightarrow> ''pruning worker'') e"

text \<open>The state after the \<open>go\<close> statements: a context derived from the caller's, an empty channel.\<close>

definition spawned :: "Service \<Rightarrow> supervisor" where
  "spawned s = \<lparr>su_svc = s, su_parent_done = False, su_ctx_done = False, su_errCh = [],
     su_worker = (\<lambda>w. if w = PruningWorker \<and> \<not> enablePruning s then Exited else Looping),
     su_closed = False, su_pc = Supervising\<rparr>"

text \<open>\<open>Start\<close>: either it returns at once, or it supervises the workers.\<close>

definition Start :: "Service \<Rightarrow> (unit outcome \<times> Service) + supervisor" where
  "Start s = (if indexingDisable s then Inl (Start_disabled s) else Inr (spawned s))"

datatype su_label = ByParent | ByWorker worker | ByStart

inductive su_step :: "ext \<Rightarrow> supervisor \<Rightarrow> su_label \<Rightarrow> supervisor \<Rightarrow> bool" for x :: ext where
  parent_cancels: "su_pc s \<noteq> Died \<Longrightarrow> su_step x s ByParent (s\<lparr>su_parent_done := True, su_ctx_done := True\<rparr>)"
| indexes: "su_pc s \<noteq> Died \<Longrightarrow> su_worker s IndexingWorker = Looping \<Longrightarrow>
    indexing_iteration x node (su_svc s) = Some (Ok False, svc) \<Longrightarrow>
    su_step x s (ByWorker IndexingWorker) (s\<lparr>su_svc := svc\<rparr>)"
| reaches_end: "su_pc s \<noteq> Died \<Longrightarrow> su_worker s IndexingWorker = Looping \<Longrightarrow>
    indexing_iteration x node (su_svc s) = Some (Ok True, svc) \<Longrightarrow>
    su_step x s (ByWorker IndexingWorker)
      (s\<lparr>su_svc := updateHealth True svc, su_worker := (su_worker s)(IndexingWorker := Leaving None)\<rparr>)"
| indexing_panics: "su_pc s \<noteq> Died \<Longrightarrow> su_worker s IndexingWorker = Looping \<Longrightarrow>
    indexing_iteration x node (su_svc s) = Some (Panic p, svc) \<Longrightarrow>
    su_step x s (ByWorker IndexingWorker) (s\<lparr>su_svc := svc, su_pc := Died\<rparr>)"
| checks_health: "su_pc s \<noteq> Died \<Longrightarrow> su_worker s HealthWorker = Looping \<Longrightarrow>
    su_step x s (ByWorker HealthWorker) (s\<lparr>su_svc := health_iteration x node (su_svc s)\<rparr>)"
| prunes: "su_pc s \<noteq> Died \<Longrightarrow> su_worker s PruningWorker = Looping \<Longrightarrow>
    su_step x s (ByWorker PruningWorker) (s\<lparr>su_svc := pruning_iteration x (su_svc s)\<rparr>)"
| sees_done: "su_pc s \<noteq> Died \<Longrightarrow> su_worker s w = Looping \<Longrightarrow> su_ctx_done s \<Longrightarrow>
    su_step x s (ByWorker w) (s\<lparr>su_worker := (su_worker s)(w := Leaving (Some ErrCanceled))\<rparr>)"
| reports: "su_pc s \<noteq> Died \<Longrightarrow> su_worker s w = Leaving (Some e) \<Longrightarrow> length (su_errCh s) < errCh_size \<Longrightarrow>
    su_step x s (ByWorker w)
      (s\<lparr>su_errCh := su_errCh s @ [worker_error w e], su_worker := (su_worker s)(w := Leaving None)\<rparr>)"
| indexer_cancels: "su_pc s \<noteq> Died \<Longrightarrow> su_worker s IndexingWorker = Leaving None \<Longrightarrow> \<not> su_ctx_done s \<Longrightarrow>
    su_step x s (ByWorker IndexingWorker) (s\<lparr>su_ctx_done := True\<rparr>)"
| exits: "su_pc s \<noteq> Died \<Longrightarrow> su_worker s w = Leaving None \<Longrightarrow> (w = IndexingWorker \<longrightarrow> su_ctx_done s) \<Longrightarrow>
    su_step x s (ByWorker w) (s\<lparr>su_worker := (su_worker s)(w := Exited)\<rparr>)"
| worker_stopped: "su_pc s = Supervising \<Longrightarrow> su_errCh s = e # q \<Longrightarrow>
    su_step x s ByStart (s\<lparr>su_errCh := q, su_pc := Stopping\<rparr>)"
| context_done: "su_pc s = Supervising \<Longrightarrow> su_ctx_done s \<Longrightarrow> su_step x s ByStart (s\<lparr>su_pc := Stopping\<rparr>)"
| cancels: "su_pc s = Stopping \<Longrightarrow> su_step x s ByStart (s\<lparr>su_ctx_done := True, su_pc := Closing\<rparr>)"
| closes: "su_pc s = Closing \<Longrightarrow> su_step x s ByStart (s\<lparr>su_closed := True, su_pc := Awaiting\<rparr>)"
| all_exited: "su_pc s = Awaiting \<Longrightarrow> (\<forall>w. su_worker s w = Exited) \<Longrightarrow>
    su_step x s ByStart (s\<lparr>su_pc := Returned (Ok ())\<rparr>)"
| not_awaited: "su_pc s = Awaiting \<Longrightarrow> su_ctx_done s \<Longrightarrow>
    su_step x s ByStart (s\<lparr>su_pc := Returned (Err ErrCanceled)\<rparr>)"

abbreviation su_reach :: "ext \<Rightarrow> supervisor \<Rightarrow> supervisor \<Rightarrow> bool" where
  "su_reach x \<equiv> reach (su_step x)"

lemmas su_start = reach_start [where step = "su_step x" for x]
  and su_more = reach_step [where step = "su_step x" for x]
  and su_trans = reach_trans [where step = "su_step x" for x]

subsection \<open>The iterations keep the configuration\<close>

definition keeps_config :: "(Service, 'a) call \<Rightarrow> bool" where
  "keeps_config f \<longleftrightarrow> (\<forall>s. indexingEnd (snd (f s)) = indexingEnd s \<and> enablePruning (snd (f s)) = enablePruning s)"

lemma keeps_configD:
  "keeps_config f \<Longrightarrow> f s = (r, s') \<Longrightarrow> indexingEnd s' = indexingEnd s \<and> enablePruning s' = enablePruning s"
  unfolding keeps_config_def by (metis snd_conv)

lemma keeps_basic [intro]: "keeps_config (ask f)" "keeps_config (on_backend g)" "keeps_config (ret y)"
  by (simp_all add: keeps_config_def ask_def on_backend_def ret_def split: prod.splits)

lemma keeps_wrap [intro]: "keeps_config f \<Longrightarrow> keeps_config (wrap_err msg f)"
  by (simp add: keeps_config_def)

lemma keeps_config_then [intro]:
  assumes "keeps_config f" and "\<And>y. keeps_config (g y)"
  shows "keeps_config (and_then f g)"
  unfolding keeps_config_def
proof (intro allI)
  fix s
  obtain r s1 where f: "f s = (r, s1)" by (cases "f s")
  show "indexingEnd (snd (and_then f g s)) = indexingEnd s \<and> enablePruning (snd (and_then f g s)) = enablePruning s"
    using keeps_configD [OF assms(1) f] assms(2) f
    by (cases r) (auto simp: keeps_config_def)
qed


lemma keeps_query_parameters [intro]: "keeps_config (query_parameters node n)"
proof -
  let ?ri = "wrap_err ''querying runtime info'' (ask (ns_CoreRuntimeInfo node))"
  have "keeps_config (\<lambda>s1. case ?ri (s1\<lparr>coreParameters := Some params\<rparr>) of
             (Ok ri, s2) \<Rightarrow> (Ok (), s2\<lparr>svc_rtInfo := Some ri\<rparr>)
           | (Err e, s2) \<Rightarrow> (Err e, s2\<lparr>svc_rtInfo := None\<rparr>)
           | (Panic p, s2) \<Rightarrow> (Panic p, s2))" for params
    by (auto simp: keeps_config_def wrap_err_def ask_def split: prod.splits outcome.splits sum.splits)
  then have "keeps_config (and_then (wrap_err ''querying block parameters'' (ask (\<lambda>t. ns_CoreParameters node t n)))
      (\<lambda>params s1. case ?ri (s1\<lparr>coreParameters := Some params\<rparr>) of
             (Ok ri, s2) \<Rightarrow> (Ok (), s2\<lparr>svc_rtInfo := Some ri\<rparr>)
           | (Err e, s2) \<Rightarrow> (Err e, s2\<lparr>svc_rtInfo := None\<rparr>)
           | (Panic p, s2) \<Rightarrow> (Panic p, s2)))" by blast
  then show ?thesis unfolding keeps_config_def query_parameters_def by simp
qed

lemma keeps_indexBlock [intro]: "keeps_config (indexBlock x node n)"
proof -
  have i: "keeps_config (\<lambda>s. wrap_err ''indexing block''
      (on_backend (cb_Index x blk txs (coreParameters s) (svc_rtInfo s))) s)" for blk txs
    unfolding keeps_config_def by (simp add: on_backend_def split: prod.splits)
  have "keeps_config (\<lambda>s. (Ok (), note_epoch blk s))" for blk
    by (simp add: keeps_config_def note_epoch_def)
  with i show ?thesis unfolding indexBlock_def by (intro keeps_config_then) auto
qed

lemma index_rounds_keeps:
  assumes "index_rounds x node n latest s = Some rs"
  shows "indexingEnd (snd rs) = indexingEnd s \<and> enablePruning (snd rs) = enablePruning s"
proof -
  let ?same = "\<lambda>(x :: ext) (node :: NodeSource) (n :: u64) (latest :: u64) (s :: Service) (rs :: unit outcome \<times> Service).
    indexingEnd (snd rs) = indexingEnd s \<and> enablePruning (snd rs) = enablePruning s"
  have step: "?same x node n latest s rs"
    if ih: "\<And>x node n latest s rs. rounds x node n latest s = Some rs \<Longrightarrow> ?same x node n latest s rs"
      and body: "(if n \<le> latest then if ns_Done node (svc_calls s) then Some (Ok (), s)
        else (case indexBlock x node n s of (Ok _, s') \<Rightarrow> rounds x node (n + 1) latest s'
          | (Err e, s') \<Rightarrow> Some (Ok (), s') | (Panic p, s') \<Rightarrow> Some (Panic p, s')) else Some (Ok (), s)) = Some rs"
    for rounds x node n latest s rs
  proof -
    obtain r s' where i: "indexBlock x node n s = (r, s')" by (cases "indexBlock x node n s")
    from keeps_configD [OF keeps_indexBlock i] body ih [of x node "n + 1" latest s' rs] show ?thesis
      by (cases r) (auto simp: i split: if_splits)
  qed
  show ?thesis
    by (rule index_rounds.raw_induct [where P = ?same and xa = "((((x, node), n), latest), s)" and y = rs, unfolded prod.case])
      (rule step, assumption+, rule assms)
qed

lemma keeps_start_at [intro]: "keeps_config (start_at node)"
  unfolding keeps_config_def
proof (intro allI)
  fix s
  obtain r s1 where q: "on_backend cb_QueryLastIndexedRound s = (r, s1)" by (cases "on_backend cb_QueryLastIndexedRound s")
  have 1: "indexingEnd s1 = indexingEnd s \<and> enablePruning s1 = enablePruning s" by (rule keeps_configD [OF keeps_basic(2) q])
  have a: "keeps_config (and_then (ask (ns_GetLastRetainedBlock node))
      (\<lambda>blk. ret (if startAt < ob_Round blk then ob_Round blk else startAt)))" for startAt by blast
  show "indexingEnd (snd (start_at node s)) = indexingEnd s \<and> enablePruning (snd (start_at node s)) = enablePruning s"
    using 1 a unfolding start_at_def q keeps_config_def by (auto split: outcome.splits sum.splits)
qed

lemma indexing_iteration_keeps:
  assumes "indexing_iteration x node s = Some (r, s')"
  shows "indexingEnd s' = indexingEnd s \<and> enablePruning s' = enablePruning s \<and> (r = Ok True \<longrightarrow> indexingEnd s \<noteq> 0)"
proof -
  obtain q s1 where q: "start_at node s = (q, s1)" by (cases "start_at node s")
  have 1: "indexingEnd s1 = indexingEnd s" "enablePruning s1 = enablePruning s"
    using keeps_configD [OF keeps_start_at q] by auto
  obtain q2 s2 where a: "ask (\<lambda>t. ns_GetBlock node t (RoundLatest x)) s1 = (q2, s2)"
    by (cases "ask (\<lambda>t. ns_GetBlock node t (RoundLatest x)) s1")
  have 2: "indexingEnd s2 = indexingEnd s1 \<and> enablePruning s2 = enablePruning s1" by (rule keeps_configD [OF keeps_basic(1) a])
  show ?thesis
    using assms q a 1 2
    by (auto simp: indexing_iteration_def Let_def split: outcome.splits if_splits option.splits dest!: index_rounds_keeps)
qed

lemma updateHealth_keeps [simp]:
  "indexingEnd (updateHealth h s) = indexingEnd s" "enablePruning (updateHealth h s) = enablePruning s"
  by (simp_all add: updateHealth_def)

lemma worker_iterations_keep [simp]:
  "indexingEnd (health_iteration x node s) = indexingEnd s" "enablePruning (health_iteration x node s) = enablePruning s"
  "indexingEnd (pruning_iteration x s) = indexingEnd s" "enablePruning (pruning_iteration x s) = enablePruning s"
  by (simp_all add: health_iteration_def pruning_iteration_def on_backend_def ask_def Let_def split: prod.splits outcome.splits)

subsection \<open>The invariant of the supervision\<close>

definition may_report :: "worker_pc \<Rightarrow> bool" where
  "may_report p \<longleftrightarrow> (case p of Looping \<Rightarrow> True | Leaving (Some e) \<Rightarrow> True | _ \<Rightarrow> False)"

lemma may_report_simps [simp]: "may_report Looping" "may_report (Leaving (Some e))" "\<not> may_report (Leaving None)" "\<not> may_report Exited"
  by (simp_all add: may_report_def)

definition reporters :: "supervisor \<Rightarrow> nat" where
  "reporters s = length (filter (\<lambda>w. may_report (su_worker s w)) [IndexingWorker, HealthWorker, PruningWorker])"

text \<open>A worker left its loop for a reason: the context is done, or it is the indexer at its configured end.\<close>

definition left_for_reason :: "supervisor \<Rightarrow> worker \<Rightarrow> bool" where
  "left_for_reason s w \<longleftrightarrow> su_worker s w = Looping \<or> su_ctx_done s
     \<or> (w = IndexingWorker \<and> su_worker s w = Leaving None \<and> indexingEnd (su_svc s) \<noteq> 0)
     \<or> (w = PruningWorker \<and> su_worker s w = Exited \<and> \<not> enablePruning (su_svc s))"

definition pc_ok :: "supervisor \<Rightarrow> bool" where
  "pc_ok s \<longleftrightarrow> (case su_pc s of Supervising \<Rightarrow> \<not> su_closed s | Stopping \<Rightarrow> su_ctx_done s | Closing \<Rightarrow> su_ctx_done s
     | Awaiting \<Rightarrow> su_ctx_done s \<and> su_closed s
     | Returned r \<Rightarrow> su_ctx_done s \<and> su_closed s \<and> (r = Ok () \<and> (\<forall>w. su_worker s w = Exited) \<or> r = Err ErrCanceled)
     | Died \<Rightarrow> True)"

definition su_ok :: "supervisor \<Rightarrow> bool" where
  "su_ok s \<longleftrightarrow> (\<forall>w. left_for_reason s w)
     \<and> (su_ctx_done s \<longrightarrow> su_parent_done s \<or> indexingEnd (su_svc s) \<noteq> 0)
     \<and> (su_parent_done s \<longrightarrow> su_ctx_done s)
     \<and> (su_errCh s \<noteq> [] \<longrightarrow> su_ctx_done s)
     \<and> length (su_errCh s) + reporters s \<le> 3
     \<and> pc_ok s"

lemma pc_ok_keep:
  assumes "pc_ok s" and "su_pc s' = su_pc s" and "su_closed s' = su_closed s" and "su_ctx_done s \<Longrightarrow> su_ctx_done s'"
    and "\<And>w. su_worker s w = Exited \<Longrightarrow> su_worker s' w = Exited"
  shows "pc_ok s'"
  using assms by (auto simp: pc_ok_def split: start_pc.splits)

lemma spawned_ok: "su_ok (spawned svc)"
  by (auto simp: su_ok_def spawned_def left_for_reason_def reporters_def pc_ok_def)

lemma all_workers: "(\<forall>w. P w) \<longleftrightarrow> P IndexingWorker \<and> P HealthWorker \<and> P PruningWorker"
  by (metis worker.exhaust)

lemmas su_defs = su_ok_def left_for_reason_def reporters_def all_workers

lemma reporters_upd:
  "may_report (su_worker s w) \<Longrightarrow> \<not> may_report p \<Longrightarrow> Suc (reporters (s\<lparr>su_worker := (su_worker s)(w := p)\<rparr>)) = reporters s"
  by (cases w) (simp_all add: reporters_def)

lemma reporters_same:
  "may_report (su_worker s w) = may_report p \<Longrightarrow> reporters (s\<lparr>su_worker := (su_worker s)(w := p)\<rparr>) = reporters s"
  by (cases w) (simp_all add: reporters_def)

lemma reporters_errCh [simp]:
  "reporters (s\<lparr>su_errCh := q, su_worker := f\<rparr>) = reporters (s\<lparr>su_worker := f\<rparr>)"
  by (simp add: reporters_def)

lemma su_step_pc_ok:
  assumes "su_step x s l s'" and "su_ok s"
  shows "pc_ok s'"
proof (cases "su_pc s' = su_pc s")
  case True
  with assms(1) have "su_closed s' = su_closed s" "su_ctx_done s \<Longrightarrow> su_ctx_done s'"
    "\<And>w. su_worker s w = Exited \<Longrightarrow> su_worker s' w = Exited"
    by (cases; force)+
  with True assms(2) show ?thesis by (intro pc_ok_keep [of s s']) (auto simp: su_ok_def)
next
  case False
  with assms show ?thesis by cases (auto simp: su_ok_def pc_ok_def)
qed

lemma su_step_ok:
  assumes "su_step x s l s'" and "su_ok s"
  shows "su_ok s'"
proof -
  have rest: "(\<forall>w. left_for_reason s' w) \<and> (su_ctx_done s' \<longrightarrow> su_parent_done s' \<or> indexingEnd (su_svc s') \<noteq> 0)
     \<and> (su_parent_done s' \<longrightarrow> su_ctx_done s') \<and> (su_errCh s' \<noteq> [] \<longrightarrow> su_ctx_done s') \<and> length (su_errCh s') + reporters s' \<le> 3"
    using assms
  proof cases
    case (indexes node svc)
    with indexing_iteration_keeps [OF indexes(5)] assms(2) show ?thesis by (auto simp: su_defs)
  next
    case (reaches_end node svc)
    with indexing_iteration_keeps [OF reaches_end(5)] assms(2) show ?thesis by (auto simp: su_defs)
  next
    case (indexing_panics node p svc)
    with indexing_iteration_keeps [OF indexing_panics(5)] assms(2) show ?thesis by (auto simp: su_defs)
  next
    case (reports w e)
    then have "su_ctx_done s" using assms(2) by (auto simp: su_ok_def left_for_reason_def dest: spec [of _ w])
    moreover have "Suc (reporters (s\<lparr>su_worker := (su_worker s)(w := Leaving None)\<rparr>)) = reporters s"
      using reports by (intro reporters_upd) simp_all
    ultimately show ?thesis using assms(2) reports by (simp add: su_ok_def left_for_reason_def)
  next
    case (exits w)
    then have "su_ctx_done s" using assms(2) by (auto simp: su_ok_def left_for_reason_def dest: spec [of _ w])
    moreover have "reporters (s\<lparr>su_worker := (su_worker s)(w := Exited)\<rparr>) = reporters s"
      using exits by (intro reporters_same) simp
    ultimately show ?thesis using assms(2) exits by (simp add: su_ok_def left_for_reason_def)
  next
    case (sees_done w)
    moreover have "reporters (s\<lparr>su_worker := (su_worker s)(w := Leaving (Some ErrCanceled))\<rparr>) = reporters s"
      using sees_done by (intro reporters_same) simp
    ultimately show ?thesis using assms(2) by (simp add: su_ok_def left_for_reason_def)
  next
    case cancels
    with assms(2) have "su_ctx_done s" by (simp add: su_ok_def pc_ok_def)
    with cancels assms(2) show ?thesis by (simp add: su_ok_def left_for_reason_def reporters_def)
  qed (auto simp: su_defs)
  with su_step_pc_ok [OF assms] show ?thesis unfolding su_ok_def by blast
qed

interpretation su: step_invariant "su_step x" su_ok for x
  by unfold_locales (rule su_step_ok)

text \<open>The configuration does not change, so whatever stops a run was configured at its start.\<close>

lemma su_reach_ok:
  assumes "su_reach x (spawned svc) s"
  shows "su_ok s \<and> indexingEnd (su_svc s) = indexingEnd svc \<and> enablePruning (su_svc s) = enablePruning svc"
  using assms
proof induction
  case reach_start
  show ?case using spawned_ok by (simp add: spawned_def)
next
  case (reach_step s l s')
  have "indexingEnd (su_svc s') = indexingEnd (su_svc s) \<and> enablePruning (su_svc s') = enablePruning (su_svc s)"
    using reach_step.hyps(2) by cases (auto dest: indexing_iteration_keeps)
  with reach_step su_step_ok show ?case by metis
qed

subsection \<open>When the service stops\<close>



text \<open>How far a goroutine is from its end.\<close>

definition start_rank :: "start_pc \<Rightarrow> nat" where
  "start_rank p = (case p of Supervising \<Rightarrow> 4 | Stopping \<Rightarrow> 3 | Closing \<Rightarrow> 2 | Awaiting \<Rightarrow> 1 | _ \<Rightarrow> 0)"

definition worker_rank :: "worker_pc \<Rightarrow> nat" where
  "worker_rank p = (case p of Looping \<Rightarrow> 3 | Leaving (Some e) \<Rightarrow> 2 | Leaving None \<Rightarrow> 1 | Exited \<Rightarrow> 0)"

lemmas rank_defs = start_rank_def worker_rank_def

lemma ranks_decrease:
  assumes "su_step x s l s'"
  shows "start_rank (su_pc s') \<le> start_rank (su_pc s) \<and> worker_rank (su_worker s' w) \<le> worker_rank (su_worker s w)"
  using assms by cases (auto simp: rank_defs split: start_pc.splits)

lemma start_enabled:
  assumes "su_ok s" and "su_ctx_done s" and "su_pc s \<noteq> Died"
  shows "(\<exists>r. su_pc s = Returned r) \<or> (\<exists>s'. su_step x s ByStart s' \<and> start_rank (su_pc s') < start_rank (su_pc s))"
proof (cases "su_pc s")
  case Supervising
  with su_step.context_done [of s x] assms(2) show ?thesis by (force simp: start_rank_def)
next
  case Stopping
  with su_step.cancels [of s x] show ?thesis by (force simp: start_rank_def)
next
  case Closing
  with su_step.closes [of s x] show ?thesis by (force simp: start_rank_def)
next
  case Awaiting
  with su_step.not_awaited [of s x] assms(2) show ?thesis by (force simp: start_rank_def)
qed (use assms(3) in auto)

lemma worker_enabled:
  assumes "su_ok s" and "su_ctx_done s" and "su_pc s \<noteq> Died"
  shows "su_worker s w = Exited \<or> (\<exists>s'. su_step x s (ByWorker w) s' \<and> worker_rank (su_worker s' w) < worker_rank (su_worker s w))"
proof (cases "su_worker s w")
  case Looping
  with su_step.sees_done [OF assms(3) _ assms(2), of w x] show ?thesis by (force simp: worker_rank_def)
next
  case (Leaving r)
  show ?thesis
  proof (cases r)
    case None
    with Leaving su_step.exits [OF assms(3), of w x] assms(2) show ?thesis by (force simp: worker_rank_def)
  next
    case (Some e)
    have "length (su_errCh s) < errCh_size" using assms(1) by (simp add: su_ok_def errCh_size_def)
    with Some Leaving su_step.reports [OF assms(3), of w e x] show ?thesis by (force simp: worker_rank_def)
  qed
qed auto

text \<open>
  C29: after the context is done, the shutdown cannot hang: until it has returned, \<open>Start\<close> always has a step that
  brings it closer to its return, and so has every worker until it has exited (the error channel is never
  full); no step of anyone takes another further away, and \<open>Start\<close> needs at most four of its own.
\<close>

theorem indexer_shutdown_never_blocks:
  assumes "su_reach x (spawned svc) s" and "su_ctx_done s" and "su_pc s \<noteq> Died"
  shows "((\<exists>r. su_pc s = Returned r) \<or> (\<exists>s'. su_step x s ByStart s' \<and> start_rank (su_pc s') < start_rank (su_pc s)))
    \<and> (su_worker s w = Exited \<or> (\<exists>s'. su_step x s (ByWorker w) s' \<and> worker_rank (su_worker s' w) < worker_rank (su_worker s w)))
    \<and> (\<forall>l s'. su_step x s l s' \<longrightarrow> start_rank (su_pc s') \<le> start_rank (su_pc s)
         \<and> worker_rank (su_worker s' w) \<le> worker_rank (su_worker s w))
    \<and> start_rank (su_pc s) \<le> 4"
proof -
  have ok: "su_ok s" using su_reach_ok [OF assms(1)] by blast
  have "start_rank (su_pc s) \<le> 4" by (simp add: start_rank_def split: start_pc.split)
  then show ?thesis
    by (intro conjI start_enabled [OF ok assms(2,3)] worker_enabled [OF ok assms(2,3)] allI impI ranks_decrease [THEN conjunct1]
        ranks_decrease [THEN conjunct2])
qed

theorem indexer_shutdown_never_blocks_witness:
  "\<exists>s'. su_step example_ext ((spawned example_service)\<lparr>su_parent_done := True, su_ctx_done := True\<rparr>) ByStart s'"
proof -
  let ?s = "(spawned example_service)\<lparr>su_parent_done := True, su_ctx_done := True\<rparr>"
  have r: "su_reach example_ext (spawned example_service) ?s"
    by (rule su_more [OF su_start su_step.parent_cancels]) (simp add: spawned_def)
  have pc: "su_pc ?s = Supervising" by (simp add: spawned_def)
  have "(\<exists>q. su_pc ?s = Returned q) \<or> (\<exists>s'. su_step example_ext ?s ByStart s' \<and> start_rank (su_pc s') < start_rank (su_pc ?s))"
    by (rule indexer_shutdown_never_blocks [OF r, THEN conjunct1]) (simp_all add: pc)
  with pc show ?thesis by auto
qed

subsection \<open>The end of the indexing range\<close>

text \<open>From a done context at the first \<open>select\<close>: the workers leave first, or \<open>Start\<close> does.\<close>

lemma done_same: "su_ctx_done s \<Longrightarrow> s\<lparr>su_ctx_done := True, su_pc := p\<rparr> = s\<lparr>su_pc := p\<rparr>"
  by (cases s) simp

lemma start_to_await:
  assumes "su_pc s = Supervising" and "su_ctx_done s"
  shows "su_reach x s (s\<lparr>su_closed := True, su_pc := Awaiting\<rparr>)"
proof -
  have "su_step x s ByStart (s\<lparr>su_pc := Stopping\<rparr>)" using assms by (rule su_step.context_done)
  moreover have "su_step x (s\<lparr>su_pc := Stopping\<rparr>) ByStart (s\<lparr>su_pc := Closing\<rparr>)"
    using su_step.cancels [of "s\<lparr>su_pc := Stopping\<rparr>" x] done_same [OF assms(2)] by simp
  moreover have "su_step x (s\<lparr>su_pc := Closing\<rparr>) ByStart (s\<lparr>su_closed := True, su_pc := Awaiting\<rparr>)"
    using su_step.closes [of "s\<lparr>su_pc := Closing\<rparr>" x] by simp
  ultimately show ?thesis by (blast intro: su_start su_more)
qed

lemma worker_leaves:
  assumes "su_ok s" and "su_ctx_done s" and "su_pc s \<noteq> Died"
  shows "\<exists>s'. su_reach x s s' \<and> su_worker s' w = Exited \<and> (\<forall>v. v \<noteq> w \<longrightarrow> su_worker s' v = su_worker s v)
    \<and> su_pc s' = su_pc s \<and> su_svc s' = su_svc s \<and> su_parent_done s' = su_parent_done s \<and> su_ctx_done s'"
proof -
  have "\<exists>s'. su_reach x s s' \<and> su_worker s' w = Exited \<and> (\<forall>v. v \<noteq> w \<longrightarrow> su_worker s' v = su_worker s v)
    \<and> su_pc s' = su_pc s \<and> su_svc s' = su_svc s \<and> su_parent_done s' = su_parent_done s \<and> su_ctx_done s'"
    if "su_ok s" "su_ctx_done s" "su_pc s \<noteq> Died" for s
    using that
  proof (induction "worker_rank (su_worker s w)" arbitrary: s rule: less_induct)
    case less
    have go: ?case if st: "su_step x s (ByWorker w) s1" and r: "worker_rank (su_worker s1 w) < worker_rank (su_worker s w)"
        and same: "\<forall>v. v \<noteq> w \<longrightarrow> su_worker s1 v = su_worker s v" "su_pc s1 = su_pc s" "su_svc s1 = su_svc s"
          "su_parent_done s1 = su_parent_done s" "su_ctx_done s1" for s1
      using less(1) [OF r su_step_ok [OF st less(2)] same(5)] same less(4)
        su_trans [OF _ su_more [OF su_start st]] by metis
    show ?case
    proof (cases "su_worker s w")
      case Looping
      from go [OF su_step.sees_done [OF less(4) this less(3)]] this less(3) show ?thesis by (simp add: worker_rank_def)
    next
      case Exited
      with less(3) show ?thesis by (blast intro: su_start su_more)
    next
      case (Leaving r)
      show ?thesis
      proof (cases r)
        case None
        with Leaving have lv: "su_worker s w = Leaving None" by simp
        from go [OF su_step.exits [OF less(4) lv]] lv less(3) show ?thesis by (simp add: worker_rank_def)
      next
        case (Some e)
        with Leaving have lv: "su_worker s w = Leaving (Some e)" by simp
        have "length (su_errCh s) < errCh_size" using less(2) by (simp add: su_ok_def errCh_size_def)
        from go [OF su_step.reports [OF less(4) lv this]] lv less(3) show ?thesis by (simp add: worker_rank_def)
      qed
    qed
  qed
  with assms show ?thesis by blast
qed

lemma shutdown_clean:
  assumes "su_ok s" and "su_pc s = Supervising" and "su_ctx_done s" and "\<not> su_parent_done s"
  shows "\<exists>s'. su_reach x s s' \<and> \<not> su_parent_done s' \<and> su_pc s' = Returned (Ok ()) \<and> su_svc s' = su_svc s"
proof -
  let ?c = "s\<lparr>su_closed := True, su_pc := Awaiting\<rparr>"
  have leave: "\<exists>s'. su_reach x ?c s' \<and> (\<forall>v. v \<in> set ws \<longrightarrow> su_worker s' v = Exited)
      \<and> su_pc s' = Awaiting \<and> su_svc s' = su_svc s \<and> \<not> su_parent_done s' \<and> su_ctx_done s'" for ws
  proof (induction ws)
    case Nil
    show ?case using assms by (intro exI [of _ ?c]) (simp add: su_start)
  next
    case (Cons w ws)
    then obtain s1 where s1: "su_reach x ?c s1" "\<forall>v. v \<in> set ws \<longrightarrow> su_worker s1 v = Exited" "su_pc s1 = Awaiting"
      "su_svc s1 = su_svc s" "\<not> su_parent_done s1" "su_ctx_done s1" by blast
    have "su_ok s1" using su.reach_inv [OF su_trans [OF s1(1) start_to_await [OF assms(2,3)]] assms(1)] .
    from worker_leaves [OF this s1(6), of x w] s1(3) obtain s2 where "su_reach x s1 s2" "su_worker s2 w = Exited"
      "\<forall>v. v \<noteq> w \<longrightarrow> su_worker s2 v = su_worker s1 v" "su_pc s2 = su_pc s1" "su_svc s2 = su_svc s1"
      "su_parent_done s2 = su_parent_done s1" "su_ctx_done s2" by auto
    with s1 su_trans [of x s1 s2] show ?case by (intro exI [of _ s2]) (metis set_ConsD)
  qed
  from leave [of "[IndexingWorker, HealthWorker, PruningWorker]"] obtain s1 where s1: "su_reach x ?c s1"
    "\<forall>w. su_worker s1 w = Exited" "su_pc s1 = Awaiting" "su_svc s1 = su_svc s" "\<not> su_parent_done s1"
    by (auto simp: all_workers)
  have "su_reach x s s1" by (rule su_trans [OF s1(1) start_to_await [OF assms(2,3)]])
  then have "su_reach x s (s1\<lparr>su_pc := Returned (Ok ())\<rparr>)"
    using su_step.all_exited [OF s1(3,2)] by (rule su_more)
  with s1 show ?thesis by (intro exI [of _ "s1\<lparr>su_pc := Returned (Ok ())\<rparr>"]) simp
qed

lemma shutdown_unclean:
  assumes "su_pc s = Supervising" and "su_ctx_done s" and "\<not> su_parent_done s" and "su_worker s HealthWorker = Looping"
  shows "\<exists>s'. su_reach x s s' \<and> \<not> su_parent_done s' \<and> su_pc s' = Returned (Err ErrCanceled)
    \<and> su_worker s' HealthWorker = Looping \<and> su_svc s' = health_iteration x node (su_svc s)"
proof -
  let ?h = "s\<lparr>su_svc := health_iteration x node (su_svc s)\<rparr>"
  let ?c = "?h\<lparr>su_closed := True, su_pc := Awaiting\<rparr>"
  have "su_step x s (ByWorker HealthWorker) ?h" using assms by (intro su_step.checks_health) simp_all
  moreover have "su_reach x ?h ?c" using assms by (intro start_to_await) simp_all
  moreover have "su_step x ?c ByStart (?c\<lparr>su_pc := Returned (Err ErrCanceled)\<rparr>)"
    using assms(2) by (intro su_step.not_awaited) simp_all
  ultimately have "su_reach x s (?c\<lparr>su_pc := Returned (Err ErrCanceled)\<rparr>)"
    by (blast intro: su_trans su_start su_more)
  with assms show ?thesis by (intro exI [of _ "?c\<lparr>su_pc := Returned (Err ErrCanceled)\<rparr>"]) simp
qed

text \<open>
  When the indexer reaches its configured end, \<open>Start\<close> may return no error with the service healthy, or
  \<open>context canceled\<close> with the health worker still running after a last health check: the context that its last
  \<open>select\<close> races against the workers is the one it has cancelled itself.
\<close>

lemma indexer_end_outcomes:
  assumes "su_reach x (spawned svc) s" and "su_pc s \<noteq> Died" and "\<not> su_ctx_done s"
    and "su_worker s IndexingWorker = Looping" and "indexing_iteration x node (su_svc s) = Some (Ok True, svc')"
  shows "(\<exists>s'. su_reach x s s' \<and> \<not> su_parent_done s' \<and> su_pc s' = Returned (Ok ()) \<and> Health (su_svc s') = Ok ())
    \<and> (\<exists>s'. su_reach x s s' \<and> \<not> su_parent_done s' \<and> su_pc s' = Returned (Err ErrCanceled)
         \<and> su_worker s' HealthWorker = Looping \<and> su_svc s' = health_iteration x node' (updateHealth True svc'))"
proof -
  have ok: "su_ok s" using su_reach_ok [OF assms(1)] by blast
  with assms(2,3) have sup: "su_pc s = Supervising" "\<not> su_parent_done s" "su_worker s HealthWorker = Looping"
    by (auto simp: su_defs pc_ok_def split: start_pc.splits)
  define a where "a = s\<lparr>su_svc := updateHealth True svc', su_worker := (su_worker s)(IndexingWorker := Leaving None)\<rparr>"
  define b where "b = a\<lparr>su_ctx_done := True\<rparr>"
  have "su_step x s (ByWorker IndexingWorker) a" unfolding a_def by (rule su_step.reaches_end [OF assms(2,4,5)])
  moreover have "su_step x a (ByWorker IndexingWorker) b"
    unfolding b_def using assms(3) sup by (intro su_step.indexer_cancels) (simp_all add: a_def)
  ultimately have b: "su_reach x s b" by (blast intro: su_start su_more)
  have bs: "su_pc b = Supervising" "su_ctx_done b" "\<not> su_parent_done b" "su_svc b = updateHealth True svc'"
      "su_worker b HealthWorker = Looping" "su_worker b IndexingWorker = Leaving None"
    using sup by (simp_all add: b_def a_def)
  have "su_ok b" using su_reach_ok su_trans [OF b assms(1)] by blast
  from shutdown_clean [OF this bs(1,2,3)] obtain s1 where "su_reach x b s1" "\<not> su_parent_done s1"
      "su_pc s1 = Returned (Ok ())" "su_svc s1 = su_svc b" by blast
  moreover from shutdown_unclean [OF bs(1,2,3,5)] obtain s2 where "su_reach x b s2" "\<not> su_parent_done s2"
      "su_pc s2 = Returned (Err ErrCanceled)" "su_worker s2 HealthWorker = Looping"
      "su_svc s2 = health_iteration x node' (su_svc b)" by blast
  moreover have "Health (updateHealth True svc') = Ok ()" by (simp add: Health_def updateHealth_def)
  ultimately show ?thesis using su_trans [OF _ b] bs(4) by metis
qed

text \<open>An example: the last indexed round is past the configured end, and the node is far ahead.\<close>

definition example_far_node :: NodeSource where
  "example_far_node = example_node\<lparr>ns_GetBlock := (\<lambda>t n. Inr (example_block\<lparr>ob_Round := 25\<rparr>))\<rparr>"

lemma example_end_reached:
  "indexing_iteration example_ext example_node (su_svc (spawned (example_indexed_service 10))) =
     Some (Ok True, (example_indexed_service 10)\<lparr>svc_calls := 1\<rparr>)"
  by (simp add: spawned_def indexing_iteration_def start_at_def on_backend_def cb_QueryLastIndexedRound_def ask_def ret_def
      example_indexed_service_def example_service_def New_def example_config_def example_node_def)

lemma example_far_unhealthy:
  "Health (health_iteration example_ext example_far_node (updateHealth True ((example_indexed_service 10)\<lparr>svc_calls := 1\<rparr>))) = Err ErrNotHealthy"
  by (simp add: Health_def health_iteration_def updateHealth_def on_backend_def cb_QueryLastIndexedRound_def ask_def Let_def
      example_far_node_def example_indexed_service_def example_service_def New_def healthCheckIndexerDriftThreshold_def)

end
