(* ===== verification/Event_Clients.thy ===== *)
theory Event_Clients
  imports Event_System Step_Systems
begin

text \<open>
  The client side of the event system: \<open>subscribe\<close> and \<open>Unsubscribe\<close> of \<^verbatim>\<open>filters/event_system.go\<close> and the
  goroutine that \<open>NewHeads\<close> and \<open>Logs\<close> of \<^verbatim>\<open>rpc/eth/filters/api.go\<close> start for every subscription, run
  beside the event loop. A step of \<open>ec_step\<close> is a step of one goroutine, or a channel operation in which the
  loop and the client take part together: the channels between them are unbuffered.
\<close>

subsection \<open>The goroutine of a subscription\<close>

text \<open>
  Where a client is: at \<open>es.install <- sub\<close>, at \<open><-sub.installed\<close>, at the \<open>select\<close> of its loop, inside
  \<open>notifier.Notify\<close> with what it received, at the \<open>select\<close> of \<open>Unsubscribe\<close>, at \<open><-sub.Err()\<close>, and after its return.
\<close>

datatype client_pc = Subscribing | AwaitInstalled | Listening | Notifying payload | Unsubscribing | AwaitErr | Gone

text \<open>The clients by the identifier \<open>rpc.NewID()\<close> gave to their subscription.\<close>

type_synonym clients = "string \<Rightarrow> (subscription \<times> client_pc) option"

type_synonym connected = "eventSystem \<times> clients"

definition moves :: "subscription \<Rightarrow> client_pc \<Rightarrow> clients \<Rightarrow> clients" where
  "moves f p cl = cl(sub_id f \<mapsto> (f, p))"

definition client_at :: "clients \<Rightarrow> subscription \<Rightarrow> client_pc \<Rightarrow> bool" where
  "client_at cl f p \<longleftrightarrow> cl (sub_id f) = Some (f, p)"

lemma client_at_moves [simp]:
  "client_at (moves f p cl) g q \<longleftrightarrow> (if sub_id g = sub_id f then g = f \<and> q = p else client_at cl g q)"
  by (auto simp: client_at_def moves_def)

text \<open>
  The labels say who chose the step: the environment (a block is indexed, a request arrives, the remote side
  unsubscribes) or the goroutines of the gateway.
\<close>

datatype ec_label = Env | Gateway es_label | Returns subscription

inductive ec_step :: "ext \<Rightarrow> connected \<Rightarrow> ec_label \<Rightarrow> connected \<Rightarrow> bool" for x :: ext where
  indexed: "es_step x s (Published ev) s' \<Longrightarrow> ec_step x (s, cl) Env (s', cl)"
| request: "cl newID = None \<Longrightarrow> f = SubscribeNewHeads newID \<or> SubscribeLogs tags newID crit = Ok f \<Longrightarrow>
    ec_step x (s, cl) Env (s, moves f Subscribing cl)"
| leaves: "client_at cl f Listening \<Longrightarrow> ec_step x (s, cl) Env (s, moves f Unsubscribing cl)"
| loop_receives: "es_step x s (Received ev) s' \<Longrightarrow> ec_step x (s, cl) (Gateway (Received ev)) (s', cl)"
| loop_internal: "es_step x s Internal s' \<Longrightarrow> ec_step x (s, cl) (Gateway Internal) (s', cl)"
| loop_panics: "es_step x s LoopPanic s' \<Longrightarrow> ec_step x (s, cl) (Gateway LoopPanic) (s', cl)"
| installs: "es_step x s (Installed f) s' \<Longrightarrow> client_at cl f Subscribing \<Longrightarrow>
    ec_step x (s, cl) (Gateway (Installed f)) (s', moves f AwaitInstalled cl)"
| subscribed: "client_at cl f AwaitInstalled \<Longrightarrow> ec_step x (s, cl) (Returns f) (s, moves f Listening cl)"
| delivers: "es_step x s (Sent f m) s' \<Longrightarrow> client_at cl f Listening \<Longrightarrow>
    ec_step x (s, cl) (Gateway (Sent f m)) (s', moves f (Notifying m) cl)"
| notified: "client_at cl f (Notifying m) \<Longrightarrow> ec_step x (s, cl) (Returns f) (s, moves f Listening cl)"
| drains: "es_step x s (Sent f m) s' \<Longrightarrow> client_at cl f Unsubscribing \<Longrightarrow>
    ec_step x (s, cl) (Gateway (Sent f m)) (s', cl)"
| uninstalls: "es_step x s (Uninstalled f) s' \<Longrightarrow> client_at cl f Unsubscribing \<Longrightarrow>
    ec_step x (s, cl) (Gateway (Uninstalled f)) (s', moves f AwaitErr cl)"
| unsubscribed: "client_at cl f AwaitErr \<Longrightarrow> ec_step x (s, cl) (Returns f) (s, moves f Gone cl)"

abbreviation ec_reach :: "ext \<Rightarrow> connected \<Rightarrow> bool" where
  "ec_reach x \<equiv> reach (ec_step x) (NewEventSystem, \<lambda>_. None)"

lemmas ec_start = reach_start [where step = "ec_step x" for x]
  and ec_more = reach_step [where step = "ec_step x" for x]

text \<open>The gateway on its own: steps that wait for nothing from outside.\<close>

abbreviation ec_runs :: "ext \<Rightarrow> connected \<Rightarrow> connected \<Rightarrow> bool" where
  "ec_runs x \<equiv> reach (\<lambda>c l c'. l \<noteq> Env \<and> ec_step x c l c')"

subsection \<open>The invariant\<close>

text \<open>A client the loop may still write to.\<close>

definition reads :: "client_pc \<Rightarrow> bool" where
  "reads p \<longleftrightarrow> p = AwaitInstalled \<or> p = Listening \<or> (\<exists>m. p = Notifying m) \<or> p = Unsubscribing"

lemma reads_simps [simp]: "reads AwaitInstalled" "reads Listening" "reads (Notifying m)" "reads Unsubscribing"
    "\<not> reads Subscribing" "\<not> reads AwaitErr" "\<not> reads Gone"
  by (simp_all add: reads_def)

text \<open>The index of the loop holds exactly the subscriptions whose client reads, each under its own identifier.\<close>

definition ec_ok :: "connected \<Rightarrow> bool" where
  "ec_ok c \<longleftrightarrow> (case c of (s, cl) \<Rightarrow> es_ok s \<and> es_pc s \<noteq> Stopped \<and> (\<forall>k f p. cl k = Some (f, p) \<longrightarrow> sub_id f = k)
     \<and> (\<forall>f. is_installed f s \<longleftrightarrow> (\<exists>p. client_at cl f p \<and> reads p)))"

lemma is_installed_frame [simp]:
  "is_installed f (s\<lparr>es_pc := p\<rparr>) = is_installed f s" "is_installed f (s\<lparr>es_chainCh := q\<rparr>) = is_installed f s"
  by (simp_all add: is_installed_def)

lemma es_step_installed:
  assumes "es_step x s l s'" and "\<And>f. l \<noteq> Installed f" and "\<And>f. l \<noteq> Uninstalled f"
  shows "is_installed f s' = is_installed f s"
  using assms by cases auto

lemma request_id: "f = SubscribeNewHeads newID \<or> SubscribeLogs tags newID crit = Ok f \<Longrightarrow> sub_id f = newID"
  by (auto simp: SubscribeNewHeads_def SubscribeLogs_def subscribeLogs_def Let_def split: if_splits)

lemma client_at_unique: "client_at cl f p \<Longrightarrow> client_at cl g q \<Longrightarrow> sub_id f = sub_id g \<Longrightarrow> f = g \<and> p = q"
  by (simp add: client_at_def)

lemma is_installed_install: "is_installed g (install_sub f s) \<longleftrightarrow>
    (if sub_id g = sub_id f \<and> sub_typ g = sub_typ f then g = f else is_installed g s)"
  by (auto simp: is_installed_def install_sub_def)

lemma is_installed_uninstall: "is_installed g (uninstall_sub f s) \<longleftrightarrow>
    \<not> (sub_id g = sub_id f \<and> sub_typ g = sub_typ f) \<and> is_installed g s"
  by (auto simp: is_installed_def uninstall_sub_def)

text \<open>A client that moves between two points of the same kind.\<close>

lemma ec_ok_moves:
  assumes "ec_ok (s, cl)" and "client_at cl f p" and "reads p = reads q"
  shows "ec_ok (s, moves f q cl)"
  unfolding ec_ok_def split
proof (intro conjI allI impI)
  show "es_ok s" "es_pc s \<noteq> Stopped" using assms(1) by (simp_all add: ec_ok_def)
  show "sub_id g = k" if "moves f q cl k = Some (g, r)" for k g r
    using that assms(1) by (auto simp: ec_ok_def moves_def split: if_splits)
  show "is_installed g s = (\<exists>r. client_at (moves f q cl) g r \<and> reads r)" for g
  proof (cases "sub_id g = sub_id f")
    case True
    then have "(\<exists>r. client_at cl g r \<and> reads r) \<longleftrightarrow> g = f \<and> reads q"
      using assms(2,3) by (auto dest: client_at_unique)
    with True assms(1) show ?thesis by (auto simp: ec_ok_def)
  qed (use assms(1) in \<open>simp add: ec_ok_def\<close>)
qed

lemma ec_ok_loop:
  assumes "ec_ok (s, cl)" and "es_step x s l s'" and "\<And>f. l \<noteq> Installed f" and "\<And>f. l \<noteq> Uninstalled f" and "l \<noteq> SystemStopped"
  shows "ec_ok (s', cl)"
proof -
  have "es_pc s' \<noteq> Stopped" using assms(2,1,5) by cases (auto simp: ec_ok_def install_sub_def uninstall_sub_def)
  then show ?thesis using assms(1) es_step_ok [OF assms(2)] es_step_installed [OF assms(2-4)] by (simp add: ec_ok_def)
qed

lemma install_pc [simp]: "es_pc (install_sub f s) = es_pc s" "es_pc (uninstall_sub f s) = es_pc s"
  by (simp_all add: install_sub_def uninstall_sub_def)

lemma ec_step_ok:
  assumes "ec_step x c l c'" and "ec_ok c"
  shows "ec_ok c'"
  using assms
proof cases
  case (request cl newID f tags crit s)
  then have id: "sub_id f = newID" using request_id by blast
  with request assms(2) have "\<not> is_installed g s" if "sub_id g = newID" for g
    using that by (auto simp: ec_ok_def client_at_def)
  with request assms(2) id show ?thesis by (auto simp: ec_ok_def moves_def client_at_def)
next
  case (installs s f s' cl)
  then have s': "s' = install_sub f s" by (auto elim: es_step.cases)
  have "\<not> is_installed g s" if "sub_id g = sub_id f" for g
    using that installs assms(2) by (auto simp: ec_ok_def dest: client_at_unique)
  with installs assms(2) es_step_ok [OF installs(4)] show ?thesis
    by (auto simp: ec_ok_def s' is_installed_install moves_def [of f AwaitInstalled] client_at_def)
next
  case (uninstalls s f s' cl)
  then have s': "s' = uninstall_sub f s" by (auto elim: es_step.cases)
  have "g = f" if "sub_id g = sub_id f" "is_installed g s" for g
    using that uninstalls assms(2) by (auto simp: ec_ok_def dest: client_at_unique)
  with uninstalls assms(2) es_step_ok [OF uninstalls(4)] show ?thesis
    by (auto simp: ec_ok_def s' is_installed_uninstall moves_def [of f AwaitErr] client_at_def)
next
  case (delivers s f m s' cl)
  have "ec_ok (s', cl)" using ec_ok_loop [OF _ delivers(4)] assms(2) delivers by simp
  with ec_ok_moves delivers show ?thesis by fastforce
qed (use assms(2) in \<open>auto intro: ec_ok_moves ec_ok_loop\<close>)

interpretation ec: step_invariant "ec_step x" ec_ok for x
  by unfold_locales (rule ec_step_ok)

lemma ec_start_ok: "ec_ok (NewEventSystem, \<lambda>_. None)"
proof -
  have "gm_load (index_map (es_index NewEventSystem) t) k = None" for t k
    by (cases t) (simp_all add: NewEventSystem_def index_map_def gm_load_def)
  then show ?thesis using new_event_system_ok
    by (simp add: ec_ok_def is_installed_def client_at_def) (simp add: NewEventSystem_def)
qed

lemma ec_reach_ok: "ec_reach x c \<Longrightarrow> ec_ok c"
  using ec.reach_inv ec_start_ok by blast

lemma ec_runs_ok: "ec_runs x c c' \<Longrightarrow> ec_ok c \<Longrightarrow> ec_ok c'"
proof -
  assume "ec_runs x c c'" and ok: "ec_ok c"
  then have "reach (ec_step x) c c'" by (elim reach_mono) simp
  then show "ec_ok c'" using ok by (rule ec.reach_inv)
qed

lemma ec_runs_trans: "ec_runs x c1 c2 \<Longrightarrow> ec_runs x c2 c3 \<Longrightarrow> ec_runs x c1 c3"
  by (rule reach_trans)

lemma ec_runs_one: "ec_step x c l c' \<Longrightarrow> l \<noteq> Env \<Longrightarrow> ec_runs x c c'"
  by (rule reach_one) simp

subsection \<open>Every send finds a reader\<close>

lemma served_reads:
  assumes "ec_ok (s, cl)" and "served_by s t fs" and "g \<in> set fs"
  shows "\<exists>p. client_at cl g p \<and> reads p"
proof -
  have "g \<in> set (installed s t)" using assms(2,3) by (auto simp: served_by_def)
  moreover have "sub_typ g = t" using assms served_typ [of s t fs g] by (auto simp: ec_ok_def)
  ultimately have "is_installed g s" using assms(1) is_installed_mem [of s g] by (auto simp: ec_ok_def es_ok_def)
  with assms(1) show ?thesis by (auto simp: ec_ok_def)
qed

text \<open>
  No message goes to a subscription whose \<open>Unsubscribe\<close> has returned or whose installation was not
  requested: whenever the loop has subscriptions still to serve, each of them has a goroutine that reads its channel
  now or after its current call returns.
\<close>

lemma loop_writes_only_to_readers:
  assumes "ec_reach x (s, cl)" and "es_pc s = SendingLogs ev fs \<or> es_pc s = SendingHeads ev fs" and "f \<in> set fs"
  shows "\<exists>p. client_at cl f p \<and> reads p"
proof -
  have ok: "ec_ok (s, cl)" by (rule ec_reach_ok [OF assms(1)])
  then obtain t where "served_by s t fs" using assms(2) by (auto simp: ec_ok_def es_ok_def)
  with ok assms(3) show ?thesis by (blast intro: served_reads)
qed

text \<open>An example: the loop is about to write a header to the one client, which is already leaving.\<close>

definition example_head_sub :: subscription where
  "example_head_sub = SubscribeNewHeads ''1''"

definition example_busy :: eventSystem where
  "example_busy = (install_sub example_head_sub NewEventSystem)\<lparr>es_pc := SendingHeads example_event [example_head_sub]\<rparr>"

definition example_leaving :: clients where
  "example_leaving = (moves example_head_sub Unsubscribing \<circ> moves example_head_sub Listening
     \<circ> moves example_head_sub AwaitInstalled \<circ> moves example_head_sub Subscribing) (\<lambda>_. None)"

lemma example_leaving_at: "client_at example_leaving example_head_sub Unsubscribing"
  by (simp add: example_leaving_def)

lemma example_busy_reach: "ec_reach example_ext (example_busy, example_leaving)"
proof -
  let ?f = example_head_sub
  let ?i = "install_sub ?f NewEventSystem"
  let ?c1 = "moves ?f Subscribing (\<lambda>_. None)"
  let ?c2 = "moves ?f AwaitInstalled ?c1"
  let ?c3 = "moves ?f Listening ?c2"
  have pc: "es_pc NewEventSystem = Waiting" "es_chainCh NewEventSystem = []" by (simp_all add: NewEventSystem_def)
  have t: "sub_typ ?f = BlocksSubscription" "sub_id ?f = ''1''" by (simp_all add: example_head_sub_def SubscribeNewHeads_def)
  have n: "index_map (es_index NewEventSystem) t = []" for t
    by (cases t) (simp_all add: NewEventSystem_def index_map_def gm_load_def)
  have ix: "index_map (es_index ?i) LogsSubscription = []" "index_map (es_index ?i) BlocksSubscription = gm_store ''1'' ?f []"
    by (simp_all add: install_sub_def t n)
  have inst: "installed ?i LogsSubscription = []" "installed ?i BlocksSubscription = [?f]"
    unfolding installed_def Let_def ix by (simp_all add: gm_keys_def gm_store_def gm_load_def)
  have ch: "es_chainCh ?i = []" using pc by (simp add: install_sub_def)
  let ?p = "?i\<lparr>es_chainCh := [example_event]\<rparr>"
  let ?r = "?i\<lparr>es_pc := SendingLogs example_event []\<rparr>"
  have 1: "ec_step example_ext (NewEventSystem, \<lambda>_. None) Env (NewEventSystem, ?c1)"
    by (rule ec_step.request [of _ "''1''"]) (simp_all add: example_head_sub_def)
  have 2: "ec_step example_ext (NewEventSystem, ?c1) (Gateway (Installed ?f)) (?i, ?c2)"
    by (intro ec_step.installs es_step.install) (simp_all add: pc)
  have 3: "ec_step example_ext (?i, ?c2) (Returns ?f) (?i, ?c3)" by (intro ec_step.subscribed) simp
  have 4: "ec_step example_ext (?i, ?c3) Env (?i, example_leaving)"
    using ec_step.leaves [of ?c3 ?f example_ext ?i] by (simp add: example_leaving_def)
  have 5: "ec_step example_ext (?i, example_leaving) Env (?p, example_leaving)"
    by (rule ec_step.indexed [of _ _ example_event])
      (use es_step.publish [of example_ext ?i example_event] ch in \<open>simp add: send_or_drop_def chainEvChanSize_def\<close>)
  have eq: "?p\<lparr>es_chainCh := [], es_pc := q\<rparr> = ?i\<lparr>es_pc := q\<rparr>" for q using ch by (cases ?i) simp
  have 6: "ec_step example_ext (?p, example_leaving) (Gateway (Received example_event)) (?r, example_leaving)"
    by (rule ec_step.loop_receives)
      (use es_step.receive [of ?p example_event "[]" "[]" example_ext] inst pc eq in simp)
  have 7: "ec_step example_ext (?r, example_leaving) (Gateway Internal) (example_busy, example_leaving)"
    by (rule ec_step.loop_internal)
      (use es_step.logs_done [of ?r example_event "[?f]" example_ext] inst in \<open>simp add: example_busy_def\<close>)
  note more = ec_more
  show ?thesis by (rule more [OF more [OF more [OF more [OF more [OF more [OF more [OF ec_start 1] 2] 3] 4] 5] 6] 7])
qed

lemma loop_writes_only_to_readers_example:
  "\<exists>p. client_at example_leaving example_head_sub p \<and> reads p"
  using loop_writes_only_to_readers [OF example_busy_reach, of example_event "[example_head_sub]" example_head_sub]
  by (simp add: example_busy_def)

subsection \<open>Unsubscribing\<close>

text \<open>What the steps of the gateway keep of the clients that are leaving.\<close>

definition still_leaving :: "clients \<Rightarrow> clients \<Rightarrow> bool" where
  "still_leaving cl cl' \<longleftrightarrow> (\<forall>f. client_at cl f Unsubscribing \<longrightarrow> client_at cl' f Unsubscribing)"

lemma still_leaving_trans: "still_leaving a b \<Longrightarrow> still_leaving b c \<Longrightarrow> still_leaving a c"
  by (simp add: still_leaving_def)

lemma still_leaving_refl [simp]: "still_leaving cl cl"
  by (simp add: still_leaving_def)

lemma still_leaving_moves: "client_at cl f p \<Longrightarrow> p \<noteq> Unsubscribing \<Longrightarrow> still_leaving cl (moves f q cl)"
  by (auto simp: still_leaving_def dest: client_at_unique)

lemma reader_ready:
  assumes "client_at cl g p" and "reads p"
  shows "\<exists>cl'. ec_runs x (s, cl) (s, cl') \<and> (client_at cl' g Listening \<or> client_at cl' g Unsubscribing) \<and> still_leaving cl cl'"
proof (cases p)
  case AwaitInstalled
  with assms ec_step.subscribed [of cl g x s] show ?thesis
    by (intro exI [of _ "moves g Listening cl"]) (auto intro: ec_runs_one still_leaving_moves)
next
  case (Notifying m)
  with assms ec_step.notified [of cl g m x s] show ?thesis
    by (intro exI [of _ "moves g Listening cl"]) (auto intro: ec_runs_one still_leaving_moves)
qed (use assms in \<open>auto intro: reach_start exI [of _ cl]\<close>)

lemma send_happens:
  assumes "client_at cl g p" and "reads p" and st: "es_step x s (Sent g m) s'"
  shows "\<exists>cl'. ec_runs x (s, cl) (s', cl') \<and> still_leaving cl cl'"
proof -
  obtain cl1 where r: "ec_runs x (s, cl) (s, cl1)" "client_at cl1 g Listening \<or> client_at cl1 g Unsubscribing" "still_leaving cl cl1"
    using reader_ready [OF assms(1,2)] by blast
  have "\<exists>cl'. ec_runs x (s, cl1) (s', cl') \<and> still_leaving cl1 cl'"
  proof (cases "client_at cl1 g Unsubscribing")
    case True
    from ec_runs_one [OF ec_step.drains [OF st True]] show ?thesis by (intro exI [of _ cl1]) simp
  next
    case False
    with r(2) have l: "client_at cl1 g Listening" by blast
    from ec_runs_one [OF ec_step.delivers [OF st l]] still_leaving_moves [OF l] show ?thesis
      by (intro exI [of _ "moves g (Notifying m) cl1"]) simp
  qed
  with r show ?thesis by (blast intro: ec_runs_trans still_leaving_trans)
qed

lemma logs_finish:
  "ec_ok (s, cl) \<Longrightarrow> es_pc s = SendingLogs ev fs \<Longrightarrow>
     \<exists>cl'. ec_runs x (s, cl) (s\<lparr>es_pc := SendingLogs ev []\<rparr>, cl') \<and> still_leaving cl cl'"
proof (induction fs arbitrary: s cl)
  case Nil
  then have "s\<lparr>es_pc := SendingLogs ev []\<rparr> = s" by (cases s) simp
  then show ?case by (auto intro: reach_start)
next
  case (Cons g gs)
  let ?s = "s\<lparr>es_pc := SendingLogs ev gs\<rparr>"
  have "\<exists>cl1. ec_runs x (s, cl) (?s, cl1) \<and> still_leaving cl cl1"
  proof (cases "matched_logs x g ev = []")
    case True
    from ec_runs_one [OF ec_step.loop_internal [OF es_step.no_logs [OF Cons.prems(2) True]]] show ?thesis
      by (intro exI [of _ cl]) simp
  next
    case False
    from Cons.prems have "served_by s LogsSubscription (g # gs)" by (simp add: ec_ok_def es_ok_def)
    from served_reads [OF Cons.prems(1) this, of g] obtain p where "client_at cl g p" "reads p" by auto
    from send_happens [OF this es_step.send_logs [OF Cons.prems(2) False]] show ?thesis .
  qed
  then obtain cl1 where r: "ec_runs x (s, cl) (?s, cl1)" "still_leaving cl cl1" by blast
  from Cons.IH [OF ec_runs_ok [OF r(1) Cons.prems(1)]] r show ?case
    by (auto intro: ec_runs_trans still_leaving_trans)
qed

lemma heads_finish:
  "ec_ok (s, cl) \<Longrightarrow> es_pc s = SendingHeads ev fs \<Longrightarrow> DB2EthHeader x (ce_Block ev) = Ok h \<Longrightarrow>
     \<exists>cl'. ec_runs x (s, cl) (s\<lparr>es_pc := Waiting\<rparr>, cl') \<and> still_leaving cl cl'"
proof (induction fs arbitrary: s cl)
  case Nil
  from ec_runs_one [OF ec_step.loop_internal [OF es_step.heads_done [OF Nil(2)]]] show ?case
    by (intro exI [of _ cl]) simp
next
  case (Cons g gs)
  let ?s = "s\<lparr>es_pc := SendingHeads ev gs\<rparr>"
  from Cons.prems have "served_by s BlocksSubscription (g # gs)" by (simp add: ec_ok_def es_ok_def)
  from served_reads [OF Cons.prems(1) this, of g] obtain p where "client_at cl g p" "reads p" by auto
  from send_happens [OF this es_step.send_head [OF Cons.prems(2,3)]] obtain cl1
    where r: "ec_runs x (s, cl) (?s, cl1)" "still_leaving cl cl1" by blast
  from Cons.IH [OF ec_runs_ok [OF r(1) Cons.prems(1)] _ Cons.prems(3)] r show ?case
    by (auto intro: ec_runs_trans still_leaving_trans)
qed

text \<open>The event the loop is handling.\<close>

definition handling :: "eventSystem \<Rightarrow> ChainEvent option" where
  "handling s = (case es_pc s of SendingLogs ev fs \<Rightarrow> Some ev | SendingHeads ev fs \<Rightarrow> Some ev | _ \<Rightarrow> None)"

lemma loop_returns:
  assumes "ec_ok (s, cl)" and "es_pc s \<noteq> Crashed" and "\<And>ev. handling s = Some ev \<Longrightarrow> \<exists>h. DB2EthHeader x (ce_Block ev) = Ok h"
  shows "\<exists>s' cl'. ec_runs x (s, cl) (s', cl') \<and> es_pc s' = Waiting \<and> still_leaving cl cl'"
proof (cases "es_pc s")
  case Waiting
  then show ?thesis by (intro exI [of _ s] exI [of _ cl]) (simp add: reach_start)
next
  case (SendingHeads ev fs)
  with assms(3) obtain h where "DB2EthHeader x (ce_Block ev) = Ok h" by (auto simp: handling_def)
  from heads_finish [OF assms(1) SendingHeads this] show ?thesis by fastforce
next
  case (SendingLogs ev fs)
  with assms(3) obtain h where h: "DB2EthHeader x (ce_Block ev) = Ok h" by (auto simp: handling_def)
  from logs_finish [OF assms(1) SendingLogs] obtain cl1
    where r1: "ec_runs x (s, cl) (s\<lparr>es_pc := SendingLogs ev []\<rparr>, cl1)" "still_leaving cl cl1" by blast
  let ?s1 = "s\<lparr>es_pc := SendingLogs ev []\<rparr>"
  let ?s2 = "?s1\<lparr>es_pc := SendingHeads ev (installed ?s1 BlocksSubscription)\<rparr>"
  have st: "es_step x ?s1 Internal ?s2" by (rule es_step.logs_done) simp_all
  have r2: "ec_runs x (s, cl) (?s2, cl1)"
    using ec_runs_trans [OF r1(1) ec_runs_one [OF ec_step.loop_internal [OF st]]] by blast
  from heads_finish [OF ec_runs_ok [OF r2 assms(1)] _ h] obtain cl2
    where r3: "ec_runs x (?s2, cl1) (?s2\<lparr>es_pc := Waiting\<rparr>, cl2)" "still_leaving cl1 cl2" by auto
  show ?thesis
    using ec_runs_trans [OF r2 r3(1)] still_leaving_trans [OF r1(2) r3(2)] by fastforce
qed (use assms in \<open>auto simp: ec_ok_def\<close>)

text \<open>
  C15: \<open>Unsubscribe\<close> cannot deadlock with the event loop, even while the loop is writing to the subscription
  that is leaving: from every reachable state the goroutines of the gateway alone can bring the client to its
  return (the other clients only have to return from the notification they are in), as long as the loop has not panicked
  and the header of the event it is handling decodes.
\<close>

theorem unsubscribe_completes:
  assumes "ec_reach x (s, cl)" and "client_at cl f Unsubscribing" and "es_pc s \<noteq> Crashed"
    and "\<And>ev. handling s = Some ev \<Longrightarrow> \<exists>h. DB2EthHeader x (ce_Block ev) = Ok h"
  shows "\<exists>s' cl'. ec_runs x (s, cl) (s', cl') \<and> client_at cl' f Gone \<and> \<not> is_installed f s'"
proof -
  have ok: "ec_ok (s, cl)" by (rule ec_reach_ok [OF assms(1)])
  from loop_returns [OF ok assms(3,4)] obtain s1 cl1 where r1: "ec_runs x (s, cl) (s1, cl1)" "es_pc s1 = Waiting" "still_leaving cl cl1"
    by blast
  then have l: "client_at cl1 f Unsubscribing" using assms(2) by (simp add: still_leaving_def)
  have "ec_runs x (s1, cl1) (uninstall_sub f s1, moves f AwaitErr cl1)"
    by (rule ec_runs_one [OF ec_step.uninstalls [OF es_step.uninstall [OF r1(2)] l]]) simp
  moreover have "ec_runs x (uninstall_sub f s1, moves f AwaitErr cl1) (uninstall_sub f s1, moves f Gone (moves f AwaitErr cl1))"
    by (rule ec_runs_one [OF ec_step.unsubscribed]) simp_all
  ultimately have "ec_runs x (s, cl) (uninstall_sub f s1, moves f Gone (moves f AwaitErr cl1))"
    using r1(1) by (blast intro: ec_runs_trans)
  moreover have "\<not> is_installed f (uninstall_sub f s1)" by (simp add: is_installed_uninstall)
  ultimately show ?thesis by (intro exI [of _ "uninstall_sub f s1"] exI [of _ "moves f Gone (moves f AwaitErr cl1)"]) simp
qed

theorem unsubscribe_completes_witness:
  "\<exists>s' cl'. ec_runs example_ext (example_busy, example_leaving) (s', cl') \<and> client_at cl' example_head_sub Gone"
proof -
  have "\<exists>h. DB2EthHeader example_ext (ce_Block ev) = Ok h" if "handling example_busy = Some ev" for ev
    using that by (auto simp: handling_def example_busy_def DB2EthHeader_def example_event_def zero_Block_def)
  moreover have "es_pc example_busy \<noteq> Crashed" by (simp add: example_busy_def)
  ultimately show ?thesis
    using unsubscribe_completes [OF example_busy_reach example_leaving_at] by blast
qed

end
