(* ===== verification/Gas_Service.thy ===== *)
theory Gas_Service
  imports Gas_Oracle
begin

text \<open>
  \<^verbatim>\<open>gas/backend.go\<close>: \<open>Start\<close> of the gas price oracle. Its loop tracks every block it receives, and a goroutine
  started by it queries the node's price beside it; the flag \<open>queryInProgress\<close> is to keep a second query from
  starting. Which blocks arrive and what the node answers is decided outside: the labels carry both.
\<close>

subsection \<open>The watcher and its query\<close>

datatype wa_pc = Watching | Tracking BlockData | WatchEnded "unit outcome"

text \<open>
  \<open>wa_fetches\<close> holds the rounds of the goroutines that are still in \<open>fetchMinGasPrice\<close>, \<open>wa_releasing\<close> counts those
  that have left it and not yet cleared the flag.
\<close>

record watcher =
  wa_oracle :: gasPriceOracle
  wa_queryInProgress :: bool
  wa_fetches :: "u64 list"
  wa_releasing :: nat
  wa_pc :: wa_pc

definition watching :: "gasPriceOracle \<Rightarrow> watcher" where
  "watching g = \<lparr>wa_oracle = g, wa_queryInProgress = False, wa_fetches = [], wa_releasing = 0, wa_pc = Watching\<rparr>"

definition gas_Start :: "gerror + unit \<Rightarrow> gasPriceOracle \<Rightarrow> unit outcome + watcher" where
  "gas_Start WatchBlocks g = (case WatchBlocks of
       Inl e \<Rightarrow> Inl (Err (Wrapf ''gas: failed to watch blocks'' e))
     | Inr _ \<Rightarrow> Inr (watching g))"

definition spawn_query :: "u64 \<Rightarrow> watcher \<Rightarrow> watcher" where
  "spawn_query n w = (if wa_queryInProgress w then w
     else w\<lparr>wa_queryInProgress := True, wa_fetches := wa_fetches w @ [n]\<rparr>)"

datatype wa_label = Watched BlockData | Tracked | Fetched u64 "gerror + nat option" | Released | Ended

inductive wa_step :: "watcher \<Rightarrow> wa_label \<Rightarrow> watcher \<Rightarrow> bool" where
  receives: "wa_pc w = Watching \<Longrightarrow>
    wa_step w (Watched bd) ((spawn_query (blk_Round (bd_Block bd)) w)\<lparr>wa_pc := Tracking bd\<rparr>)"
| tracks: "wa_pc w = Tracking bd \<Longrightarrow> on_watched_block bd (wa_oracle w) = (Ok (), g) \<Longrightarrow>
    wa_step w Tracked (w\<lparr>wa_oracle := g, wa_pc := Watching\<rparr>)"
| track_panics: "wa_pc w = Tracking bd \<Longrightarrow> on_watched_block bd (wa_oracle w) = (Panic p, g) \<Longrightarrow>
    wa_step w Tracked (w\<lparr>wa_oracle := g, wa_pc := WatchEnded (Panic p)\<rparr>)"
| fetches: "(\<forall>p. wa_pc w \<noteq> WatchEnded (Panic p)) \<Longrightarrow> n \<in> set (wa_fetches w) \<Longrightarrow>
    wa_step w (Fetched n answer) (w\<lparr>wa_oracle := fetchMinGasPrice answer (wa_oracle w),
      wa_fetches := remove1 n (wa_fetches w), wa_releasing := Suc (wa_releasing w)\<rparr>)"
| releases: "(\<forall>p. wa_pc w \<noteq> WatchEnded (Panic p)) \<Longrightarrow> wa_releasing w = Suc k \<Longrightarrow>
    wa_step w Released (w\<lparr>wa_queryInProgress := False, wa_releasing := k\<rparr>)"
| ends: "wa_pc w = Watching \<Longrightarrow> wa_step w Ended (w\<lparr>wa_pc := WatchEnded (Err ErrCanceled)\<rparr>)"

inductive wa_run :: "watcher \<Rightarrow> wa_label list \<Rightarrow> watcher \<Rightarrow> bool" for w0 :: watcher where
  wa_nil: "wa_run w0 [] w0"
| wa_snoc: "wa_run w0 ls w \<Longrightarrow> wa_step w l w' \<Longrightarrow> wa_run w0 (ls @ [l]) w'"

text \<open>The blocks of a run, and the price its queries leave: that of the last one the node answered.\<close>

fun watched :: "wa_label list \<Rightarrow> BlockData list" where
  "watched [] = []"
| "watched (Watched bd # ls) = bd # watched ls"
| "watched (l # ls) = watched ls"

fun node_price :: "nat option \<Rightarrow> wa_label list \<Rightarrow> nat option" where
  "node_price p [] = p"
| "node_price p (Fetched n (Inr q) # ls) = node_price (Some (case q of None \<Rightarrow> 0 | Some v \<Rightarrow> v)) ls"
| "node_price p (l # ls) = node_price p ls"

lemma watched_append [simp]: "watched (ls @ ms) = watched ls @ watched ms"
  by (induction ls rule: watched.induct) simp_all

lemma node_price_append [simp]: "node_price p (ls @ ms) = node_price (node_price p ls) ms"
  by (induction p ls rule: node_price.induct) simp_all

subsection \<open>Tracking and fetching do not interfere\<close>

abbreviation priced :: "nat option \<Rightarrow> gasPriceOracle \<Rightarrow> gasPriceOracle" where
  "priced v g \<equiv> g\<lparr>nodeMinGasPrice := v\<rparr>"

lemma onBlock_priced: "onBlock b m (priced v g) = priced v (onBlock b m g)"
  by (simp add: onBlock_def trackPrice_def blockFull_def Let_def split: option.split)

lemma trackFeeHistory_priced: "trackFeeHistory b txs rcs (priced v g) = map_prod id (priced v) (trackFeeHistory b txs rcs g)"
  by (simp add: trackFeeHistory_def append_history_def Let_def split: option.split outcome.split)

lemma watched_block_priced: "on_watched_block bd (priced v g) = map_prod id (priced v) (on_watched_block bd g)"
  by (simp add: on_watched_block_def onBlock_priced trackFeeHistory_priced)

lemma fetch_priced:
  "fetchMinGasPrice answer (priced v g) = priced (node_price v [Fetched n answer]) g"
  by (simp add: fetchMinGasPrice_def split: sum.split option.split)

lemma for_each_snoc: "for_each f (xs @ [y]) s = and_then (for_each f xs) (\<lambda>_. f y) s"
  by (induction xs arbitrary: s) (auto simp: ret_def split: prod.split outcome.split)

text \<open>The blocks whose tracking is complete.\<close>

definition tracked_so_far :: "watcher \<Rightarrow> wa_label list \<Rightarrow> BlockData list" where
  "tracked_so_far w ls = (case wa_pc w of Tracking bd \<Rightarrow> butlast (watched ls) | _ \<Rightarrow> watched ls)"

definition query_ok :: "watcher \<Rightarrow> bool" where
  "query_ok w \<longleftrightarrow> length (wa_fetches w) + wa_releasing w = (if wa_queryInProgress w then 1 else 0)"

definition tracking_ok :: "gasPriceOracle \<Rightarrow> wa_label list \<Rightarrow> watcher \<Rightarrow> bool" where
  "tracking_ok g0 ls w \<longleftrightarrow> (\<exists>g. for_each on_watched_block (tracked_so_far w ls) g0 = (Ok (), g)
     \<and> wa_oracle w = priced (node_price (nodeMinGasPrice g0) ls) g)
     \<and> (\<forall>bd. wa_pc w = Tracking bd \<longrightarrow> watched ls \<noteq> [] \<and> last (watched ls) = bd)"

lemma query_ok_step: "wa_step w l w' \<Longrightarrow> query_ok w \<Longrightarrow> query_ok w'"
proof (induction rule: wa_step.induct)
  case (fetches w n answer)
  then have "wa_fetches w \<noteq> []" by auto
  with fetches show ?case by (auto simp: query_ok_def length_remove1 neq_Nil_conv split: if_splits)
qed (auto simp: query_ok_def spawn_query_def split: if_splits)

lemma tracking_ok_step:
  assumes "wa_step w l w'" and "tracking_ok g0 ls w" and "\<And>p. wa_pc w' \<noteq> WatchEnded (Panic p)"
  shows "tracking_ok g0 (ls @ [l]) w'"
  using assms(1)
proof cases
  case (receives bd)
  with assms(2) show ?thesis by (auto simp: tracking_ok_def tracked_so_far_def spawn_query_def)
next
  case (tracks bd g)
  with assms(2) obtain g1 where g1: "for_each on_watched_block (butlast (watched ls)) g0 = (Ok (), g1)"
    "wa_oracle w = priced (node_price (nodeMinGasPrice g0) ls) g1" and l: "watched ls = butlast (watched ls) @ [bd]"
    by (auto simp: tracking_ok_def tracked_so_far_def intro: append_butlast_last_id [symmetric])
  with tracks(4) obtain g2 where g2: "on_watched_block bd g1 = (Ok (), g2)" "g = priced (node_price (nodeMinGasPrice g0) ls) g2"
    by (cases "on_watched_block bd g1") (auto simp: watched_block_priced)
  have "for_each on_watched_block (watched ls) g0 = (Ok (), g2)"
    by (subst l, subst for_each_snoc) (simp add: g1 g2)
  with tracks g2 show ?thesis by (simp add: tracking_ok_def tracked_so_far_def)
next
  case (fetches n answer)
  with assms(2) fetch_priced [of answer _ _ n] show ?thesis
    by (auto simp: tracking_ok_def tracked_so_far_def split: wa_pc.splits)
qed (use assms(2,3) in \<open>auto simp: tracking_ok_def tracked_so_far_def split: wa_pc.splits\<close>)

lemma panic_is_final: "wa_step w l w' \<Longrightarrow> wa_pc w \<noteq> WatchEnded (Panic p)"
  by (auto elim: wa_step.cases)

lemma wa_run_ok:
  "wa_run (watching g0) ls w \<Longrightarrow> query_ok w \<and> ((\<forall>p. wa_pc w \<noteq> WatchEnded (Panic p)) \<longrightarrow> tracking_ok g0 ls w)"
proof (induction rule: wa_run.induct)
  case wa_nil
  show ?case by (simp add: query_ok_def tracking_ok_def tracked_so_far_def watching_def ret_def)
next
  case (wa_snoc ls w l w')
  then show ?case using query_ok_step tracking_ok_step panic_is_final by metis
qed

subsection \<open>The recommended price of a run\<close>

text \<open>
  C16: the concurrent oracle computes what a sequential one would: at most one query is in flight, and whenever
  the loop waits for a block, its price window and fee history are those of the received blocks tracked one after
  the other, whatever the queries did in between; the recommended price is the greater of the computed price
  and the price the node answered last, and the configured default when there is neither.
\<close>

theorem oracle_agrees_with_sequential:
  assumes "wa_run (watching (NewOracle cfg)) ls w" and "wa_pc w = Watching"
  shows "length (wa_fetches w) + wa_releasing w \<le> 1
    \<and> (\<exists>g. for_each on_watched_block (watched ls) (NewOracle cfg) = (Ok (), g)
        \<and> wa_oracle w = g\<lparr>nodeMinGasPrice := node_price None ls\<rparr>
        \<and> GasPrice (wa_oracle w) = (case (computedGasPrice g, node_price None ls) of
              (None, None) \<Rightarrow> defaultGasPrice g
            | (Some c, None) \<Rightarrow> c | (None, Some n) \<Rightarrow> n | (Some c, Some n) \<Rightarrow> max c n))"
proof -
  have "nodeMinGasPrice (NewOracle cfg) = None" by (simp add: NewOracle_def Let_def)
  with wa_run_ok [OF assms(1)] assms(2) obtain g where q: "query_ok w"
    and g: "for_each on_watched_block (watched ls) (NewOracle cfg) = (Ok (), g)" "wa_oracle w = priced (node_price None ls) g"
    by (auto simp: tracking_ok_def tracked_so_far_def)
  have "length (wa_fetches w) + wa_releasing w \<le> 1" using q by (simp add: query_ok_def split: if_splits)
  moreover have "GasPrice (wa_oracle w) = (case (computedGasPrice g, node_price None ls) of
              (None, None) \<Rightarrow> defaultGasPrice g
            | (Some c, None) \<Rightarrow> c | (None, Some n) \<Rightarrow> n | (Some c, Some n) \<Rightarrow> max c n)"
    by (simp add: g(2) GasPrice_def Let_def max_def split: option.split)
  ultimately show ?thesis using g by blast
qed

text \<open>The flag never stays set for good: while it is set, the goroutine that will clear it can run.\<close>

lemma query_never_stuck:
  assumes "wa_run (watching g0) ls w" and "wa_queryInProgress w" and "\<And>p. wa_pc w \<noteq> WatchEnded (Panic p)"
  shows "(\<exists>n. \<forall>answer. \<exists>w'. wa_step w (Fetched n answer) w') \<or> (\<exists>w'. wa_step w Released w' \<and> \<not> wa_queryInProgress w')"
proof -
  have q: "length (wa_fetches w) + wa_releasing w = 1" using wa_run_ok [OF assms(1)] assms(2) by (simp add: query_ok_def)
  show ?thesis
  proof (cases "wa_fetches w")
    case Nil
    then have "wa_releasing w = Suc 0" using q by simp
    from wa_step.releases [OF _ this] assms(3) show ?thesis by force
  next
    case (Cons n ns)
    then have "n \<in> set (wa_fetches w)" by simp
    with wa_step.fetches [OF _ this] assms(3) show ?thesis by blast
  qed
qed

definition example_bd :: BlockData where
  "example_bd = \<lparr>bd_Block = zero_Block, bd_Receipts = [], bd_UniqueTxes = [], bd_Median = None\<rparr>"

text \<open>The query of the first block is answered while the block is being tracked.\<close>

theorem oracle_agrees_with_sequential_witness:
  "\<exists>w. wa_run (watching (NewOracle None)) [Watched example_bd, Fetched 0 (Inr (Some 7)), Tracked] w \<and> GasPrice (wa_oracle w) = 7"
proof -
  let ?w = "watching (NewOracle None)"
  let ?g = "fetchMinGasPrice (Inr (Some 7)) (NewOracle None)"
  let ?w1 = "(spawn_query 0 ?w)\<lparr>wa_pc := Tracking example_bd\<rparr>"
  let ?w2 = "?w1\<lparr>wa_oracle := ?g, wa_fetches := [], wa_releasing := 1\<rparr>"
  have u: "(replicate 6 (0 :: nat))[0 := 0] = replicate 6 0" by (simp add: list_update_same_conv)
  have n: "\<exists>g. on_watched_block example_bd (NewOracle None) = (Ok (), g) \<and> computedGasPrice g = None"
    by (auto simp: on_watched_block_def example_bd_def onBlock_def trackPrice_def trackFeeHistory_def NewOracle_def Let_def
        append_history_def fold_max u split: option.split)
  then obtain g where g: "on_watched_block example_bd (NewOracle None) = (Ok (), g)" "computedGasPrice g = None" by blast
  have 1: "wa_step ?w (Watched example_bd) ?w1"
    using wa_step.receives [of ?w example_bd] by (simp add: watching_def example_bd_def zero_Block_def)
  have 2: "wa_step ?w1 (Fetched 0 (Inr (Some 7))) ?w2"
    using wa_step.fetches [of ?w1 0 "Inr (Some 7)"] by (simp add: watching_def spawn_query_def)
  have "?g = priced (Some 7) (NewOracle None)" by (simp add: fetchMinGasPrice_def)
  then have "on_watched_block example_bd (wa_oracle ?w2) = (Ok (), priced (Some 7) g)"
    using g watched_block_priced [of example_bd "Some 7" "NewOracle None"] by simp
  from wa_step.tracks [OF _ this] have 3: "wa_step ?w2 Tracked (?w2\<lparr>wa_oracle := priced (Some 7) g, wa_pc := Watching\<rparr>)"
    by simp
  let ?w3 = "?w2\<lparr>wa_oracle := priced (Some 7) g, wa_pc := Watching\<rparr>"
  have r: "wa_run ?w [Watched example_bd, Fetched 0 (Inr (Some 7)), Tracked] ?w3"
    using wa_run.wa_snoc [OF wa_run.wa_snoc [OF wa_run.wa_snoc [OF wa_run.wa_nil 1] 2] 3] by simp
  have "GasPrice (wa_oracle ?w3) = 7" using oracle_agrees_with_sequential [OF r] g by (auto simp: ret_def)
  with r show ?thesis by blast
qed

end
