(* ===== verification/Gateway_Process.thy ===== *)
theory Gateway_Process
  imports Metrics Logs_Migration Drop_Tables Log_Fixer Indexer_Start Event_Clients Gas_Service
begin

text \<open>
  \<^verbatim>\<open>main.go\<close>, \<^verbatim>\<open>rpc/apis.go\<close>, \<^verbatim>\<open>log/log.go\<close> and the options of \<^verbatim>\<open>psql.InitDB\<close>: how the process opens the database, runs the migrations, starts
  its services and the gateway, and shuts down. The calls that leave the repository (the gRPC connection, files, the command line)
  are outcomes in \<open>proc_env\<close>; what was done is a list of actions, in order. Goroutines are started, not run: each service has
  its own theory.
\<close>

subsection \<open>The database connection\<close>

definition longReadWriteTimeout :: int where
  "longReadWriteTimeout = 12 * 3600 * second"

text \<open>The options of the connector; a timeout of \<open>None\<close> is not passed, so the driver's default applies.\<close>

record db_options =
  do_Addr :: string
  do_Database :: string
  do_User :: string
  do_Password :: string
  do_DialTimeout :: int
  do_ReadTimeout :: "int option"
  do_WriteTimeout :: "int option"
  do_ReadOnly :: bool
  do_MaxConns :: int

definition InitDB :: "int \<Rightarrow> DatabaseConfig option \<Rightarrow> bool \<Rightarrow> bool \<Rightarrow> db_options outcome" where
  "InitDB gomaxprocs cfg longTimeouts readOnly = (case cfg of
       None \<Rightarrow> Err (Errorf ''nil configuration'')
     | Some c \<Rightarrow>
        (let readTimeout = dc_ReadTimeout c * second; writeTimeout = dc_WriteTimeout c * second in
         Ok \<lparr>do_Addr = dc_Host c @ '':'' @ big_String (dc_Port c), do_Database = dc_DB c, do_User = dc_User c, do_Password = dc_Password c,
           do_DialTimeout = dc_DialTimeout c * second,
           do_ReadTimeout = (if \<not> longTimeouts then Some readTimeout
             else if readTimeout < longReadWriteTimeout then Some longReadWriteTimeout else None),
           do_WriteTimeout = (if \<not> longTimeouts then Some writeTimeout
             else if writeTimeout < longReadWriteTimeout then Some longReadWriteTimeout else None),
           do_ReadOnly = readOnly,
           do_MaxConns = (if dc_MaxOpenConns c = 0 then 4 * gomaxprocs else dc_MaxOpenConns c)\<rparr>))"

text \<open>
  A configured timeout of twelve hours or more is not used when the database is opened for migrations: no timeout is
  passed to the driver at all.
\<close>

lemma long_configured_timeout_dropped:
  assumes "InitDB p (Some c) True ro = Ok opts" and "longReadWriteTimeout \<le> dc_ReadTimeout c * second"
  shows "do_ReadTimeout opts = None"
  using assms by (auto simp: InitDB_def Let_def)

subsection \<open>Logging\<close>

definition InitLogging :: "(string \<Rightarrow> gerror option) \<Rightarrow> (string \<Rightarrow> gerror option) \<Rightarrow> (string \<Rightarrow> gerror option) \<Rightarrow> gerror option \<Rightarrow> LogConfig option \<Rightarrow> unit outcome" where
  "InitLogging OpenFile format_Set level_Set init_err cfg =
     (case cfg of
        Some c \<Rightarrow>
         (case (if lc_File c = [] then None else OpenFile (lc_File c)) of
            Some e \<Rightarrow> Err (Wrapf ''opening log file'' e)
          | None \<Rightarrow>
             (case format_Set (lc_Format c) of
                Some e \<Rightarrow> Err e
              | None \<Rightarrow> (case level_Set (lc_Level c) of
                    Some e \<Rightarrow> Err e
                  | None \<Rightarrow> (case init_err of Some e \<Rightarrow> Err e | None \<Rightarrow> Ok ()))))
      | None \<Rightarrow> (case init_err of Some e \<Rightarrow> Err e | None \<Rightarrow> Ok ()))"

subsection \<open>The services behind the namespaces\<close>

text \<open>The flag says whether the service is wrapped with metrics. Health check 0 is the one of the \<open>oasis_\<close> API, 1 the indexer.\<close>

datatype service = Web3Service bool | NetService bool | EthService bool | TxpoolService bool | FiltersService bool | OasisService bool

definition oasisHealth :: nat where
  "oasisHealth = 0"

definition indexerHealth :: nat where
  "indexerHealth = 1"

definition GetRPCAPIs :: "GatewayConfig \<Rightarrow> (string \<times> service) list \<times> nat list" where
  "GetRPCAPIs config =
     (let mon = Enabled (gc_Monitoring config);
          apis = [(''web3'', Web3Service mon), (''net'', NetService mon), (''eth'', EthService mon), (''txpool'', TxpoolService mon),
            (''eth'', FiltersService mon)]
      in if gc_ExposeOasisRPCs config then (apis @ [(''oasis'', OasisService mon)], [oasisHealth]) else (apis, []))"

subsection \<open>Starting the process\<close>

datatype action =
    OpenedDB bool bool
  | RanMigrations
  | ClosedDB
  | WrappedStorage
  | StartedFixer
  | StartedBackend
  | OpenedPebble
  | StartedIndexer
  | StartedOracle
  | OpenedArchive
  | StartedGateway

record proc_env =
  pe_Config :: "Config outcome"
  pe_InitLogging :: "LogConfig option \<Rightarrow> unit outcome"
  pe_UnmarshalHex :: "string \<Rightarrow> gerror option"
  pe_Dial :: "string \<Rightarrow> gerror option"
  pe_gomaxprocs :: int
  pe_RunMigrations :: "gerror option"
  pe_CloseDB :: "gerror option"
  pe_pebble :: "string \<Rightarrow> gerror option"
  pe_archive :: "string \<Rightarrow> gerror option"
  pe_server :: server_env

type_synonym 'a step = "(action list, 'a) call"

definition did :: "action \<Rightarrow> unit step" where
  "did a acts = (Ok (), acts @ [a])"

definition lift_outcome :: "'a outcome \<Rightarrow> 'a step" where
  "lift_outcome r acts = (r, acts)"

definition wrapf :: "string \<Rightarrow> 'a outcome \<Rightarrow> 'a outcome" where
  "wrapf msg r = (case r of Err e \<Rightarrow> Err (Wrapf msg e) | _ \<Rightarrow> r)"

definition check :: "string \<Rightarrow> gerror option \<Rightarrow> unit step" where
  "check msg e = lift_outcome (case e of None \<Rightarrow> Ok () | Some e' \<Rightarrow> Err (Wrapf msg e'))"

text \<open>Lines 223 to 241: the migrations, unless indexing is disabled and the database is used read-only.\<close>

definition migrate_phase :: "proc_env \<Rightarrow> Config \<Rightarrow> unit step" where
  "migrate_phase env cfg =
     (if cf_IndexingDisable cfg then ret ()
      else and_then (lift_outcome (wrapf ''failed to initialize migrations DB'' (InitDB (pe_gomaxprocs env) (cf_Database cfg) True (cf_IndexingDisable cfg)))) (\<lambda>_.
        and_then (did (OpenedDB True (cf_IndexingDisable cfg))) (\<lambda>_.
        and_then (check ''failed to migrate DB'' (pe_RunMigrations env)) (\<lambda>_.
        and_then (did RanMigrations) (\<lambda>_.
        and_then (check ''failed to close migrations DB'' (pe_CloseDB env)) (\<lambda>_. did ClosedDB))))))"

text \<open>Lines 243 to 325: the database for serving and the background services.\<close>

definition services_phase :: "proc_env \<Rightarrow> Config \<Rightarrow> unit step" where
  "services_phase env cfg =
     and_then (lift_outcome (wrapf ''failed to initialize DB'' (InitDB (pe_gomaxprocs env) (cf_Database cfg) False (cf_IndexingDisable cfg)))) (\<lambda>_.
     and_then (did (OpenedDB False (cf_IndexingDisable cfg))) (\<lambda>_.
     and_then (case cf_Gateway cfg of
         Some g \<Rightarrow> if Enabled (gc_Monitoring g) then did WrappedStorage else ret ()
       | None \<Rightarrow> ret ()) (\<lambda>_.
     and_then (did StartedFixer) (\<lambda>_.
     and_then (did StartedBackend) (\<lambda>_.
     and_then (case cf_NodeCachePath cfg of
         Some path \<Rightarrow> and_then (check ''creating pebble source'' (pe_pebble env path)) (\<lambda>_. did OpenedPebble)
       | None \<Rightarrow> ret ()) (\<lambda>_.
     and_then (did StartedIndexer) (\<lambda>_. did StartedOracle)))))))"

text \<open>Lines 328 to 363: the gateway.\<close>

definition start_gateway :: "server_env \<Rightarrow> GatewayConfig \<Rightarrow> Web3Gateway outcome" where
  "start_gateway env g =
     (case wrapf ''creating web3 gateway'' (NewGateway env (Some g)) of
        Err e \<Rightarrow> Err e
      | Panic p \<Rightarrow> Panic p
      | Ok w3 \<Rightarrow>
         (case GetRPCAPIs g of (apis, checks) \<Rightarrow>
           (case and_then (RegisterGatewayAPIs (map (\<lambda>(ns, _). (ns, False)) apis)) (\<lambda>_.
                 and_then (RegisterHealthChecks (checks @ [indexerHealth])) (\<lambda>_. gw_Start env)) w3 of
              (Ok _, w3') \<Rightarrow> Ok w3'
            | (Err e, _) \<Rightarrow> Err (Wrapf ''starting web3 server'' e)
            | (Panic p, _) \<Rightarrow> Panic p)))"

definition gateway_phase :: "proc_env \<Rightarrow> Config \<Rightarrow> Web3Gateway option step" where
  "gateway_phase env cfg = (case cf_Gateway cfg of
       None \<Rightarrow> ret None
     | Some g \<Rightarrow>
        and_then (if cf_ArchiveURI cfg = [] then ret ()
          else and_then (check ''creating archive client'' (pe_archive env (cf_ArchiveURI cfg))) (\<lambda>_. did OpenedArchive)) (\<lambda>_.
        and_then (lift_outcome (start_gateway (pe_server env) g)) (\<lambda>w3.
        and_then (did StartedGateway) (\<lambda>_. ret (Some w3)))))"

definition runRoot_start :: "proc_env \<Rightarrow> Web3Gateway option step" where
  "runRoot_start env =
     and_then (lift_outcome (pe_Config env)) (\<lambda>cfg.
     and_then (lift_outcome (pe_InitLogging env (cf_Log cfg))) (\<lambda>_.
     and_then (check ''invalid runtime ID'' (pe_UnmarshalHex env (cf_RuntimeID cfg))) (\<lambda>_.
     and_then (check ''failed to connect to node'' (pe_Dial env (cf_NodeAddress cfg))) (\<lambda>_.
     and_then (migrate_phase env cfg) (\<lambda>_.
     and_then (services_phase env cfg) (\<lambda>_. gateway_phase env cfg))))))"

text \<open>Lines 387 to 418: after the start, the first event that ends the process, and how it exits.\<close>

datatype stop_event = ServiceFailed gerror | SignalReceived | ContextDone

definition runRoot_stop :: "stop_event \<Rightarrow> bool \<Rightarrow> unit outcome + nat" where
  "runRoot_stop ev services_down_in_time = (if services_down_in_time then Inl (Ok ()) else Inr 1)"

definition exec_root :: "unit outcome + nat \<Rightarrow> nat" where
  "exec_root r = (case r of Inl (Ok _) \<Rightarrow> 0 | Inl (Err e) \<Rightarrow> 1 | Inl (Panic p) \<Rightarrow> 2 | Inr code \<Rightarrow> code)"

text \<open>
  The goroutine of the indexer: it reports an error of \<open>Start\<close> to the channel the process waits on and, when no
  server is configured, cancels the context of the process.
\<close>

definition indexer_goroutine :: "GatewayConfig option \<Rightarrow> unit outcome \<Rightarrow> stop_event list" where
  "indexer_goroutine gateway r =
     (case r of Err e \<Rightarrow> [ServiceFailed (Wrapf ''indexer'' e)] | _ \<Rightarrow> [])
     @ (if gateway = None then [ContextDone] else [])"

text \<open>The version command, over the build information of the binary: the dependencies with their versions, where it has any.\<close>

definition Unknown :: string where
  "Unknown = ''unknown''"

fun sdk_version :: "(string \<times> string) list \<Rightarrow> string" where
  "sdk_version [] = Unknown"
| "sdk_version ((path, version) # deps) =
     (if path = ''github.com/oasisprotocol/oasis-sdk/client-sdk/go'' then version else sdk_version deps)"

definition GetOasisSDKVersion :: "(string \<times> string) list option \<Rightarrow> string" where
  "GetOasisSDKVersion buildInfo = (case buildInfo of None \<Rightarrow> Unknown | Some deps \<Rightarrow> sdk_version deps)"

definition version_text :: "string \<Rightarrow> (string \<times> string) list option \<Rightarrow> string \<Rightarrow> string" where
  "version_text software buildInfo toolchain =
     ''Software version: '' @ software @ [CHR 0x0A] @ ''Oasis SDK version: '' @ GetOasisSDKVersion buildInfo @ [CHR 0x0A]
     @ ''Go toolchain version: '' @ toolchain @ [CHR 0x0A]"

lemma sdk_version_map_of: "GetOasisSDKVersion (Some deps) =
    (case map_of deps ''github.com/oasisprotocol/oasis-sdk/client-sdk/go'' of None \<Rightarrow> Unknown | Some v \<Rightarrow> v)"
  unfolding GetOasisSDKVersion_def by (induction deps) auto

text \<open>The other two commands; the first returns the catalogue it leaves.\<close>

definition truncateExec :: "proc_env \<Rightarrow> bool \<Rightarrow> catalogue \<Rightarrow> catalogue step" where
  "truncateExec env allowUnsafe c =
     and_then (lift_outcome (pe_Config env)) (\<lambda>cfg.
     and_then (lift_outcome (pe_InitLogging env (cf_Log cfg))) (\<lambda>_.
       if \<not> allowUnsafe then lift_outcome (Err (Errorf ''unsafe not allowed''))
       else and_then (lift_outcome (InitDB (pe_gomaxprocs env) (cf_Database cfg) True False)) (\<lambda>db.
         lift_outcome (case DropTables c of (Ok _, c') \<Rightarrow> Ok c' | (Err e, c') \<Rightarrow> Err e | (Panic p, c') \<Rightarrow> Panic p))))"

definition migrateExec :: "proc_env \<Rightarrow> unit step" where
  "migrateExec env =
     and_then (lift_outcome (pe_Config env)) (\<lambda>cfg.
     and_then (lift_outcome (pe_InitLogging env (cf_Log cfg))) (\<lambda>_.
     and_then (lift_outcome (InitDB (pe_gomaxprocs env) (cf_Database cfg) True False)) (\<lambda>_.
     and_then (check ''failed to migrate DB'' (pe_RunMigrations env)) (\<lambda>_. did RanMigrations))))"

subsection \<open>What the gateway serves\<close>

lemma RegisterApis_names:
  "RegisterApis env modules False apis = Ok names \<Longrightarrow> fst ` set apis \<subseteq> set modules \<Longrightarrow> names = map fst apis"
proof (induction apis arbitrary: names)
  case (Cons a apis)
  obtain ns pub where a: "a = (ns, pub)" by (cases a)
  with Cons.prems(2) have "ns \<in> set modules" by simp
  with Cons.prems(1) a obtain rest where "RegisterApis env modules False apis = Ok rest" "names = ns # rest"
    by (auto split: option.splits outcome.splits)
  with Cons.IH [of rest] Cons.prems(2) a show ?case by simp
qed simp

lemma api_namespaces: "fst ` set (fst (GetRPCAPIs g)) \<subseteq> set rpc_modules"
  by (auto simp: GetRPCAPIs_def rpc_modules_def Let_def)

lemma health_status_ok: "health_status H cs = (200, 1) \<longleftrightarrow> (\<forall>c \<in> set cs. H c = None)"
  by (induction cs) (auto split: option.splits)

lemma hs_start_handler: "hs_start env h = (r, h') \<Longrightarrow> hs_rpcHandler h' = hs_rpcHandler h"
  by (auto simp: hs_start_def Let_def split: if_splits sum.splits)

lemma startRPC_serves:
  assumes s: "startRPC env g = (Ok u, g')" and c: "gc_HTTP (wg_config g) = Some hc" "gc_WS (wg_config g) = Some wc"
    and m: "fst ` set (wg_rpcAPIs g) \<subseteq> set rpc_modules"
  shows "\<exists>h ws hh hw. wg_http g' = Some h \<and> wg_ws g' = Some ws \<and> hs_rpcHandler h = Some hh \<and> hs_rpcHandler ws = Some hw
    \<and> hd_namespaces hh = map fst (wg_rpcAPIs g) \<and> hd_namespaces hw = map fst (wg_rpcAPIs g) \<and> hd_health hh = Some (wg_healthChecks g)"
proof -
  obtain h0 w0 where hw: "wg_http g = Some h0" "wg_ws g = Some w0"
    using s c by (auto simp: startRPC_def on_http_def on_ws_def split: option.splits prod.splits outcome.splits)
  have s': "\<exists>n1 n2 h1 w1. RegisterApis env rpc_modules False (wg_rpcAPIs g) = Ok n1 \<and> RegisterApis env rpc_modules False (wg_rpcAPIs g) = Ok n2
      \<and> wg_http g' = Some h1 \<and> wg_ws g' = Some w1
      \<and> (\<exists>hh. hs_rpcHandler h1 = Some hh \<and> hd_namespaces hh = n1 \<and> hd_health hh = Some (wg_healthChecks g))
      \<and> (\<exists>hh. hs_rpcHandler w1 = Some hh \<and> hd_namespaces hh = n2)"
    using s by (auto simp: startRPC_def c hw on_http_def on_ws_def enableRPC_def enableWS_def newCorsHandler_def setListenAddr_def
        dest!: hs_start_handler split: prod.splits outcome.splits if_splits)
  then show ?thesis using RegisterApis_names [OF _ m] by blast
qed

text \<open>
  C38: a gateway that started serves what is configured: both servers serve exactly the namespaces of the configured services, the
  \<open>oasis\<close> namespace only when it is exposed; and \<open>GET /health\<close> answers 200 exactly when the indexer is healthy and, where
  it is exposed, the \<open>oasis_\<close> API.
\<close>

theorem gateway_serves_configured:
  assumes "start_gateway env g = Ok w3"
  shows "\<exists>h ws hh hw checks. wg_http w3 = Some h \<and> wg_ws w3 = Some ws \<and> hs_rpcHandler h = Some hh \<and> hs_rpcHandler ws = Some hw
    \<and> hd_namespaces hh = [''web3'', ''net'', ''eth'', ''txpool'', ''eth''] @ (if gc_ExposeOasisRPCs g then [''oasis''] else [])
    \<and> hd_namespaces hw = hd_namespaces hh \<and> hd_health hh = Some checks
    \<and> (fst (healthCheckHandler H checks ''GET'' gauge) = 200 \<longleftrightarrow>
         H indexerHealth = None \<and> (gc_ExposeOasisRPCs g \<longrightarrow> H oasisHealth = None))"
proof -
  obtain w where n: "NewGateway env (Some g) = Ok w"
    using assms by (auto simp: start_gateway_def wrapf_def split: outcome.splits)
  then have w: "wg_config w = g" "wg_state w = initializingState" "wg_rpcAPIs w = []" "wg_healthChecks w = []"
    and cfg: "\<exists>hc. gc_HTTP g = Some hc" "\<exists>wc. gc_WS g = Some wc"
    by (auto simp: NewGateway_def split: option.splits outcome.splits)
  define apis where "apis = map (\<lambda>(ns, _ :: service). (ns, False)) (fst (GetRPCAPIs g))"
  define checks where "checks = snd (GetRPCAPIs g) @ [indexerHealth]"
  let ?w = "w\<lparr>wg_rpcAPIs := apis, wg_healthChecks := checks, wg_state := runningState\<rparr>"
  have st: "gw_Start env (w\<lparr>wg_rpcAPIs := apis, wg_healthChecks := checks\<rparr>) = (Ok (), w3)"
    using assms n w by (auto simp: start_gateway_def wrapf_def RegisterGatewayAPIs_def RegisterHealthChecks_def apis_def checks_def
        split: prod.splits outcome.splits)
  then obtain u where rpc: "startRPC env ?w = (Ok u, w3)"
    by (auto simp: gw_Start_def w split: prod.splits outcome.splits if_splits sum.splits)
  have f: "map fst apis = map fst (fst (GetRPCAPIs g))" by (auto simp: apis_def)
  then have "fst ` set apis = fst ` set (fst (GetRPCAPIs g))" by (metis list.set_map)
  then have m: "fst ` set (wg_rpcAPIs ?w) \<subseteq> set rpc_modules" using api_namespaces [of g] by simp
  obtain hc wc where hw: "gc_HTTP (wg_config ?w) = Some hc" "gc_WS (wg_config ?w) = Some wc" using cfg w(1) by auto
  obtain h ws hh hw where *: "wg_http w3 = Some h" "wg_ws w3 = Some ws" "hs_rpcHandler h = Some hh" "hs_rpcHandler ws = Some hw"
      "hd_namespaces hh = map fst apis" "hd_namespaces hw = map fst apis" "hd_health hh = Some checks"
    using startRPC_serves [OF rpc hw m] by auto
  have "fst (healthCheckHandler H checks ''GET'' gauge) = 200 \<longleftrightarrow> health_status H checks = (200, 1)"
    by (induction checks) (auto simp: healthCheckHandler_def split: option.splits)
  then have "fst (healthCheckHandler H checks ''GET'' gauge) = 200 \<longleftrightarrow> (\<forall>c \<in> set checks. H c = None)"
    by (simp only: health_status_ok)
  then have "fst (healthCheckHandler H checks ''GET'' gauge) = 200 \<longleftrightarrow> H indexerHealth = None \<and> (gc_ExposeOasisRPCs g \<longrightarrow> H oasisHealth = None)"
    by (auto simp: checks_def GetRPCAPIs_def Let_def)
  moreover have "map fst apis = [''web3'', ''net'', ''eth'', ''txpool'', ''eth''] @ (if gc_ExposeOasisRPCs g then [''oasis''] else [])"
    unfolding f by (simp add: GetRPCAPIs_def Let_def)
  ultimately show ?thesis using * by auto
qed

definition example_started :: "Web3Gateway outcome" where
  "example_started = start_gateway (example_env True) example_gateway_config"

lemma example_started_ok: "\<exists>w3. example_started = Ok w3"
  by (simp add: example_started_def start_gateway_def wrapf_def NewGateway_def example_gateway_config_def example_http_def validatePrefix_def
      GetRPCAPIs_def Let_def RegisterGatewayAPIs_def RegisterHealthChecks_def gw_Start_def startRPC_def on_http_def on_ws_def enableRPC_def
      enableWS_def rpc_modules_def example_env_def setListenAddr_def hs_start_def newHTTPServer_def Enabled_def ret_def)

theorem gateway_serves_configured_witness:
  "\<exists>w3 h hh. example_started = Ok w3 \<and> wg_http w3 = Some h \<and> hs_rpcHandler h = Some hh
     \<and> hd_namespaces hh = [''web3'', ''net'', ''eth'', ''txpool'', ''eth'']"
proof -
  obtain w3 where w: "example_started = Ok w3" using example_started_ok by blast
  have "\<not> gc_ExposeOasisRPCs example_gateway_config" by (simp add: example_gateway_config_def)
  with gateway_serves_configured [OF w [unfolded example_started_def], of "\<lambda>_. None" 0] w show ?thesis by auto
qed

subsection \<open>The order of the start\<close>

text \<open>Steps that only add actions out of a set.\<close>

definition adds :: "action set \<Rightarrow> 'a step \<Rightarrow> bool" where
  "adds A f \<longleftrightarrow> (\<forall>acts r acts'. f acts = (r, acts') \<longrightarrow> (\<exists>ys. acts' = acts @ ys \<and> set ys \<subseteq> A))"

lemma addsD: "adds A f \<Longrightarrow> f acts = (r, acts') \<Longrightarrow> \<exists>ys. acts' = acts @ ys \<and> set ys \<subseteq> A"
  unfolding adds_def by blast

lemma adds_basic [intro]: "adds A (ret u)" "adds A (lift_outcome r)" "adds A (check msg e)" "a \<in> A \<Longrightarrow> adds A (did a)"
  by (auto simp: adds_def ret_def lift_outcome_def check_def did_def)

lemma adds_then [intro]:
  assumes "adds A f" and "\<And>x. adds A (k x)"
  shows "adds A (and_then f k)"
  unfolding adds_def
proof (intro allI impI)
  fix acts r acts'
  assume t: "and_then f k acts = (r, acts')"
  obtain r1 acts1 where f: "f acts = (r1, acts1)" by (cases "f acts")
  obtain ys where ys: "acts1 = acts @ ys" "set ys \<subseteq> A" using addsD [OF assms(1) f] by blast
  show "\<exists>ys. acts' = acts @ ys \<and> set ys \<subseteq> A"
  proof (cases r1)
    case (Ok x)
    with t f have "k x acts1 = (r, acts')" by simp
    from addsD [OF assms(2) this] ys show ?thesis by auto
  qed (use t f ys in auto)
qed

definition service_actions :: "bool \<Rightarrow> action set" where
  "service_actions ro = {OpenedDB False ro, WrappedStorage, StartedFixer, StartedBackend, OpenedPebble, StartedIndexer, StartedOracle,
     OpenedArchive, StartedGateway}"

lemma services_adds: "adds (service_actions (cf_IndexingDisable cfg)) (services_phase env cfg)"
  unfolding services_phase_def
  by (intro adds_then adds_basic) (auto simp: service_actions_def split: option.split)

lemma gateway_adds: "adds (service_actions ro) (gateway_phase env cfg)"
proof -
  have "adds (service_actions ro) (and_then (if b then ret () else and_then (check m e) (\<lambda>_. did OpenedArchive)) (\<lambda>_.
        and_then (lift_outcome r) (\<lambda>w3. and_then (did StartedGateway) (\<lambda>_. ret (Some w3)))))" for b m e r
    by (cases b) (auto simp del: and_then.simps simp: service_actions_def)
  note gw = this
  show ?thesis
  proof (cases "cf_Gateway cfg")
    case None
    then show ?thesis by (simp add: gateway_phase_def adds_basic)
  next
    case (Some g)
    show ?thesis unfolding gateway_phase_def Some option.case by (rule gw)
  qed
qed

definition migration_actions :: "action list" where
  "migration_actions = [OpenedDB True False, RanMigrations, ClosedDB]"

lemma migrate_phase_cases:
  assumes "migrate_phase env cfg [] = (r, acts)"
  shows "if cf_IndexingDisable cfg then r = Ok () \<and> acts = []
    else (\<exists>k. acts = take k migration_actions \<and> (r = Ok () \<longrightarrow> acts = migration_actions))"
proof (cases "cf_IndexingDisable cfg")
  case False
  have k: "[] = take 0 migration_actions" "[OpenedDB True False] = take 1 migration_actions"
    "[OpenedDB True False, RanMigrations] = take 2 migration_actions" "migration_actions = take 3 migration_actions"
    by (simp_all add: migration_actions_def)
  have "acts = [] \<and> r \<noteq> Ok () \<or> acts = [OpenedDB True False] \<and> r \<noteq> Ok () \<or> acts = [OpenedDB True False, RanMigrations] \<and> r \<noteq> Ok ()
      \<or> acts = migration_actions"
    using assms False by (auto simp: migrate_phase_def lift_outcome_def did_def check_def migration_actions_def
        split: outcome.splits option.splits)
  with k False show ?thesis by metis
qed (use assms in \<open>simp add: migrate_phase_def ret_def\<close>)

lemma prefix_take: "take 3 (take k migration_actions) = take k migration_actions"
  by (simp add: migration_actions_def take_Cons' min_def)

text \<open>
  C39: migrations come first, or not at all: whatever the start does and however it ends, the actions of the process begin with opening the
  database for migrations, running them and closing it again, and no service is started before; with indexing disabled
  no migration runs and the database is only ever opened read-only.
\<close>

theorem migrations_before_services:
  assumes "pe_Config env = Ok cfg" and "runRoot_start env [] = (r, acts)"
  shows "if cf_IndexingDisable cfg then set acts \<subseteq> service_actions True
    else (\<exists>k. acts = take k migration_actions) \<or> (\<exists>ys. acts = migration_actions @ ys \<and> set ys \<subseteq> service_actions False)"
proof -
  let ?rest = "\<lambda>_ :: unit. and_then (services_phase env cfg) (\<lambda>_. gateway_phase env cfg)"
  have rest: "adds (service_actions (cf_IndexingDisable cfg)) (?rest u)" for u
    by (intro adds_then services_adds gateway_adds)
  consider (early) "acts = []" | (later) "and_then (migrate_phase env cfg) ?rest [] = (r, acts)"
    using assms by (auto simp: runRoot_start_def lift_outcome_def check_def split: outcome.splits option.splits)
  then show ?thesis
  proof cases
    case early
    then have "acts = take 0 migration_actions" by simp
    with early show ?thesis by auto
  next
    case later
    obtain r1 acts1 where m: "migrate_phase env cfg [] = (r1, acts1)" by (cases "migrate_phase env cfg []")
    note mc = migrate_phase_cases [OF m]
    show ?thesis
    proof (cases "r1 = Ok ()")
      case True
      then have "?rest () acts1 = (r, acts)" using later m by simp
      then obtain ys where "acts = acts1 @ ys" "set ys \<subseteq> service_actions (cf_IndexingDisable cfg)"
        using addsD [OF rest] by blast
      with mc True show ?thesis by (auto split: if_splits)
    next
      case False
      then have "acts = acts1" using later m by (cases r1) auto
      with mc False show ?thesis by (auto split: if_splits)
    qed
  qed
qed

definition example_config :: Config where
  "example_config = \<lparr>cf_RuntimeID = ''8000'', cf_NodeAddress = ''unix:node.sock'', cf_NodeCachePath = None, cf_EnablePruning = False,
     cf_PruningStep = 0, cf_IndexingStart = 0, cf_IndexingEnd = 0, cf_IndexingDisable = False, cf_Log = None, cf_Cache = None,
     cf_Database = Some \<lparr>dc_Host = ''localhost'', dc_Port = 5432, dc_DB = ''web3'', dc_User = ''web3'', dc_Password = [], dc_DialTimeout = 5,
       dc_ReadTimeout = 10, dc_WriteTimeout = 5, dc_MaxOpenConns = 0\<rparr>,
     cf_Gateway = None, cf_Gas = None, cf_ArchiveURI = [], cf_ArchiveHeightMax = 0, cf_PprofAddr = []\<rparr>"

definition example_proc :: proc_env where
  "example_proc = \<lparr>pe_Config = Ok example_config, pe_InitLogging = (\<lambda>_. Ok ()), pe_UnmarshalHex = (\<lambda>_. None), pe_Dial = (\<lambda>_. None),
     pe_gomaxprocs = 4, pe_RunMigrations = None, pe_CloseDB = None, pe_pebble = (\<lambda>_. None), pe_archive = (\<lambda>_. None),
     pe_server = example_env True\<rparr>"

theorem migrations_before_services_witness:
  "\<exists>ys. runRoot_start example_proc [] = (Ok None, migration_actions @ ys) \<and> StartedIndexer \<in> set ys"
proof -
  have c: "pe_Config example_proc = Ok example_config" by (simp add: example_proc_def)
  have s: "runRoot_start example_proc [] = (Ok None,
      [OpenedDB True False, RanMigrations, ClosedDB, OpenedDB False False, StartedFixer, StartedBackend, StartedIndexer, StartedOracle])"
    by (simp add: runRoot_start_def example_proc_def example_config_def lift_outcome_def check_def migrate_phase_def services_phase_def
        gateway_phase_def did_def wrapf_def InitDB_def Let_def ret_def)
  have "\<nexists>k. [OpenedDB True False, RanMigrations, ClosedDB, OpenedDB False False, StartedFixer, StartedBackend, StartedIndexer, StartedOracle]
      = take k migration_actions"
  proof
    assume "\<exists>k. [OpenedDB True False, RanMigrations, ClosedDB, OpenedDB False False, StartedFixer, StartedBackend, StartedIndexer, StartedOracle]
      = take k migration_actions"
    then obtain k where "take k migration_actions =
      [OpenedDB True False, RanMigrations, ClosedDB, OpenedDB False False, StartedFixer, StartedBackend, StartedIndexer, StartedOracle]" by metis
    then have "length (take k migration_actions) = 8" by simp
    then show False by (simp add: migration_actions_def)
  qed
  moreover have "\<not> cf_IndexingDisable example_config" by (simp add: example_config_def)
  ultimately obtain ys where
    "[OpenedDB True False, RanMigrations, ClosedDB, OpenedDB False False, StartedFixer, StartedBackend, StartedIndexer, StartedOracle] = migration_actions @ ys"
    using migrations_before_services [OF c s] by auto
  with s show ?thesis by (intro exI [of _ ys]) (auto simp: migration_actions_def)
qed

text \<open>Truncating the database needs the unsafe flag: without it the tables are not even opened.\<close>

lemma truncate_needs_unsafe: "truncateExec env False c acts = (r, acts') \<Longrightarrow> (\<forall>u. r \<noteq> Ok u) \<and> acts' = acts"
  by (auto simp: truncateExec_def lift_outcome_def split: prod.splits outcome.splits)


subsection \<open>An indexer that reaches its end\<close>

text \<open>
  C30: with a server configured, the process is to go on serving when the indexer has indexed its configured range. It
  may: \<open>Start\<close> can return no error, and nothing stops. But it may also shut down: from the same state \<open>Start\<close> can
  return \<open>context canceled\<close>, which the process takes for a failed service, with the health check turned
  unhealthy if the node is ahead of the range; nobody has cancelled anything in either case.
\<close>

theorem indexer_end_may_stop_gateway:
  assumes "su_reach x (spawned svc) s" and "su_pc s \<noteq> Died" and "\<not> su_ctx_done s"
    and "su_worker s IndexingWorker = Looping" and "indexing_iteration x node (su_svc s) = Some (Ok True, svc')"
  shows "(\<exists>s' r. su_reach x s s' \<and> \<not> su_parent_done s' \<and> su_pc s' = Returned r
         \<and> indexer_goroutine (Some gw) r = [] \<and> Health (su_svc s') = Ok ())
    \<and> (\<exists>s' r. su_reach x s s' \<and> \<not> su_parent_done s' \<and> su_pc s' = Returned r
         \<and> indexer_goroutine (Some gw) r = [ServiceFailed (Wrapf ''indexer'' ErrCanceled)]
         \<and> Health (su_svc s') = Health (health_iteration x node' (updateHealth True svc')))"
proof -
  have "indexer_goroutine (Some gw) (Ok ()) = []"
    "indexer_goroutine (Some gw) (Err ErrCanceled) = [ServiceFailed (Wrapf ''indexer'' ErrCanceled)]"
    by (simp_all add: indexer_goroutine_def)
  with indexer_end_outcomes [OF assms, of node'] show ?thesis by metis
qed

theorem indexer_end_may_stop_gateway_witness:
  "\<exists>s' r. su_reach example_ext (spawned (example_indexed_service 10)) s' \<and> \<not> su_parent_done s' \<and> su_pc s' = Returned r
     \<and> indexer_goroutine (Some example_gateway_config) r = [ServiceFailed (Wrapf ''indexer'' ErrCanceled)]
     \<and> Health (su_svc s') = Err ErrNotHealthy"
proof -
  let ?s = "spawned (example_indexed_service 10)"
  have "su_pc ?s \<noteq> Died" "\<not> su_ctx_done ?s" "su_worker ?s IndexingWorker = Looping" by (simp_all add: spawned_def)
  from indexer_end_may_stop_gateway [OF su_start this example_end_reached, of example_gateway_config example_far_node]
    example_far_unhealthy show ?thesis by metis
qed

end
