(* ===== verification/Gateway_Shutdown.thy ===== *)
theory Gateway_Shutdown
  imports Gateway_Process
begin

text \<open>
  \<^verbatim>\<open>main.go\<close> after the start of the services: every service runs in a goroutine that sends the error of its \<open>Start\<close> to
  one channel, the process waits for the first reason to stop, cancels the context and waits for the goroutines. The
  services are those of the other theories; here only when they return and what they return matters.
\<close>

subsection \<open>The goroutines of the services\<close>

datatype proc_service = FixerService | BackendService | IndexerService | OracleService | ServerService

text \<open>Inside \<open>Start\<close>, at the send to \<open>errCh\<close>, before the deferred calls, and after \<open>wg.Done()\<close>.\<close>

datatype svc_pc = Running | Sending gerror | Finishing | Finished

text \<open>\<open>main\<close> at its \<open>select\<close>, before \<open>cancel()\<close>, waiting for the goroutines, and after its return or exit.\<close>

datatype main_pc = Serving | Stops stop_event | AwaitDown stop_event | ProcessEnds "unit outcome + nat"

record process =
  pr_errCh :: "gerror list"
  pr_ctx_done :: bool
  pr_svc :: "proc_service \<Rightarrow> svc_pc"
  pr_pc :: main_pc

definition main_errCh_size :: nat where
  "main_errCh_size = 4"

text \<open>The fixer runs on a plain database handle only, the server when the gateway is configured.\<close>

definition launches :: "bool \<Rightarrow> bool \<Rightarrow> proc_service \<Rightarrow> bool" where
  "launches fixer server v = (case v of FixerService \<Rightarrow> fixer | ServerService \<Rightarrow> server | _ \<Rightarrow> True)"

definition launched :: "bool \<Rightarrow> bool \<Rightarrow> process" where
  "launched fixer server = \<lparr>pr_errCh = [], pr_ctx_done = False,
     pr_svc = (\<lambda>v. if launches fixer server v then Running else Finished), pr_pc = Serving\<rparr>"

definition service_error :: "proc_service \<Rightarrow> gerror \<Rightarrow> gerror" where
  "service_error v e = (case v of
       FixerService \<Rightarrow> Wrapf ''logs index fixer'' e
     | BackendService \<Rightarrow> Wrapf ''backend'' e
     | IndexerService \<Rightarrow> Wrapf ''indexer'' e
     | OracleService \<Rightarrow> Wrapf ''gas price oracle'' e
     | ServerService \<Rightarrow> e)"

text \<open>
  What \<open>Start\<close> of a service may return: the caching backend and the oracle only the error of a done context, the
  goroutine of the server that or a message when the server stopped by itself, the fixer and the indexer any result.
\<close>

definition may_return :: "bool \<Rightarrow> proc_service \<Rightarrow> gerror option \<Rightarrow> bool" where
  "may_return ctx_done v r = (case v of
       FixerService \<Rightarrow> True
     | BackendService \<Rightarrow> ctx_done \<and> r = Some ErrCanceled
     | IndexerService \<Rightarrow> True
     | OracleService \<Rightarrow> ctx_done \<and> r = Some ErrCanceled
     | ServerService \<Rightarrow> ctx_done \<and> r = Some ErrCanceled \<or> r = Some (Errorf ''web3 server stopped''))"

datatype pr_label = ByService proc_service | ByMain

inductive pr_step :: "bool \<Rightarrow> process \<Rightarrow> pr_label \<Rightarrow> process \<Rightarrow> bool" for server :: bool where
  returns_error: "(\<forall>r. pr_pc s \<noteq> ProcessEnds r) \<Longrightarrow> pr_svc s v = Running \<Longrightarrow> may_return (pr_ctx_done s) v (Some e) \<Longrightarrow>
    pr_step server s (ByService v) (s\<lparr>pr_svc := (pr_svc s)(v := Sending (service_error v e))\<rparr>)"
| returns_nil: "(\<forall>r. pr_pc s \<noteq> ProcessEnds r) \<Longrightarrow> pr_svc s v = Running \<Longrightarrow> may_return (pr_ctx_done s) v None \<Longrightarrow>
    pr_step server s (ByService v) (s\<lparr>pr_svc := (pr_svc s)(v := Finishing)\<rparr>)"
| sends_error: "(\<forall>r. pr_pc s \<noteq> ProcessEnds r) \<Longrightarrow> pr_svc s v = Sending e \<Longrightarrow> length (pr_errCh s) < main_errCh_size \<Longrightarrow>
    pr_step server s (ByService v) (s\<lparr>pr_errCh := pr_errCh s @ [e], pr_svc := (pr_svc s)(v := Finishing)\<rparr>)"
| finishes: "(\<forall>r. pr_pc s \<noteq> ProcessEnds r) \<Longrightarrow> pr_svc s v = Finishing \<Longrightarrow>
    pr_step server s (ByService v) (s\<lparr>pr_ctx_done := (pr_ctx_done s \<or> v = IndexerService \<and> \<not> server),
      pr_svc := (pr_svc s)(v := Finished)\<rparr>)"
| service_stopped: "pr_pc s = Serving \<Longrightarrow> pr_errCh s = e # q \<Longrightarrow>
    pr_step server s ByMain (s\<lparr>pr_errCh := q, pr_pc := Stops (ServiceFailed e)\<rparr>)"
| signalled: "pr_pc s = Serving \<Longrightarrow> pr_step server s ByMain (s\<lparr>pr_pc := Stops SignalReceived\<rparr>)"
| ctx_ended: "pr_pc s = Serving \<Longrightarrow> pr_ctx_done s \<Longrightarrow> pr_step server s ByMain (s\<lparr>pr_pc := Stops ContextDone\<rparr>)"
| main_cancels: "pr_pc s = Stops ev \<Longrightarrow> pr_step server s ByMain (s\<lparr>pr_ctx_done := True, pr_pc := AwaitDown ev\<rparr>)"
| services_down: "pr_pc s = AwaitDown ev \<Longrightarrow> (\<forall>v. pr_svc s v = Finished) \<Longrightarrow>
    pr_step server s ByMain (s\<lparr>pr_pc := ProcessEnds (runRoot_stop ev True)\<rparr>)"
| timed_out: "pr_pc s = AwaitDown ev \<Longrightarrow> pr_step server s ByMain (s\<lparr>pr_pc := ProcessEnds (runRoot_stop ev False)\<rparr>)"

abbreviation pr_reach :: "bool \<Rightarrow> process \<Rightarrow> process \<Rightarrow> bool" where
  "pr_reach server \<equiv> reach (pr_step server)"

lemmas pr_start = reach_start [where step = "pr_step server" for server]
  and pr_more = reach_step [where step = "pr_step server" for server]
  and pr_trans = reach_trans [where step = "pr_step server" for server]

subsection \<open>Who can still send\<close>

definition all_services :: "proc_service list" where
  "all_services = [FixerService, BackendService, IndexerService, OracleService, ServerService]"

definition may_send :: "svc_pc \<Rightarrow> bool" where
  "may_send p \<longleftrightarrow> (case p of Running \<Rightarrow> True | Sending e \<Rightarrow> True | _ \<Rightarrow> False)"

lemma may_send_simps [simp]: "may_send Running" "may_send (Sending e)" "\<not> may_send Finishing" "\<not> may_send Finished"
  by (simp_all add: may_send_def)

definition senders :: "process \<Rightarrow> nat" where
  "senders s = length (filter (\<lambda>v. may_send (pr_svc s v)) all_services)"

lemma senders_same:
  "may_send (pr_svc s v) = may_send p \<Longrightarrow> senders (s\<lparr>pr_svc := (pr_svc s)(v := p)\<rparr>) = senders s"
  by (cases v) (simp_all add: senders_def all_services_def)

lemma senders_less:
  "may_send (pr_svc s v) \<Longrightarrow> \<not> may_send p \<Longrightarrow> Suc (senders (s\<lparr>pr_svc := (pr_svc s)(v := p)\<rparr>)) = senders s"
  by (cases v) (simp_all add: senders_def all_services_def)

lemma senders_frame [simp]:
  "senders (s\<lparr>pr_errCh := q\<rparr>) = senders s" "senders (s\<lparr>pr_ctx_done := b\<rparr>) = senders s" "senders (s\<lparr>pr_pc := p\<rparr>) = senders s"
  "senders (s\<lparr>pr_errCh := q, pr_svc := f\<rparr>) = senders (s\<lparr>pr_svc := f\<rparr>)"
  "senders (s\<lparr>pr_ctx_done := b, pr_svc := f\<rparr>) = senders (s\<lparr>pr_svc := f\<rparr>)"
  by (simp_all add: senders_def)

lemma sending_counts: "pr_svc s v = Sending e \<Longrightarrow> 0 < senders s"
  using senders_less [of s v Finishing] by simp

text \<open>Every error in the channel was sent by a goroutine that sends no more.\<close>

lemma errors_bounded_step: "pr_step server s l s' \<Longrightarrow> length (pr_errCh s') + senders s' \<le> length (pr_errCh s) + senders s"
proof (induction rule: pr_step.induct)
  case (returns_error s v e)
  then show ?case using senders_same [of s v "Sending (service_error v e)"] by simp
next
  case (returns_nil s v)
  then show ?case using senders_less [of s v Finishing] by simp
next
  case (sends_error s v e)
  then show ?case using senders_less [of s v Finishing] by simp
next
  case (finishes s v)
  then show ?case using senders_same [of s v Finished] by simp
qed simp_all

interpretation errors: step_invariant "pr_step server" "\<lambda>s. length (pr_errCh s) + senders s \<le> n" for server n
  by unfold_locales (drule errors_bounded_step, simp)

lemma errors_bounded: "pr_reach server s0 s \<Longrightarrow> length (pr_errCh s) + senders s \<le> length (pr_errCh s0) + senders s0"
  by (erule errors.reach_inv) simp

lemma launched_senders: "length (pr_errCh (launched fixer server)) + senders (launched fixer server) = 3 + of_bool fixer + of_bool server"
  by (simp add: launched_def senders_def all_services_def launches_def)

subsection \<open>A goroutine that never returns\<close>

text \<open>A service is stuck when the process still runs and the service stays at its send whatever happens.\<close>

definition stuck :: "bool \<Rightarrow> process \<Rightarrow> proc_service \<Rightarrow> bool" where
  "stuck server s v \<longleftrightarrow> (\<forall>r. pr_pc s \<noteq> ProcessEnds r) \<and> (\<exists>e. pr_svc s v = Sending e)
     \<and> (\<forall>s'. pr_reach server s s' \<longrightarrow> pr_svc s' v = pr_svc s v)"

lemma stuck_needs_full_channel:
  assumes "stuck server s v"
  shows "main_errCh_size \<le> length (pr_errCh s)"
proof (rule ccontr)
  assume "\<not> main_errCh_size \<le> length (pr_errCh s)"
  then have room: "length (pr_errCh s) < main_errCh_size" by simp
  from assms obtain e where e: "pr_svc s v = Sending e" and alive: "\<forall>r. pr_pc s \<noteq> ProcessEnds r" by (auto simp: stuck_def)
  from pr_more [OF pr_start pr_step.sends_error [OF alive e room]] assms e show False by (force simp: stuck_def)
qed

text \<open>After the process left its \<open>select\<close>, nobody reads the channel.\<close>

definition nobody_reads :: "process \<Rightarrow> bool" where
  "nobody_reads s \<longleftrightarrow> main_errCh_size \<le> length (pr_errCh s) \<and> ((\<exists>ev. pr_pc s = AwaitDown ev) \<or> (\<exists>r. pr_pc s = ProcessEnds r))"

lemma nobody_reads_step:
  "pr_step server s l s' \<Longrightarrow> nobody_reads s \<and> pr_svc s v = Sending e \<Longrightarrow> nobody_reads s' \<and> pr_svc s' v = Sending e"
  by (induction rule: pr_step.induct) (auto simp: nobody_reads_def)

interpretation blocked: step_invariant "pr_step server" "\<lambda>s. nobody_reads s \<and> pr_svc s v = Sending e" for server v e
  by unfold_locales (rule nobody_reads_step)

lemma canceled_services_report:
  "distinct vs \<Longrightarrow> (\<And>v. v \<in> set vs \<Longrightarrow> pr_svc s v = Running) \<Longrightarrow> length (pr_errCh s) + length vs \<le> main_errCh_size \<Longrightarrow>
     pr_pc s = AwaitDown ev \<Longrightarrow> pr_ctx_done s \<Longrightarrow>
     \<exists>s'. pr_reach server s s' \<and> length (pr_errCh s') = length (pr_errCh s) + length vs \<and> pr_pc s' = AwaitDown ev
       \<and> pr_ctx_done s' \<and> (\<forall>v. v \<notin> set vs \<longrightarrow> pr_svc s' v = pr_svc s v)"
proof (induction vs arbitrary: s)
  case Nil
  then show ?case by (auto intro: pr_start pr_more)
next
  case (Cons u us)
  let ?e = "service_error u ErrCanceled"
  let ?s1 = "s\<lparr>pr_svc := (pr_svc s)(u := Sending ?e)\<rparr>"
  let ?s2 = "?s1\<lparr>pr_errCh := pr_errCh s @ [?e], pr_svc := (pr_svc s)(u := Finishing)\<rparr>"
  have 1: "pr_step server s (ByService u) ?s1"
    using Cons.prems by (intro pr_step.returns_error) (auto simp: may_return_def split: proc_service.split)
  have 2: "pr_step server ?s1 (ByService u) ?s2"
    using pr_step.sends_error [of ?s1 u ?e server] Cons.prems by simp
  have 3: "\<exists>s'. pr_reach server ?s2 s' \<and> length (pr_errCh s') = length (pr_errCh ?s2) + length us \<and> pr_pc s' = AwaitDown ev
       \<and> pr_ctx_done s' \<and> (\<forall>v. v \<notin> set us \<longrightarrow> pr_svc s' v = pr_svc ?s2 v)"
    by (rule Cons.IH) (use Cons.prems in auto)
  have "pr_reach server s ?s2" using pr_more [OF pr_more [OF pr_start 1] 2] .
  moreover from 3 obtain s' where "pr_reach server ?s2 s'" "length (pr_errCh s') = Suc (length (pr_errCh s) + length us)"
      "pr_pc s' = AwaitDown ev" "pr_ctx_done s'" "\<forall>v. v \<notin> set us \<longrightarrow> pr_svc s' v = pr_svc ?s2 v" by auto
  ultimately show ?case by (intro exI [of _ s']) (auto intro: pr_trans)
qed

lemma fifth_service_stuck: "\<exists>s. pr_reach True (launched True True) s \<and> pr_pc s = AwaitDown SignalReceived \<and> stuck True s ServerService"
proof -
  let ?s0 = "launched True True"
  let ?s2 = "?s0\<lparr>pr_ctx_done := True, pr_pc := AwaitDown SignalReceived\<rparr>"
  have run: "pr_svc ?s2 v = Running" for v by (simp add: launched_def launches_def split: proc_service.split)
  have "pr_step True ?s0 ByMain (?s0\<lparr>pr_pc := Stops SignalReceived\<rparr>)" by (rule pr_step.signalled) (simp add: launched_def)
  moreover have "pr_step True (?s0\<lparr>pr_pc := Stops SignalReceived\<rparr>) ByMain ?s2"
    using pr_step.main_cancels [of "?s0\<lparr>pr_pc := Stops SignalReceived\<rparr>"] by simp
  ultimately have r2: "pr_reach True ?s0 ?s2" by (blast intro: pr_start pr_more)
  have "\<exists>s3. pr_reach True ?s2 s3 \<and> length (pr_errCh s3) = length (pr_errCh ?s2) + length [FixerService, BackendService, IndexerService, OracleService]
      \<and> pr_pc s3 = AwaitDown SignalReceived \<and> pr_ctx_done s3
      \<and> (\<forall>v. v \<notin> set [FixerService, BackendService, IndexerService, OracleService] \<longrightarrow> pr_svc s3 v = pr_svc ?s2 v)"
    by (rule canceled_services_report) (simp_all only: run, simp_all add: launched_def main_errCh_size_def)
  then obtain s3 where s3: "pr_reach True ?s2 s3" "length (pr_errCh s3) = 4" "pr_pc s3 = AwaitDown SignalReceived"
      "pr_ctx_done s3" "pr_svc s3 ServerService = Running"
    using run [of ServerService] by (auto simp: launched_def)
  let ?s4 = "s3\<lparr>pr_svc := (pr_svc s3)(ServerService := Sending ErrCanceled)\<rparr>"
  have "pr_step True s3 (ByService ServerService) ?s4"
    using pr_step.returns_error [of s3 ServerService ErrCanceled True] s3 by (simp add: may_return_def service_error_def)
  with s3(1) r2 have r4: "pr_reach True ?s0 ?s4" by (blast intro: pr_start pr_more pr_trans)
  have "nobody_reads ?s4" using s3 by (simp add: nobody_reads_def main_errCh_size_def)
  then have "stuck True ?s4 ServerService"
    using s3(3) blocked.reach_inv [of True ?s4 _ ServerService ErrCanceled] by (auto simp: stuck_def)
  with r4 s3(3) show ?thesis by (intro exI [of _ ?s4]) simp
qed

text \<open>
  C31: the error channel of the process has four places. A service can block for ever in reporting its error, so that the
  shutdown is only ended by the forced exit with code 1 after thirty seconds, exactly when five services run:
  the log index fixer beside the caching backend, the indexer, the gas price oracle and the server. An interrupt
  signal is enough for it then; with four services or fewer no interleaving blocks any of them.
\<close>

theorem shutdown_blocks_iff_five_services:
  "(\<exists>s v. pr_reach server (launched fixer server) s \<and> stuck server s v) \<longleftrightarrow> fixer \<and> server"
proof
  assume "\<exists>s v. pr_reach server (launched fixer server) s \<and> stuck server s v"
  then obtain s v where s: "pr_reach server (launched fixer server) s" "stuck server s v" by blast
  then obtain e where "pr_svc s v = Sending e" by (auto simp: stuck_def)
  then have "0 < senders s" by (rule sending_counts)
  with stuck_needs_full_channel [OF s(2)] errors_bounded [OF s(1)] have "5 \<le> 3 + of_bool fixer + (of_bool server :: nat)"
    by (simp add: launched_senders main_errCh_size_def)
  then show "fixer \<and> server" by (cases fixer; cases server) simp_all
next
  assume "fixer \<and> server"
  then show "\<exists>s v. pr_reach server (launched fixer server) s \<and> stuck server s v" using fifth_service_stuck by auto
qed

text \<open>A stuck service leaves the process one way to end.\<close>

lemma stuck_forces_exit:
  assumes "stuck server s v" and "pr_step server s l s'" and "pr_pc s' = ProcessEnds r"
  shows "exec_root r = 1"
  using assms(2,3,1) by cases (auto simp: stuck_def runRoot_stop_def exec_root_def)

end
