(* ===== verification/Cache_Service.thy ===== *)
theory Cache_Service
  imports Cache_Backend Step_Systems
begin

text \<open>
  The caching backend (\<^verbatim>\<open>indexer/backend_cache.go\<close>) as the rest of the gateway meets it: blocks are indexed through it and all its queries
  are asked, in any order. Queries change only counters and the remembered last retained round; indexed blocks keep the cache
  in agreement with the database.
\<close>

subsection \<open>Calls that leave the state alone\<close>

text \<open>A call leaves a state alone, up to a preorder, however it ends. This composes.\<close>

definition leaves :: "('s \<Rightarrow> 's \<Rightarrow> bool) \<Rightarrow> ('s, 'a) call \<Rightarrow> bool" where
  "leaves R f \<longleftrightarrow> (\<forall>s. R s (snd (f s)))"

locale state_order =
  fixes R :: "'s \<Rightarrow> 's \<Rightarrow> bool"
  assumes R_refl: "R s s"
    and R_trans: "R s t \<Longrightarrow> R t u \<Longrightarrow> R s u"
begin

lemma leaves_fail: "(\<And>s. snd (f s) = s) \<Longrightarrow> leaves R f"
  by (simp add: leaves_def R_refl)

lemma leaves_ret: "leaves R (ret y)"
  by (rule leaves_fail) (simp add: ret_def)

lemma leaves_and_then:
  assumes "leaves R m" and "\<And>y. leaves R (f y)"
  shows "leaves R (and_then m f)"
  unfolding leaves_def
proof
  fix s
  obtain r t where m: "m s = (r, t)" by (cases "m s")
  with assms(1) have "R s t" by (metis leaves_def snd_conv)
  with assms(2) show "R s (snd (and_then m f s))"
    by (cases r) (auto simp: m leaves_def intro: R_trans)
qed

end

definition same_db :: "pgdb \<Rightarrow> pgdb \<Rightarrow> bool" where
  "same_db db db' \<longleftrightarrow> committed db' = committed db \<and> scan_logs db' = scan_logs db \<and> (faults db = [] \<longrightarrow> faults db' = [])"

definition same_ib :: "'o indexBackend \<Rightarrow> 'o indexBackend \<Rightarrow> bool" where
  "same_ib ib ib' \<longleftrightarrow> same_db (ib_storage ib) (ib_storage ib') \<and> ib' = ib\<lparr>ib_storage := ib_storage ib'\<rparr>"

definition cache_view :: "CachingBackend \<Rightarrow> CachingBackend" where
  "cache_view c = c\<lparr>metricsBlockCache := zero_metrics, metricsTxCache := zero_metrics, metricsLogCache := zero_metrics,
     metricsReceiptCache := zero_metrics, lastRetainedRound := 0, lastRetainedRoundValid := 0\<rparr>"

definition same_caching :: "caching \<Rightarrow> caching \<Rightarrow> bool" where
  "same_caching s s' \<longleftrightarrow> cache_view (fst s') = cache_view (fst s) \<and> same_ib (snd s) (snd s')"

interpretation sdb: state_order same_db
  by unfold_locales (auto simp: same_db_def)

interpretation sib: state_order same_ib
proof unfold_locales
  fix s t u :: "'o indexBackend" assume "same_ib s t" and "same_ib t u"
  then show "same_ib s u" unfolding same_ib_def using sdb.R_trans
    by (metis indexBackend.surjective indexBackend.update_convs(1))
qed (simp add: same_ib_def sdb.R_refl)

interpretation sc: state_order same_caching
  by unfold_locales (auto simp: same_caching_def sib.R_refl intro: sib.R_trans)

named_theorems leaves_intros

lemmas leaves_combinators [leaves_intros] = sdb.leaves_ret sdb.leaves_and_then sib.leaves_ret sib.leaves_and_then
  sc.leaves_ret sc.leaves_and_then

subsection \<open>The queries of the database and of the index backend\<close>

lemma query_leaves [leaves_intros]: "leaves same_db (query Pool q)"
  by (auto simp: leaves_def same_db_def query_def statement_def next_fault_def abort_tx_def split: list.split option.split)

lemma query_row_leaves [leaves_intros]: "leaves same_db (query_row Pool q)"
  unfolding query_row_def by (intro leaves_intros sdb.leaves_fail) (simp split: option.split)

lemma on_storage_leaves [leaves_intros]: "leaves same_db f \<Longrightarrow> leaves same_ib (on_storage f)"
  by (auto simp: leaves_def on_storage_def same_ib_def split: prod.split) (metis snd_conv)

lemma leavesD: "leaves R f \<Longrightarrow> f s = (r, s') \<Longrightarrow> R s s'"
  unfolding leaves_def by (metis snd_conv)

lemma scanned_query_leaves: "leaves same_db (\<lambda>db. and_then (query Pool q) (\<lambda>ls. ret (g db ls)) db)"
  using query_leaves [of q] by (auto simp: leaves_def ret_def split: prod.split outcome.split) (metis snd_conv)+

lemma scans_leave [leaves_intros]:
  "leaves same_db (GetLogs Pool a b)" "leaves same_db (with_transactions Pool blk)" "leaves same_db (GetTransactionReceipt Pool h)"
  unfolding GetLogs_def [abs_def] with_transactions_def [abs_def] GetTransactionReceipt_def
  by (intro scanned_query_leaves leaves_intros)+

lemma tip_queries_leave [leaves_intros]:
  "leaves same_db (GetLastIndexedRound Pool)" "leaves same_db (GetLastRetainedRound Pool)"
  by (auto simp: leaves_def GetLastIndexedRound_def GetLastRetainedRound_def split: prod.split outcome.split
      intro: leavesD [OF query_row_leaves])

lemma GetBlockTransaction_leaves [leaves_intros]: "leaves same_db (GetBlockTransaction Pool h i)"
  unfolding GetBlockTransaction_def
  by (intro leaves_intros sdb.leaves_fail) (simp add: Let_def split: option.split)

lemmas query_defs = GetTransaction_def GetBlockRound_def GetBlockHash_def GetLatestBlockHash_def GetLatestBlockNumber_def
  GetBlockByHash_def GetBlockByNumber_def GetBlockTransactionCountByNumber_def GetBlockTransactionCountByHash_def

lemma ib_queries_leave [leaves_intros]:
  "leaves same_ib ib_BlockNumber" "leaves same_ib (ib_QueryBlockRound x h)" "leaves same_ib (ib_QueryBlockHash x n)"
  "leaves same_ib ib_QueryLastIndexedRound" "leaves same_ib (ib_QueryTransaction x h)" "leaves same_ib (ib_GetBlockByRound x n)"
  "leaves same_ib (ib_GetBlockByHash x h)" "leaves same_ib (ib_GetBlockTransactionCountByRound x n)"
  "leaves same_ib (ib_GetBlockTransactionCountByHash x h)" "leaves same_ib (ib_GetTransactionByBlockHashAndIndex x h i)"
  "leaves same_ib (ib_GetTransactionReceipt x h)" "leaves same_ib (ib_GetLogs a b)"
  unfolding ib_BlockNumber_def ib_QueryBlockRound_def ib_QueryBlockHash_def ib_QueryLastIndexedRound_def ib_QueryTransaction_def
    ib_GetBlockByRound_def ib_GetBlockByHash_def ib_GetBlockTransactionCountByRound_def ib_GetBlockTransactionCountByHash_def
    ib_GetTransactionByBlockHashAndIndex_def ib_GetTransactionReceipt_def ib_GetLogs_def ib_blockNumberFromRound_def query_defs
  by (auto intro!: leaves_intros)

lemma ib_QueryLastRetainedRound_leaves: "leaves same_ib ib_QueryLastRetainedRound"
  by (auto simp: leaves_def ib_QueryLastRetainedRound_def split: prod.split outcome.split
      intro: leavesD [OF on_storage_leaves [OF tip_queries_leave(2)]])

subsection \<open>The queries of the caching backend\<close>

lemma on_inner_leaves [leaves_intros]: "leaves same_ib f \<Longrightarrow> leaves same_caching (on_inner f)"
  by (auto simp: leaves_def on_inner_def same_caching_def split: prod.split) (metis snd_conv)

lemma or_inner_leaves [leaves_intros]:
  assumes "\<And>c. cache_view (snd (look c)) = cache_view c" and "leaves same_ib f"
  shows "leaves same_caching (or_inner look hit f)"
  unfolding leaves_def
proof
  fix s :: caching
  obtain c ib where s: "s = (c, ib)" by (cases s)
  obtain res c1 where l: "look c = (res, c1)" by (cases "look c")
  obtain r ib1 where f: "f ib = (r, ib1)" by (cases "f ib")
  show "same_caching s (snd (or_inner look hit f s))"
    using assms(1) [of c] leavesD [OF assms(2) f]
    by (cases res) (simp_all add: s l f or_inner_def on_inner_def same_caching_def sib.R_refl)
qed

lemma lookups_keep_view [simp]:
  "cache_view (snd (cachedBlockByNumber n c)) = cache_view c" "cache_view (snd (cachedBlockByHash x h c)) = cache_view c"
  "cache_view (snd (cachedTxByHash x h c)) = cache_view c" "cache_view (snd (cachedReceiptByTxHash x h c)) = cache_view c"
  by (auto simp: cache_view_def cachedBlockByNumber_def cachedBlockByHash_def cachedTxByHash_def cachedReceiptByTxHash_def
      note_block_def split: option.split)

lemma cb_BlockNumber_leaves [leaves_intros]: "leaves same_caching cb_BlockNumber"
  by (rule sc.leaves_fail) (simp add: cb_BlockNumber_def split: prod.split)

lemma cb_QueryLastIndexedRound_leaves [leaves_intros]: "leaves same_caching cb_QueryLastIndexedRound"
  using on_inner_leaves [OF ib_queries_leave(4)]
  by (auto simp: leaves_def cb_QueryLastIndexedRound_def sc.R_refl split: prod.split)

lemma cb_queries_leave [leaves_intros]:
  "leaves same_caching (cb_QueryBlockRound x h)" "leaves same_caching (cb_QueryBlockHash x n)"
  "leaves same_caching (cb_QueryTransaction x h)" "leaves same_caching (cb_GetBlockByRound x n)"
  "leaves same_caching (cb_GetBlockByHash x h)" "leaves same_caching (cb_GetBlockTransactionCountByRound x n)"
  "leaves same_caching (cb_GetBlockTransactionCountByHash x h)" "leaves same_caching (cb_GetTransactionByBlockHashAndIndex x h i)"
  "leaves same_caching (cb_GetTransactionReceipt x h)"
  unfolding cb_QueryBlockRound_def cb_QueryBlockHash_def cb_QueryTransaction_def cb_GetBlockByRound_def cb_GetBlockByHash_def
    cb_GetBlockTransactionCountByRound_def cb_GetBlockTransactionCountByHash_def cb_GetTransactionByBlockHashAndIndex_def
    cb_GetTransactionReceipt_def cb_blockNumberFromRound_def
  by (auto intro!: leaves_intros)

lemma cb_GetLogs_leaves: "cb_GetLogs a b s = Some (r, s') \<Longrightarrow> same_caching s s'"
proof -
  assume g: "cb_GetLogs a b s = Some (r, s')"
  obtain c ib where s: "s = (c, ib)" by (cases s)
  have v: "cache_view (note_logs hit c) = cache_view c" for hit by (simp add: note_logs_def cache_view_def)
  obtain r1 ib1 where l: "ib_GetLogs a b ib = (r1, ib1)" by (cases "ib_GetLogs a b ib")
  from g s l consider "s' = (note_logs False c, ib1)" | "s' = (note_logs True c, ib)"
    by (auto simp: cb_GetLogs_def on_inner_def Let_def split: if_splits option.splits prod.splits)
  then show ?thesis using leavesD [OF ib_queries_leave(12) l] v by cases (simp_all add: s same_caching_def sib.R_refl)
qed

lemma cas_loop_leaves: "cas_loop fuel env lr s = Some (r, s') \<Longrightarrow> same_caching s s'"
proof (induction fuel env lr s rule: cas_loop.induct)
  case (2 fuel env lr c ib)
  obtain r1 ib1 where q: "ib_QueryLastRetainedRound ib = (r1, ib1)" by (cases "ib_QueryLastRetainedRound ib")
  note same = leavesD [OF ib_QueryLastRetainedRound_leaves q]
  let ?c = "case env of Some v # _ \<Rightarrow> c\<lparr>lastRetainedRound := v\<rparr> | _ \<Rightarrow> c"
  have v: "cache_view ?c = cache_view c" by (simp add: cache_view_def split: list.split option.split)
  then have s1: "same_caching (c, ib) (?c, ib1)" using same by (simp add: same_caching_def)
  show ?case
  proof (cases r1)
    case (Ok n)
    show ?thesis
    proof (cases "lastRetainedRound ?c = lr")
      case True
      then have "s' = (?c\<lparr>lastRetainedRound := n, lastRetainedRoundValid := 1\<rparr>, ib1)"
        using "2.prems" q Ok by (simp add: Let_def)
      then show ?thesis using same v by (simp add: same_caching_def cache_view_def)
    next
      case False
      then have "same_caching (?c, ib1) s'" using "2.IH" [OF q [symmetric] Ok] "2.prems" q Ok by (simp add: Let_def)
      with s1 show ?thesis by (rule sc.R_trans)
    qed
  qed (use "2.prems" q same in \<open>auto simp: same_caching_def\<close>)
qed simp

lemma cb_QueryLastRetainedRound_leaves: "cb_QueryLastRetainedRound fuel env s = Some (r, s') \<Longrightarrow> same_caching s s'"
  by (auto simp: cb_QueryLastRetainedRound_def sc.R_refl split: prod.splits if_splits dest: cas_loop_leaves)

subsection \<open>The cache and the database agree\<close>

definition coherent :: "ext \<Rightarrow> CachingBackend \<Rightarrow> tables \<Rightarrow> bool" where
  "coherent x c t \<longleftrightarrow> (\<forall>h e. gm_load (txByHashHex c) h = Some e \<longrightarrow>
     tx_at t h = Some (tce_tx e) \<and> tx_Status (tce_tx e) \<noteq> ReceiptStatusFailed x)"

definition synced :: "ext \<Rightarrow> caching \<Rightarrow> bool" where
  "synced x s \<longleftrightarrow> (case s of (c, ib) \<Rightarrow> (let t = committed (ib_storage ib) in
     cache_ok c \<and> maxCacheSize c \<noteq> max_u64 \<and> tables_ok t \<and> faults (ib_storage ib) = []
     \<and> cached_rounds c \<subseteq> blk_Round ` set (blocks t) \<and> coherent x c t))"

lemma coherent_final: "coherent x c t \<Longrightarrow> tx_final x t t' \<Longrightarrow> coherent x c t'"
  unfolding coherent_def tx_final_def rows_final_def by blast

text \<open>The transactions of a stored block are coherent entries, as are older ones.\<close>

lemma coherent_insert:
  assumes old: "coherent x c t'" and rec: "\<forall>tx \<in> set txs. recorded_tx x t' tx"
    and u: "bd_UniqueTxes bd = unfailed_txs x txs"
  shows "coherent x (insert_block bd c) t'"
  unfolding coherent_def
proof (intro allI impI)
  fix h e assume l: "gm_load (txByHashHex (insert_block bd c)) h = Some e"
  show "tx_at t' h = Some (tce_tx e) \<and> tx_Status (tce_tx e) \<noteq> ReceiptStatusFailed x"
  proof (cases "find (\<lambda>tx. tx_Hash tx = h) (rev (bd_UniqueTxes bd))")
    case None
    with l old show ?thesis by (simp add: gm.load_fold_store coherent_def)
  next
    case (Some tx)
    with l have e: "tce_tx e = tx" by (auto simp: gm.load_fold_store)
    from find_rev_mem [OF Some] u have "tx \<in> set txs" "tx_Status tx \<noteq> ReceiptStatusFailed x" "tx_Hash tx = h"
      by (simp_all add: unfailed_txs_def)
    with rec e show ?thesis by (auto simp: recorded_tx_def)
  qed
qed

lemma synced_same_tables:
  assumes "synced x (c, ib)" and "committed (ib_storage ib') = committed (ib_storage ib)" and "faults (ib_storage ib') = []"
  shows "synced x (c, ib')"
  using assms by (simp add: synced_def Let_def)

text \<open>Indexing through the cache: the block is refused and nothing changes, or it is stored and cached.\<close>

lemma StoreBlockData_cases:
  assumes syn: "synced x (c, ib)" and o: "ib_observer ib = Some c"
    and run: "StoreBlockData x OnBlockIndexed oblk items params ib = (r, ib')"
  obtains (refused) "committed (ib_storage ib') = committed (ib_storage ib)" "ib_observer ib' = Some c" "\<And>u. r \<noteq> Ok u"
      "faults (ib_storage ib') = []"
    | (stored) blk txs rcs ls median bd c' where "block_models x oblk items params = Ok ((blk, txs, rcs, ls), median)"
      "block_stored x (committed (ib_storage ib)) blk txs rcs ls (committed (ib_storage ib'))"
      "blk_Round blk \<notin> blk_Round ` set (blocks (committed (ib_storage ib)))"
      "bd = \<lparr>bd_Block = blk, bd_Receipts = unfailed_receipts x rcs, bd_UniqueTxes = unfailed_txs x txs, bd_Median = median\<rparr>"
      "tx_final x (committed (ib_storage ib)) (committed (ib_storage ib'))" "tables_ok (committed (ib_storage ib'))"
      "ib_observer ib' = Some c'" "cache_ok c'" "maxCacheSize c' = maxCacheSize c" "cache_sub c' (insert_block bd c)"
      "cached_rounds c' \<subseteq> insert (blk_Round blk) (cached_rounds c)" "faults (ib_storage ib') = []"
proof (cases "block_models x oblk items params")
  case (Ok mm)
  have ok: "tables_ok (committed (ib_storage ib))" and f: "faults (ib_storage ib) = []" and cok: "cache_ok c"
    and mx: "maxCacheSize c \<noteq> max_u64" and rs: "cached_rounds c \<subseteq> blk_Round ` set (blocks (committed (ib_storage ib)))"
    using syn by (simp_all add: synced_def Let_def)
  obtain blk txs rcs ls median where mm: "mm = ((blk, txs, rcs, ls), median)" by (metis prod.exhaust)
  obtain rt db' where rt: "RunInTransaction Pool (store_models x blk txs rcs ls) (ib_storage ib) = (rt, db')"
    by (cases "RunInTransaction Pool (store_models x blk txs rcs ls) (ib_storage ib)")
  have f': "faults db' = []" using calmD [OF RunInTransaction_calm [OF calm_store_models] f rt] .
  show thesis
  proof (cases "\<exists>u. rt = Ok u")
    case False
    then have "committed db' = committed (ib_storage ib)" using store_models_run [OF ok rt] by blast
    moreover have "ib' = ib\<lparr>ib_storage := db'\<rparr>" "\<And>u. r \<noteq> Ok u"
      using False run Ok mm rt by (cases rt; auto simp: StoreBlockData_def)+
    ultimately show thesis using refused f' o by simp
  next
    case True
    then obtain utxs urcs where u: "rt = Ok (utxs, urcs)" by (metis prod.exhaust)
    note st = store_models_committed [OF ok f rt [unfolded u]]
    let ?bd = "\<lparr>bd_Block = blk, bd_Receipts = unfailed_receipts x rcs, bd_UniqueTxes = unfailed_txs x txs, bd_Median = median\<rparr>"
    have new: "blk_Round (bd_Block ?bd) \<notin> cached_rounds c" using st rs by auto
    obtain c' where oi: "OnBlockIndexed ?bd c = (Ok (), c')" and c': "cache_ok c'" "maxCacheSize c' = maxCacheSize c"
      and cr: "cached_rounds c' = (let rs = insert (blk_Round (bd_Block ?bd)) (cached_rounds c) in
         if card rs \<le> unat (maxCacheSize c) then rs else rs - {Min rs})"
      and "lastIndexedRound c' = max (lastIndexedRound c) (blk_Round (bd_Block ?bd))"
      and sub: "cache_sub c' (insert_block ?bd c)"
      by (rule on_block_indexed_cases [OF cok new mx])
    have "ib_storage ib' = db' \<and> ib_observer ib' = Some c'"
      using run Ok mm rt u st oi o by (auto simp: StoreBlockData_def publish_def Let_def)
    moreover have "cached_rounds c' \<subseteq> insert (blk_Round blk) (cached_rounds c)"
      using cr by (auto simp: Let_def split: if_splits)
    ultimately show thesis
      using stored [OF Ok [unfolded mm] _ _ refl] st store_models_committed_final [OF ok rt] c' sub f' by simp
  qed
qed (use syn o run in \<open>(intro refused; auto simp: StoreBlockData_def synced_def Let_def)+\<close>)

abbreviation caching_tables :: "caching \<Rightarrow> tables" where
  "caching_tables s \<equiv> committed (ib_storage (snd s))"

lemma cb_Index_cases:
  assumes syn: "synced x s" and run: "cb_Index x oblk items params rtInfo s = (r, s')"
  obtains (refused) "caching_tables s' = caching_tables s" "fst s' = fst s" "r \<noteq> Ok ()" "faults (ib_storage (snd s')) = []"
    | (stored) blk txs rcs ls median bd where "block_models x oblk items params = Ok ((blk, txs, rcs, ls), median)"
      "block_stored x (caching_tables s) blk txs rcs ls (caching_tables s')"
      "blk_Round blk \<notin> blk_Round ` set (blocks (caching_tables s))"
      "bd = \<lparr>bd_Block = blk, bd_Receipts = unfailed_receipts x rcs, bd_UniqueTxes = unfailed_txs x txs, bd_Median = median\<rparr>"
      "tx_final x (caching_tables s) (caching_tables s')" "tables_ok (caching_tables s')"
      "cache_ok (fst s')" "maxCacheSize (fst s') = maxCacheSize (fst s)" "cache_sub (fst s') (insert_block bd (fst s))"
      "cached_rounds (fst s') \<subseteq> insert (blk_Round blk) (cached_rounds (fst s))" "faults (ib_storage (snd s')) = []"
proof -
  obtain c ib where s: "s = (c, ib)" by (cases s)
  let ?ib = "SetObserver c ib"
  have syn': "synced x (c, ?ib)" and o: "ib_observer ?ib = Some c" using syn s by (simp_all add: synced_def SetObserver_def)
  have t: "committed (ib_storage ?ib) = caching_tables s" using s by (simp add: SetObserver_def)
  obtain r1 ib1 where st: "StoreBlockData x OnBlockIndexed oblk items params ?ib = (r1, ib1)"
    by (cases "StoreBlockData x OnBlockIndexed oblk items params ?ib")
  obtain r2 ib2 where i: "Index x OnBlockIndexed oblk items params rtInfo ?ib = (r2, ib2)"
    by (cases "Index x OnBlockIndexed oblk items params rtInfo ?ib")
  with st have ib2: "ib_storage ib2 = ib_storage ib1" "ib_observer ib2 = ib_observer ib1" "r2 = Ok () \<longleftrightarrow> (\<exists>u. r1 = Ok u)"
    by (cases r1; auto simp: Index_def split: option.splits)+
  have s': "r = r2" "s' = (case ib_observer ib2 of Some c' \<Rightarrow> c' | None \<Rightarrow> c, ib2)"
    using run s i by (simp_all add: cb_Index_def)
  from syn' o st show thesis
  proof (cases rule: StoreBlockData_cases)
    case refused
    then show thesis using that(1) s s' ib2 t by simp
  next
    case (stored blk txs rcs ls median bd c')
    show thesis by (rule that(2) [OF stored(1)]) (use stored s s' ib2 t in simp_all)
  qed
qed

lemma cb_Index_synced:
  assumes syn: "synced x s" and "cb_Index x oblk items params rtInfo s = (r, s')"
  shows "synced x s'"
  using assms
proof (cases rule: cb_Index_cases)
  case refused
  with syn show ?thesis by (auto simp: synced_def Let_def split: prod.splits)
next
  case (stored blk txs rcs ls median bd)
  have "coherent x (insert_block bd (fst s)) (caching_tables s')"
    by (rule coherent_insert [OF coherent_final [OF _ stored(5)]])
      (use stored(2,4) syn in \<open>auto simp: block_stored_def synced_def Let_def split: prod.splits\<close>)
  then have "coherent x (fst s') (caching_tables s')" using stored(9) unfolding coherent_def cache_sub_def by blast
  moreover have "cached_rounds (fst s') \<subseteq> blk_Round ` set (blocks (caching_tables s'))"
    using stored(2,10) syn by (auto simp: block_stored_def block_row_def synced_def Let_def split: prod.splits)
  ultimately show ?thesis using stored(6-8,11) syn by (auto simp: synced_def Let_def split: prod.splits)
qed

lemma cb_Index_final:
  assumes "synced x s" and "cb_Index x oblk items params rtInfo s = (r, s')"
  shows "tx_final x (caching_tables s) (caching_tables s')"
  using assms by (cases rule: cb_Index_cases) (simp_all add: txo.R_refl)

text \<open>A gateway at work: blocks are indexed, and every query of the backend is asked, in any order.\<close>

datatype cache_label = Indexed "unit outcome" | Queried

inductive cache_step :: "ext \<Rightarrow> caching \<Rightarrow> cache_label \<Rightarrow> caching \<Rightarrow> bool" for x where
  cs_Index: "cb_Index x oblk items params rtInfo s = (r, s') \<Longrightarrow> cache_step x s (Indexed r) s'"
| cs_BlockNumber: "cb_BlockNumber s = (r1, s') \<Longrightarrow> cache_step x s Queried s'"
| cs_QueryBlockRound: "cb_QueryBlockRound x h s = (r2, s') \<Longrightarrow> cache_step x s Queried s'"
| cs_QueryBlockHash: "cb_QueryBlockHash x n s = (r3, s') \<Longrightarrow> cache_step x s Queried s'"
| cs_QueryLastIndexedRound: "cb_QueryLastIndexedRound s = (r1, s') \<Longrightarrow> cache_step x s Queried s'"
| cs_QueryLastRetainedRound: "cb_QueryLastRetainedRound fuel env s = Some (r1, s') \<Longrightarrow> cache_step x s Queried s'"
| cs_QueryTransaction: "cb_QueryTransaction x h s = (r4, s') \<Longrightarrow> cache_step x s Queried s'"
| cs_GetBlockByRound: "cb_GetBlockByRound x n s = (r5, s') \<Longrightarrow> cache_step x s Queried s'"
| cs_GetBlockByHash: "cb_GetBlockByHash x h s = (r5, s') \<Longrightarrow> cache_step x s Queried s'"
| cs_CountByRound: "cb_GetBlockTransactionCountByRound x n s = (r6, s') \<Longrightarrow> cache_step x s Queried s'"
| cs_CountByHash: "cb_GetBlockTransactionCountByHash x h s = (r6, s') \<Longrightarrow> cache_step x s Queried s'"
| cs_ByHashAndIndex: "cb_GetTransactionByBlockHashAndIndex x h i s = (r4, s') \<Longrightarrow> cache_step x s Queried s'"
| cs_GetTransactionReceipt: "cb_GetTransactionReceipt x h s = (r7, s') \<Longrightarrow> cache_step x s Queried s'"
| cs_GetLogs: "cb_GetLogs n m s = Some (r8, s') \<Longrightarrow> cache_step x s Queried s'"

inductive_cases cs_IndexedE: "cache_step x s (Indexed r) s'"
inductive_cases cs_QueriedE: "cache_step x s Queried s'"

lemma queried_same: "cache_step x s Queried s' \<Longrightarrow> same_caching s s'"
  by (erule cs_QueriedE)
    (auto intro: cb_GetLogs_leaves cb_QueryLastRetainedRound_leaves leavesD [OF cb_BlockNumber_leaves]
      leavesD [OF cb_QueryLastIndexedRound_leaves] leavesD [OF cb_queries_leave(1)] leavesD [OF cb_queries_leave(2)]
      leavesD [OF cb_queries_leave(3)] leavesD [OF cb_queries_leave(4)] leavesD [OF cb_queries_leave(5)]
      leavesD [OF cb_queries_leave(6)] leavesD [OF cb_queries_leave(7)] leavesD [OF cb_queries_leave(8)]
      leavesD [OF cb_queries_leave(9)])

lemma synced_view: "synced x (c, ib) = synced x (cache_view c, ib)"
  by (simp add: synced_def cache_view_def cache_ok_def entries_ok_def size_ok_def cached_rounds_def coherent_def Let_def)

lemma same_caching_synced:
  assumes "synced x s" and "same_caching s s'"
  shows "synced x s'"
proof -
  obtain c ib c' ib' where s: "s = (c, ib)" "s' = (c', ib')" by (cases s, cases s')
  with assms have "synced x (c', ib)" using synced_view [of x c ib] synced_view [of x c' ib] by (simp add: same_caching_def)
  moreover have "faults (ib_storage ib) = []" using assms(1) s by (simp add: synced_def Let_def)
  ultimately show ?thesis using assms(2) s synced_same_tables by (auto simp: same_caching_def same_ib_def same_db_def)
qed

interpretation csi: step_invariant "cache_step x" "synced x" for x
proof unfold_locales
  fix s l s' assume "cache_step x s l s'" and "synced x s"
  then show "synced x s'"
    by (cases l) (auto elim!: cs_IndexedE intro: cb_Index_synced dest!: queried_same intro: same_caching_synced)
qed

text \<open>Later tables keep what settled.\<close>

interpretation csf: step_invariant "cache_step x" "\<lambda>s. synced x s \<and> tx_final x t (caching_tables s)" for x t
proof unfold_locales
  fix s l s' assume step: "cache_step x s l s'" and i: "synced x s \<and> tx_final x t (caching_tables s)"
  have "tx_final x (caching_tables s) (caching_tables s')"
  proof (cases l)
    case (Indexed r)
    with step i show ?thesis by (auto elim!: cs_IndexedE intro: cb_Index_final)
  next
    case Queried
    with step have "caching_tables s' = caching_tables s"
      by (auto dest!: queried_same simp: same_caching_def same_ib_def same_db_def)
    then show ?thesis by (simp add: txo.R_refl)
  qed
  with i csi.inv_step [OF step] show "synced x s' \<and> tx_final x t (caching_tables s')" by (auto intro: txo.R_trans)
qed

text \<open>The states of a gateway that was started on a database that does not fail.\<close>

definition cache_reach :: "ext \<Rightarrow> caching \<Rightarrow> bool" where
  "cache_reach x s \<longleftrightarrow> (\<exists>ib cfg. tables_ok (committed (ib_storage ib)) \<and> faults (ib_storage ib) = []
     \<and> maxCacheSize (NewCache cfg) \<noteq> max_u64 \<and> reach (cache_step x) (NewCachingBackend ib cfg) s)"

lemma NewCachingBackend_synced:
  "tables_ok (committed (ib_storage ib)) \<Longrightarrow> faults (ib_storage ib) = [] \<Longrightarrow> maxCacheSize (NewCache cfg) \<noteq> max_u64 \<Longrightarrow>
     synced x (NewCachingBackend ib cfg)"
  by (simp add: NewCachingBackend_def synced_def Let_def new_cache_ok SetObserver_def coherent_def)
    (simp add: NewCache_def Let_def)

lemma cache_reach_synced: "cache_reach x s \<Longrightarrow> synced x s"
  unfolding cache_reach_def using csi.reach_inv NewCachingBackend_synced by blast

lemma cache_reach_step: "cache_reach x s \<Longrightarrow> cache_step x s l s' \<Longrightarrow> cache_reach x s'"
  unfolding cache_reach_def by (blast intro: reach_step [where step = "cache_step x"])

lemma fst_cachedTxByHash: "fst (cachedTxByHash x h c) = map_option tce_tx (gm_load (txByHashHex c) (Hash_Hex x h))"
  by (simp add: cachedTxByHash_def split: option.split)

lemma ib_QueryTransaction_row:
  "faults (ib_storage ib) = [] \<Longrightarrow> tx_at (committed (ib_storage ib)) (Hash_Hex x h) = Some tx \<Longrightarrow>
     fst (ib_QueryTransaction x h ib) = Ok tx"
  by (simp add: ib_QueryTransaction_def on_storage_def GetTransaction_def query_row_def query_def statement_def
      next_fault_def visible_def)

lemma synced_transparent:
  assumes syn: "synced x (c, ib)"
  shows "fst (cb_QueryTransaction x h (c, ib)) = fst (ib_QueryTransaction x h ib)"
proof -
  obtain res c1 where l: "cachedTxByHash x h c = (res, c1)" by (cases "cachedTxByHash x h c")
  show ?thesis
  proof (cases res)
    case None
    then show ?thesis
      by (auto simp: cb_QueryTransaction_def or_inner_def on_inner_def l split: prod.splits)
  next
    case (Some tx)
    then obtain e where e: "gm_load (txByHashHex c) (Hash_Hex x h) = Some e" "tx = tce_tx e"
      using fst_cachedTxByHash [of x h c] l by (auto simp: map_option_case split: option.splits)
    then have "tx_at (committed (ib_storage ib)) (Hash_Hex x h) = Some tx" "faults (ib_storage ib) = []"
      using syn by (auto simp: synced_def Let_def coherent_def)
    then have "fst (ib_QueryTransaction x h ib) = Ok tx" by (simp add: ib_QueryTransaction_row)
    then show ?thesis using Some by (simp add: cb_QueryTransaction_def or_inner_def l)
  qed
qed


lemma example_caching_reach: "cache_reach x example_caching"
  unfolding cache_reach_def example_caching_def
  by (intro exI conjI, rule_tac [4] Step_Systems.reach_start)
    (simp_all add: NewIndexBackend_def example_db_def empty_tables_def tables_ok_def tbl_unique_def NewCache_def)


end
