(* ===== verification/End_To_End.thy ===== *)
theory End_To_End
  imports Cache_Service Eth_Api
begin

text \<open>
  From a block of the node to an answer of the API: the lemmas that follow one transaction, its receipt and the logs of one block through
  decoding (\<open>Index_Convert\<close>), storing (\<open>Index_Backend\<close>), caching (\<open>Cache_Service\<close>) and the API (\<open>Eth_Api\<close>). The theorems they
  serve are in the root theory.
\<close>

subsection \<open>The rows of an indexed block\<close>

abbreviation block_hash_of :: "ext \<Rightarrow> OasisBlock \<Rightarrow> bytes" where
  "block_hash_of x oblk \<equiv> HexToHash x (OasisHash_Hex x (ob_EncodedHash oblk))"

lemma block_modelsE:
  assumes "block_models x oblk items params = Ok ((blk, txs, rcs, ls), median)"
  obtains d rest where "decode_txs x oblk items = Ok d" "ls = map (model_log x) (d_logs d)" "blk_Round blk = ob_Round oblk"
    "models_loop x (Hash_Hex x (block_hash_of x oblk)) (ob_Round oblk) (snd (ethToModelLogs x (d_logs d)))
       (hex_EncodeToString (map (\<lambda>c. of_char c) (hdr_Bloom (model_header x oblk (d_ethTxs d = []) (d_logs d)
          (gas_limit_of params) (min_gas_price_of params))))) 0 0 (d_ethTxs d) (d_status d) (d_gas d) (d_results d) = Ok (txs, rcs, rest)"
proof -
  obtain d where d: "decode_txs x oblk items = Ok d" using assms by (auto simp: block_models_def split: outcome.splits)
  obtain dbLogs txLogs where el: "ethToModelLogs x (d_logs d) = (dbLogs, txLogs)" by (cases "ethToModelLogs x (d_logs d)")
  from assms d el obtain rest where
    "models_loop x (Hash_Hex x (block_hash_of x oblk)) (ob_Round oblk) txLogs
       (hex_EncodeToString (map (\<lambda>c. of_char c) (hdr_Bloom (model_header x oblk (d_ethTxs d = []) (d_logs d)
          (gas_limit_of params) (min_gas_price_of params))))) 0 0 (d_ethTxs d) (d_status d) (d_gas d) (d_results d) = Ok (txs, rcs, rest)"
    "ls = dbLogs" "blk_Round blk = ob_Round oblk"
    by (auto simp: block_models_def blockToModels_def Let_def split: outcome.splits prod.splits)
  with el ethToModelLogs_spec(1) [OF el] show thesis by (intro that [OF d]) simp_all
qed

text \<open>The row of the \<open>i\<close>th Ethereum transaction of the block.\<close>

lemma block_models_tx:
  assumes m: "block_models x oblk items params = Ok ((blk, txs, rcs, ls), median)"
    and i: "i < length (filter is_ethereum_tx items)" and it: "filter is_ethereum_tx items ! i = item"
    and e: "Tx_UnmarshalBinary x (twr_Body item) = Inr e"
  shows "model_tx x (Hash_Hex x (block_hash_of x oblk)) (ob_Round oblk) i e (tx_status x item) \<in> set txs"
proof -
  obtain d rest bl tls where d: "decode_txs x oblk items = Ok d"
    and ml: "models_loop x (Hash_Hex x (block_hash_of x oblk)) (ob_Round oblk) tls bl 0 0
       (d_ethTxs d) (d_status d) (d_gas d) (d_results d) = Ok (txs, rcs, rest)"
    using m by (elim block_modelsE) blast
  note dec = decode_loop_result [OF d [unfolded decode_txs_def]]
  have len: "length (d_ethTxs d) = length (filter is_ethereum_tx items)"
    using dec by (metis empty_decoded_def decoded.select_convs(1) length_map list.simps(8) append_Nil)
  have "map Inr (d_ethTxs d) ! i = (Inr e :: gerror + EthTx)" using dec i it e by (simp add: empty_decoded_def)
  then have 1: "d_ethTxs d ! i = e" using len i by simp
  have 2: "d_status d ! i = tx_status x item" using dec i it by (simp add: empty_decoded_def)
  have "txs ! i = model_tx x (Hash_Hex x (block_hash_of x oblk)) (ob_Round oblk) i e (tx_status x item) \<and> i < length txs"
    using models_loop_spec [OF ml] len i 1 2 by simp
  then show ?thesis using nth_mem by metis
qed

subsection \<open>The logs of an indexed block\<close>

lemma decode_tx_logs:
  assumes "decode_tx x blk n i item d = Ok d'"
  obtains (same) "d_ethTxs d' = d_ethTxs d" "d_logs d' = d_logs d"
    | (more) e ls bh where "d_ethTxs d' = d_ethTxs d @ [e]" "d_logs d' = d_logs d @ Logs2EthLogs ls (ob_Round blk) bh (etx_Hash e)
        (word_of_nat (length (d_logs d))) (word_of_nat (length (d_ethTxs d)))"
  using assms by (auto simp: decode_tx_def Let_def split: if_splits sum.splits outcome.splits)

text \<open>The logs of a block are grouped by its transactions, in their order.\<close>

definition logs_grouped :: "OasisBlock \<Rightarrow> decoded \<Rightarrow> bool" where
  "logs_grouped blk d \<longleftrightarrow> (\<forall>l \<in> set (d_logs d). el_BlockNumber l = ob_Round blk)
     \<and> (length (d_ethTxs d) \<le> 2 ^ 32 \<longrightarrow> sorted (map (\<lambda>l. unat (el_TxIndex l)) (d_logs d))
        \<and> (\<forall>l \<in> set (d_logs d). unat (el_TxIndex l) < length (d_ethTxs d)
             \<and> el_TxHash l = etx_Hash (d_ethTxs d ! unat (el_TxIndex l))))"

lemma Logs2EthLogs_number: "l \<in> set (Logs2EthLogs ls n bh th si ti) \<Longrightarrow> el_BlockNumber l = n"
  by (auto simp: Logs2EthLogs_def)

lemma decode_tx_grouped:
  assumes "decode_tx x blk n i item d = Ok d'" and g: "logs_grouped blk d"
  shows "logs_grouped blk d'"
  using assms(1)
proof (cases rule: decode_tx_logs)
  case (more e ls bh)
  let ?k = "length (d_ethTxs d)"
  let ?new = "Logs2EthLogs ls (ob_Round blk) bh (etx_Hash e) (word_of_nat (length (d_logs d))) (word_of_nat ?k)"
  have new: "el_TxIndex l = ucast (word_of_nat ?k :: u32) \<and> el_TxHash l = etx_Hash e \<and> el_BlockNumber l = ob_Round blk"
    if "l \<in> set ?new" for l using that Logs2EthLogs_tx Logs2EthLogs_number by blast
  have k: "unat (ucast (word_of_nat ?k :: u32) :: u64) = ?k" if "?k < 2 ^ 32"
    using that by (simp add: unsigned_ucast_eq unsigned_of_nat take_bit_nat_eq_self)
  then have at: "unat (el_TxIndex l) = ?k" if "?k < 2 ^ 32" "l \<in> set ?new" for l using that new by simp
  show ?thesis
    unfolding logs_grouped_def more
  proof (intro conjI impI ballI)
    fix l assume "l \<in> set (d_logs d @ ?new)"
    then show "el_BlockNumber l = ob_Round blk" using g new by (auto simp: logs_grouped_def)
  next
    assume le: "length (d_ethTxs d @ [e]) \<le> 2 ^ 32"
    then have const: "map (\<lambda>l. unat (el_TxIndex l)) ?new = replicate (length ?new) ?k"
      using at by (simp only: map_replicate_const [symmetric]) (intro map_cong; simp)
    from le g have "sorted (map (\<lambda>l. unat (el_TxIndex l)) (d_logs d))" "\<forall>l \<in> set (d_logs d). unat (el_TxIndex l) \<le> ?k"
      by (simp_all add: logs_grouped_def less_imp_le)
    then show "sorted (map (\<lambda>l. unat (el_TxIndex l)) (d_logs d @ ?new))"
      unfolding map_append const by (simp add: sorted_append)
  next
    fix l assume le: "length (d_ethTxs d @ [e]) \<le> 2 ^ 32" and l: "l \<in> set (d_logs d @ ?new)"
    then show "unat (el_TxIndex l) < length (d_ethTxs d @ [e])" "el_TxHash l = etx_Hash ((d_ethTxs d @ [e]) ! unat (el_TxIndex l))"
      using g at new by (auto simp: logs_grouped_def nth_append less_SucI)
  qed
qed (use g in \<open>simp add: logs_grouped_def\<close>)

lemma decode_txs_grouped: "decode_txs x blk items = Ok d \<Longrightarrow> logs_grouped blk d"
proof -
  have "decode_loop x blk n i items d0 = Ok d \<Longrightarrow> logs_grouped blk d0 \<Longrightarrow> logs_grouped blk d" for n i d0
  proof (induction items arbitrary: i d0)
    case (Cons item items)
    then obtain d1 where "decode_tx x blk n i item d0 = Ok d1" "decode_loop x blk n (i + 1) items d1 = Ok d"
      by (auto split: outcome.splits)
    with Cons decode_tx_grouped show ?case by blast
  qed simp
  moreover have "logs_grouped blk empty_decoded" by (simp add: logs_grouped_def empty_decoded_def)
  ultimately show "decode_txs x blk items = Ok d \<Longrightarrow> logs_grouped blk d" unfolding decode_txs_def by blast
qed

text \<open>Reading a sorted list group by group.\<close>

lemma sorted_split: "sorted (map f xs) \<Longrightarrow> \<forall>y \<in> set xs. f y \<le> (m :: nat) \<Longrightarrow>
    filter (\<lambda>y. f y < m) xs @ filter (\<lambda>y. f y = m) xs = xs"
proof (induction xs)
  case (Cons y ys)
  show ?case
  proof (cases "f y < m")
    case False
    with Cons.prems have "\<forall>z \<in> set (y # ys). f z = m" by fastforce
    then have "filter (\<lambda>z. f z < m) (y # ys) = []" "filter (\<lambda>z. f z = m) (y # ys) = y # ys"
      unfolding filter_empty_conv filter_id_conv by simp_all
    then show ?thesis by (simp only: append_Nil)
  qed (use Cons in simp)
qed simp

lemma concat_groups: "sorted (map f xs) \<Longrightarrow> \<forall>y \<in> set xs. f y < n \<Longrightarrow> concat (map (\<lambda>k. filter (\<lambda>y. f y = k) xs) [0..<n]) = xs"
proof (induction n arbitrary: xs)
  case (Suc n)
  let ?low = "filter (\<lambda>y. f y < n) xs"
  have "map (\<lambda>k. filter (\<lambda>y. f y = k) xs) [0..<n] = map (\<lambda>k. filter (\<lambda>y. f y = k) ?low) [0..<n]"
    by (auto intro!: filter_cong)
  moreover have "concat (map (\<lambda>k. filter (\<lambda>y. f y = k) ?low) [0..<n]) = ?low"
    by (rule Suc.IH) (use Suc.prems(1) in \<open>auto intro: sorted_filter\<close>)
  ultimately have "concat (map (\<lambda>k. filter (\<lambda>y. f y = k) xs) [0..<n]) = ?low" by metis
  moreover have "?low @ filter (\<lambda>y. f y = n) xs = xs" using sorted_split [of f xs n] Suc.prems by (simp add: less_Suc_eq_le)
  ultimately show ?case by simp
qed simp

lemma concat_filter: "concat (map f (filter P xs)) = concat (map (\<lambda>y. if P y then f y else []) xs)"
  by (induction xs) auto

text \<open>Two successful transactions of a stored block with the same hash are the same one.\<close>

lemma settled_positions:
  assumes rec: "\<forall>tx \<in> set txs. recorded_tx x t tx" and idx: "\<And>k. k < length txs \<Longrightarrow> tx_Index (txs ! k) = word_of_nat k"
    and "length txs \<le> 2 ^ 32" and jk: "j < length txs" "k < length txs" and h: "tx_Hash (txs ! j) = tx_Hash (txs ! k)"
    and st: "tx_Status (txs ! j) \<noteq> ReceiptStatusFailed x" "tx_Status (txs ! k) \<noteq> ReceiptStatusFailed x"
  shows "j = k"
proof -
  have "tx_at t (tx_Hash (txs ! j)) = Some (txs ! j)" "tx_at t (tx_Hash (txs ! k)) = Some (txs ! k)"
    using rec jk st nth_mem unfolding recorded_tx_def by blast+
  then have "(word_of_nat j :: u32) = word_of_nat k" using h idx jk by (metis option.inject)
  then show "j = k" using jk assms(3) by (simp add: word_of_nat_eq_iff take_bit_nat_eq_self)
qed

text \<open>The logs the cache keeps for a stored block are all of its logs, when failed transactions emitted none.\<close>

lemma cached_block_logs:
  assumes m: "block_models x oblk items params = Ok ((blk, txs, rcs, ls), median)" and d: "decode_txs x oblk items = Ok d"
    and small: "length (d_ethTxs d) \<le> 2 ^ 32" and rec: "\<forall>tx \<in> set txs. recorded_tx x t tx"
    and unfailed: "\<forall>l \<in> set (d_logs d). ucast (d_status d ! unat (el_TxIndex l)) \<noteq> ReceiptStatusFailed x"
  shows "concat (map rc_Logs (unfailed_receipts x rcs)) = ls"
proof -
  let ?n = "length (d_ethTxs d)"
  obtain rest bl tls where ls: "ls = map (model_log x) (d_logs d)" and el: "tls = snd (ethToModelLogs x (d_logs d))"
    and ml: "models_loop x (Hash_Hex x (block_hash_of x oblk)) (ob_Round oblk) tls bl 0 0
       (d_ethTxs d) (d_status d) (d_gas d) (d_results d) = Ok (txs, rcs, rest)"
    using m d by (elim block_modelsE) auto
  note spec = models_loop_spec [OF ml, simplified]
  have ml_logs: "ethToModelLogs x (d_logs d) = (ls, tls)"
    using ethToModelLogs_logs [of x "d_logs d"] ls el by (cases "ethToModelLogs x (d_logs d)") simp
  have g: "sorted (map (\<lambda>l. unat (el_TxIndex l)) (d_logs d))"
    "\<And>l. l \<in> set (d_logs d) \<Longrightarrow> unat (el_TxIndex l) < ?n \<and> el_TxHash l = etx_Hash (d_ethTxs d ! unat (el_TxIndex l))"
    using decode_txs_grouped [OF d] small by (simp_all add: logs_grouped_def)
  have tx: "tx_Hash (txs ! k) = Hash_Hex x (etx_Hash (d_ethTxs d ! k))" "tx_Status (txs ! k) = ucast (d_status d ! k)"
    "tx_Index (txs ! k) = word_of_nat k" "rc_Status (rcs ! k) = ucast (d_status d ! k)"
    "rc_Logs (rcs ! k) = filter (\<lambda>l. log_TxHash l = tx_Hash (txs ! k)) ls" if "k < ?n" for k
    using spec that ethToModelLogs_spec(2) [OF ml_logs] by (auto simp: model_tx_def model_receipt_def Let_def)
  have same: "j = k" if "j < ?n" "k < ?n" "tx_Hash (txs ! j) = tx_Hash (txs ! k)"
    "tx_Status (txs ! j) \<noteq> ReceiptStatusFailed x" "tx_Status (txs ! k) \<noteq> ReceiptStatusFailed x" for j k
    by (rule settled_positions [OF rec _ _ _ _ that(3-5)]) (use that tx(3) small spec in simp_all)
  have "(if rc_Status (rcs ! k) \<noteq> ReceiptStatusFailed x then rc_Logs (rcs ! k) else []) =
      filter (\<lambda>l. unat (log_TxIndex l) = k) ls" if "k < ?n" for k
  proof (cases "rc_Status (rcs ! k) = ReceiptStatusFailed x")
    case True
    then have "unat (log_TxIndex l) \<noteq> k" if "l \<in> set ls" for l
      using that unfailed tx(4) [OF \<open>k < ?n\<close>] by (auto simp: ls model_log_def)
    with True show ?thesis by simp
  next
    case False
    have "(log_TxHash l = tx_Hash (txs ! k)) = (unat (log_TxIndex l) = k)" if "l \<in> set ls" for l
      using that g(2) unfailed same [of "unat (log_TxIndex l)" k] tx \<open>k < ?n\<close> False by (auto simp: ls model_log_def)
    then show ?thesis using False tx(5) [OF \<open>k < ?n\<close>] by (simp cong: filter_cong)
  qed
  then have "map (\<lambda>rc. if rc_Status rc \<noteq> ReceiptStatusFailed x then rc_Logs rc else []) rcs =
      map (\<lambda>k. filter (\<lambda>l. unat (log_TxIndex l) = k) ls) [0..<?n]"
    using conjunct1 [OF conjunct2 [OF spec]] by (intro nth_equalityI) simp_all
  then have "concat (map rc_Logs (unfailed_receipts x rcs)) = concat (map (\<lambda>k. filter (\<lambda>l. unat (log_TxIndex l) = k) ls) [0..<?n])"
    unfolding unfailed_receipts_def concat_filter by simp
  also have "\<dots> = ls"
    using g by (intro concat_groups) (auto simp: ls model_log_def comp_def)
  finally show ?thesis .
qed

text \<open>The database returns the logs of one block in the order in which they were emitted.\<close>

lemma block_logs_order:
  assumes d: "decode_txs x oblk items = Ok d" and "length (d_ethTxs d) \<le> 2 ^ 32" and "length (d_logs d) \<le> 2 ^ 64"
    and "mset rows = mset (map (model_log x) (d_logs d))"
  shows "sort_key (\<lambda>l. (log_Round l, log_TxIndex l, log_Index l)) rows = map (model_log x) (d_logs d)"
proof -
  let ?key = "\<lambda>l. (log_Round l, log_TxIndex l, log_Index l)" and ?ls = "map (model_log x) (d_logs d)"
  have g: "sorted (map (\<lambda>l. unat (el_TxIndex l)) (d_logs d))" "\<forall>l \<in> set (d_logs d). el_BlockNumber l = ob_Round oblk"
    using decode_txs_grouped [OF d] assms(2) by (simp_all add: logs_grouped_def)
  have idx: "map el_Index (d_logs d) = map word_of_nat [0..<length (d_logs d)]"
    using decode_txs_ok [OF d] by (simp add: decoded_ok_def)
  have at: "unat (el_Index (d_logs d ! k)) = k" if "k < length (d_logs d)" for k
  proof -
    have "el_Index (d_logs d ! k) = word_of_nat k" using idx that nth_map [OF that, of el_Index] by simp
    then show ?thesis using that assms(3) by (simp add: unsigned_of_nat take_bit_nat_eq_self)
  qed
  have "sorted (map ?key ?ls)"
    unfolding sorted_iff_nth_mono_less
  proof (intro allI impI)
    fix i j assume ij: "i < j" "j < length (map ?key ?ls)"
    then have "el_TxIndex (d_logs d ! i) \<le> el_TxIndex (d_logs d ! j)" "el_Index (d_logs d ! i) \<le> el_Index (d_logs d ! j)"
      using g(1) at [of i] at [of j] by (auto simp: sorted_iff_nth_mono_less word_le_nat_alt)
    with ij g(2) show "map ?key ?ls ! i \<le> map ?key ?ls ! j"
      by (auto simp: model_log_def less_eq_prod_def)
  qed
  moreover have "inj_on ?key (set ?ls)"
  proof (rule inj_onI)
    fix l l' assume "l \<in> set ?ls" "l' \<in> set ?ls" "?key l = ?key l'"
    then obtain i j where "i < length (d_logs d)" "j < length (d_logs d)" "l = ?ls ! i" "l' = ?ls ! j"
      "el_Index (d_logs d ! i) = el_Index (d_logs d ! j)"
      by (auto simp: in_set_conv_nth model_log_def)
    then show "l = l'" using at by metis
  qed
  moreover have "set rows = set ?ls" using assms(4) by (metis set_mset_mset)
  ultimately show ?thesis using assms(4) by (intro sort_key_inj_key_eq) simp_all
qed

subsection \<open>Settled logs\<close>

text \<open>The round \<open>n\<close> is stored, its logs are \<open>L\<close>, and the cache has no others for it.\<close>

definition logs_settled :: "u64 \<Rightarrow> Log list \<Rightarrow> caching \<Rightarrow> bool" where
  "logs_settled n L s \<longleftrightarrow> n \<in> blk_Round ` set (blocks (caching_tables s))
     \<and> filter (\<lambda>l. log_Round l = n) (logs (caching_tables s)) = L
     \<and> (\<forall>bd. bdata (fst s) n = Some bd \<longrightarrow> concat (map rc_Logs (bd_Receipts bd)) = L)"

lemma block_models_rounds:
  assumes "block_models x oblk items params = Ok ((blk, txs, rcs, ls), median)"
  shows "blk_Round blk = ob_Round oblk" "\<And>l. l \<in> set ls \<Longrightarrow> log_Round l = ob_Round oblk"
  using assms by (auto elim!: block_modelsE dest!: decode_txs_grouped simp: logs_grouped_def model_log_def)

lemma same_caching_settled: "same_caching s s' \<Longrightarrow> logs_settled n L s' = logs_settled n L s"
proof -
  assume "same_caching s s'"
  then have v: "cache_view (fst s') = cache_view (fst s)" and t: "caching_tables s' = caching_tables s"
    by (simp_all add: same_caching_def same_ib_def same_db_def)
  have "blockDataByNumber (cache_view c) = blockDataByNumber c" for c by (simp add: cache_view_def)
  then have "blockDataByNumber (fst s') = blockDataByNumber (fst s)" using v by metis
  with t show ?thesis by (simp add: logs_settled_def)
qed

lemma cached_after_insert:
  assumes "cache_sub c' (insert_block bd c)" and "bdata c' n = Some bd'"
  shows "if n = blk_Round (bd_Block bd) then bd' = bd else bdata c n = Some bd'"
proof -
  have "bdata (insert_block bd c) n = Some bd'" using assms by (simp add: cache_sub_def del: insert_block_fields)
  then show ?thesis by (auto split: if_splits)
qed

lemma cb_Index_settled:
  assumes syn: "synced x s" and "logs_settled n L s" and "cb_Index x oblk items params rtInfo s = (r, s')"
  shows "logs_settled n L s'"
  using syn assms(3)
proof (cases rule: cb_Index_cases)
  case refused
  then show ?thesis using assms(2) by (simp add: logs_settled_def)
next
  case (stored blk txs rcs ls median bd)
  note r = block_models_rounds [OF stored(1)]
  have ne: "blk_Round blk \<noteq> n" using stored(3) assms(2) by (auto simp: logs_settled_def)
  then have "filter (\<lambda>l. log_Round l = n) ls = []" using r by (auto simp: filter_empty_conv)
  moreover have "bdata (fst s) n = Some bd'" if "bdata (fst s') n = Some bd'" for bd'
    using cached_after_insert [OF stored(9) that] ne stored(4) by simp
  ultimately show ?thesis using assms(2) stored(2) by (auto simp: logs_settled_def block_stored_def)
qed

interpretation csl: step_invariant "cache_step x" "\<lambda>s. synced x s \<and> logs_settled n L s" for x n L
proof unfold_locales
  fix s l s' assume step: "cache_step x s l s'" and i: "synced x s \<and> logs_settled n L s"
  then have "logs_settled n L s'"
    by (cases l) (auto elim!: cs_IndexedE intro: cb_Index_settled dest!: queried_same simp: same_caching_settled)
  with i csi.inv_step [OF step] show "synced x s' \<and> logs_settled n L s'" by simp
qed

lemma indexed_logs_settled:
  assumes syn: "synced x s" and run: "cb_Index x oblk items params rtInfo s = (Ok u, s')"
    and d: "decode_txs x oblk items = Ok d" and "length (d_ethTxs d) \<le> 2 ^ 32"
    and "\<forall>l \<in> set (d_logs d). ucast (d_status d ! unat (el_TxIndex l)) \<noteq> ReceiptStatusFailed x"
    and refs: "\<forall>l \<in> set (logs (caching_tables s)). log_Round l \<in> blk_Round ` set (blocks (caching_tables s))"
  shows "logs_settled (ob_Round oblk) (map (model_log x) (d_logs d)) s'"
  using syn run
proof (cases rule: cb_Index_cases)
  case (stored blk txs rcs ls median bd)
  note r = block_models_rounds [OF stored(1)]
  have ls: "ls = map (model_log x) (d_logs d)" using stored(1) d by (auto elim!: block_modelsE)
  have "filter (\<lambda>l. log_Round l = ob_Round oblk) (logs (caching_tables s)) = []"
    using refs stored(3) unfolding filter_empty_conv r(1) by metis
  moreover have "filter (\<lambda>l. log_Round l = ob_Round oblk) ls = ls" using r(2) by (simp add: filter_id_conv)
  moreover have "concat (map rc_Logs (unfailed_receipts x rcs)) = ls"
    using cached_block_logs [OF stored(1) d assms(4) _ assms(5)] stored(2) by (auto simp: block_stored_def)
  then have "concat (map rc_Logs (bd_Receipts bd')) = ls" if "bdata (fst s') (ob_Round oblk) = Some bd'" for bd'
    using cached_after_insert [OF stored(9) that] r(1) stored(4) by simp
  ultimately show ?thesis
    using stored(2) r(1) ls by (auto simp: logs_settled_def block_stored_def block_row_def)
qed simp

text \<open>Asking for one round: from the cache or from the database, the logs are the same.\<close>

lemma settled_logs_query:
  assumes syn: "synced x (c, ib)" and set: "logs_settled n L (c, ib)" and "n \<noteq> max_u64"
    and perm: "\<forall>xs. mset (scan_logs (ib_storage ib) xs) = mset xs"
    and order: "\<And>rows. mset rows = mset L \<Longrightarrow> sort_key (\<lambda>l. (log_Round l, log_TxIndex l, log_Index l)) rows = L"
  shows "\<exists>b. cb_GetLogs n n (c, ib) = Some (Ok L, b)"
proof -
  have f: "faults (ib_storage ib) = []" and e: "entries_ok c" using syn by (simp_all add: synced_def cache_ok_def Let_def)
  have "filter (\<lambda>l. n \<le> log_Round l \<and> log_Round l \<le> n) (logs (committed (ib_storage ib))) = L"
    using set by (auto simp: logs_settled_def intro!: filter_cong)
  then have "ib_GetLogs n n ib = (Ok L, ib)"
    using f order [of "scan_logs (ib_storage ib) L"] perm
    by (simp add: ib_GetLogs_def on_storage_def GetLogs_def query_def statement_def next_fault_def visible_def ret_def)
  then have miss: "on_inner (ib_GetLogs n n) (c', ib) = (Ok L, (c', ib))" for c' by (simp add: on_inner_def)
  have "\<not> n + 1 \<le> n" using assms(3) by (simp add: word_le_nat_alt)
  then have "cached_logs_loop c n n [] False = Some (case cachedLogsByNumber n c of None \<Rightarrow> ([], False) | Some ls \<Rightarrow> (ls, True))"
    by (subst cached_logs_loop.simps) (simp add: cached_logs_loop.simps [of c "n + 1"] split: option.split)
  moreover have "ls = L" if "cachedLogsByNumber n c = Some ls" for ls
    using that entries_okD(5) [OF e, of n] set by (auto simp: cachedLogsByNumber_def logs_settled_def)
  ultimately show ?thesis using miss by (auto simp: cb_GetLogs_def Let_def split: option.split)
qed

text \<open>A query for the rounds \<open>n\<close> to \<open>n\<close>.\<close>

lemma one_round_range:
  assumes "tags_ok (api_tags api)" and "n \<noteq> RoundLatest (api_ext api)" and "uint n < 2 ^ 63"
    and "fq_BlockHash filt = None" and "fq_FromBlock filt = Some (uint n)" and "fq_ToBlock filt = Some (uint n)"
  shows "getStartEndRounds api filt a = Some (Ok (n, n), a)"
proof -
  have "big_Int64 (uint n) = uint n" using assms(3) by (intro big_Int64_id) (simp_all add: order_trans [OF _ uint_ge_0])
  then show ?thesis
    using assms round_of_number [OF assms(1), of "uint n" a]
    by (simp add: getBlockRound_def getStartEndRounds_def p_then_def p_ret_def resolveLatest_def)
qed

subsection \<open>A transaction and its answer\<close>

lemma tx_status_ok: "status_codes x \<Longrightarrow> cr_IsSuccess (twr_Result item) \<Longrightarrow> ucast (tx_status x item) \<noteq> ReceiptStatusFailed x"
proof -
  assume "status_codes x" "cr_IsSuccess (twr_Result item)"
  moreover from this have "ucast (ucast (ReceiptStatusSuccessful x) :: u8) = ReceiptStatusSuccessful x"
    by (simp add: status_codes_def ucast_u8_u64)
  ultimately show ?thesis by (auto simp: tx_status_def status_codes_def)
qed

text \<open>What the API answers for a transaction that settled before.\<close>

lemma settled_transaction_answer:
  assumes syn: "synced x s" and fin: "recorded_tx x (caching_tables s) tx" and st: "tx_Status tx \<noteq> ReceiptStatusFailed x"
    and later: "reach (cache_step x) s (st_backend a)" and h: "tx_Hash tx = Hash_Hex x h"
    and api: "api_backend api = caching_ops x fuel env" "api_ext api = x"
  shows "\<exists>a'. api_GetTransactionByHash api h a = Some (Ok (Some (NewRPCTransaction x tx)), a')"
proof -
  obtain c ib where b: "st_backend a = (c, ib)" by (cases "st_backend a")
  have i: "synced x (c, ib) \<and> tx_final x (caching_tables s) (caching_tables (c, ib))"
    using csf.reach_inv [OF later, of "caching_tables s"] syn b by (simp add: txo.R_refl)
  have "tx_at (committed (ib_storage ib)) (Hash_Hex x h) = Some tx"
    using recorded_tx_final [OF fin conjunct2 [OF i]] st h by (simp add: recorded_tx_def)
  then have "fst (cb_QueryTransaction x h (c, ib)) = Ok tx"
    using synced_transparent [OF conjunct1 [OF i], of h] ib_QueryTransaction_row [of ib x h tx] i
    by (simp add: synced_def Let_def)
  then obtain b' where "cb_QueryTransaction x h (c, ib) = (Ok tx, b')" by (cases "cb_QueryTransaction x h (c, ib)") simp
  then show ?thesis
    by (simp add: api_GetTransactionByHash_def p_catch_def p_then_def on_be_def total_def api caching_ops_def b p_ret_def)
qed

subsection \<open>A receipt and its answer\<close>

lemma receipt_row_round [simp]: "rc_Round (receipt_row r) = rc_Round r"
  by (simp add: receipt_row_def)

lemma receipt_row_eqD: "receipt_row r = receipt_row r' \<Longrightarrow> rc_Logs r = rc_Logs r' \<Longrightarrow> r = r'"
  by (cases r; cases r') (simp add: receipt_row_def)

text \<open>The receipt of the \<open>i\<close>th Ethereum transaction of the block.\<close>

lemma block_models_receipt:
  assumes m: "block_models x oblk items params = Ok ((blk, txs, rcs, ls), median)" and d: "decode_txs x oblk items = Ok d"
  shows "length rcs = length (d_ethTxs d)"
    and "\<And>i. i < length (d_ethTxs d) \<Longrightarrow> rc_TransactionHash (rcs ! i) = Hash_Hex x (etx_Hash (d_ethTxs d ! i))
      \<and> rc_Status (rcs ! i) = ucast (d_status d ! i) \<and> rc_Round (rcs ! i) = ob_Round oblk \<and> rc_TransactionIndex (rcs ! i) = word_of_nat i
      \<and> rc_BlockHash (rcs ! i) = Hash_Hex x (block_hash_of x oblk) \<and> rc_GasUsed (rcs ! i) = tg_used (d_gas d ! i)
      \<and> rc_CumulativeGasUsed (rcs ! i) = sum_list (map tg_used (take (Suc i) (d_gas d)))
      \<and> rc_EffectiveGasPrice (rcs ! i) = big_String (tg_effectivePrice (d_gas d ! i))"
    and "rc \<in> set rcs \<Longrightarrow> rc_Round rc = ob_Round oblk \<and> rc_Logs rc = filter (\<lambda>l. log_TxHash l = rc_TransactionHash rc) ls"
proof -
  obtain rest bl tls where ls: "ls = map (model_log x) (d_logs d)" and el: "tls = snd (ethToModelLogs x (d_logs d))"
    and ml: "models_loop x (Hash_Hex x (block_hash_of x oblk)) (ob_Round oblk) tls bl 0 0
       (d_ethTxs d) (d_status d) (d_gas d) (d_results d) = Ok (txs, rcs, rest)"
    using m d by (elim block_modelsE) auto
  note spec = models_loop_spec [OF ml, simplified]
  have "ethToModelLogs x (d_logs d) = (ls, tls)"
    using ethToModelLogs_logs [of x "d_logs d"] ls el by (cases "ethToModelLogs x (d_logs d)") simp
  note logs = ethToModelLogs_spec(2) [OF this]
  show "length rcs = length (d_ethTxs d)" using spec by blast
  show "rc_TransactionHash (rcs ! i) = Hash_Hex x (etx_Hash (d_ethTxs d ! i))
      \<and> rc_Status (rcs ! i) = ucast (d_status d ! i) \<and> rc_Round (rcs ! i) = ob_Round oblk \<and> rc_TransactionIndex (rcs ! i) = word_of_nat i
      \<and> rc_BlockHash (rcs ! i) = Hash_Hex x (block_hash_of x oblk) \<and> rc_GasUsed (rcs ! i) = tg_used (d_gas d ! i)
      \<and> rc_CumulativeGasUsed (rcs ! i) = sum_list (map tg_used (take (Suc i) (d_gas d)))
      \<and> rc_EffectiveGasPrice (rcs ! i) = big_String (tg_effectivePrice (d_gas d ! i))" if "i < length (d_ethTxs d)" for i
    using spec that by (auto simp: model_tx_def model_receipt_def Let_def)
  show "rc_Round rc = ob_Round oblk \<and> rc_Logs rc = filter (\<lambda>l. log_TxHash l = rc_TransactionHash rc) ls" if rc: "rc \<in> set rcs"
  proof -
    obtain k where "k < length (d_ethTxs d)" "rc = rcs ! k" using rc spec by (metis in_set_conv_nth)
    then show ?thesis using spec logs by (auto simp: model_tx_def model_receipt_def Let_def)
  qed
qed

text \<open>
  The receipt \<open>R\<close> is stored with its logs, and the cache has no other for its transaction. Rows that a failed duplicate of the
  transaction leaves in a later round are not its logs.
\<close>

definition receipt_settled :: "ext \<Rightarrow> Receipt \<Rightarrow> caching \<Rightarrow> bool" where
  "receipt_settled x R s \<longleftrightarrow> receipt_at (caching_tables s) (rc_TransactionHash R) = Some (receipt_row R)
     \<and> rc_Status R \<noteq> ReceiptStatusFailed x \<and> rc_Round R \<in> blk_Round ` set (blocks (caching_tables s))
     \<and> filter (\<lambda>l. log_TxHash l = rc_TransactionHash R \<and> log_Round l = rc_Round R) (logs (caching_tables s)) = rc_Logs R
     \<and> (\<forall>e. gm_load (receiptByTxHashHex (fst s)) (rc_TransactionHash R) = Some e \<longrightarrow> rce_receipt e = R)"

lemma same_caching_receipt: "same_caching s s' \<Longrightarrow> receipt_settled x R s' = receipt_settled x R s"
proof -
  assume "same_caching s s'"
  then have v: "cache_view (fst s') = cache_view (fst s)" and t: "caching_tables s' = caching_tables s"
    by (simp_all add: same_caching_def same_ib_def same_db_def)
  have "receiptByTxHashHex (cache_view c) = receiptByTxHashHex c" for c by (simp add: cache_view_def)
  then have "receiptByTxHashHex (fst s') = receiptByTxHashHex (fst s)" using v by metis
  with t show ?thesis by (simp add: receipt_settled_def)
qed

text \<open>A receipt that is cached after a block: one of the block, or an older one of a transaction the block has no receipt for.\<close>

lemma cached_receipt_after_insert:
  assumes "cache_sub c' (insert_block bd c)" and "gm_load (receiptByTxHashHex c') h = Some e"
  shows "rce_receipt e \<in> set (bd_Receipts bd) \<and> rc_TransactionHash (rce_receipt e) = h
    \<or> gm_load (receiptByTxHashHex c) h = Some e \<and> (\<forall>rc \<in> set (bd_Receipts bd). rc_TransactionHash rc \<noteq> h)"
proof -
  have l: "gm_load (receiptByTxHashHex (insert_block bd c)) h = Some e"
    using assms by (simp add: cache_sub_def del: insert_block_fields)
  show ?thesis
  proof (cases "find (\<lambda>rc. rc_TransactionHash rc = h) (rev (bd_Receipts bd))")
    case None
    with l show ?thesis by (auto simp: gm.load_fold_store find_None_iff)
  next
    case (Some rc)
    with l have "rce_receipt e = rc" by (auto simp: gm.load_fold_store)
    with find_rev_mem [OF Some] show ?thesis by simp
  qed
qed

lemma cb_Index_receipt:
  assumes syn: "synced x s" and R: "receipt_settled x R s" and "cb_Index x oblk items params rtInfo s = (r, s')"
  shows "receipt_settled x R s'"
  using syn assms(3)
proof (cases rule: cb_Index_cases)
  case refused
  then show ?thesis using R by (simp add: receipt_settled_def)
next
  case (stored blk txs rcs ls median bd)
  let ?h = "rc_TransactionHash R"
  obtain d where d: "decode_txs x oblk items = Ok d" using stored(1) by (elim block_modelsE)
  note r = block_models_rounds [OF stored(1)]
  have ne: "ob_Round oblk \<noteq> rc_Round R" using stored(3) R r(1) by (auto simp: receipt_settled_def)
  then have ls: "filter (\<lambda>l. log_TxHash l = ?h \<and> log_Round l = rc_Round R) ls = []" using r(2) by (auto simp: filter_empty_conv)
  have row: "receipt_at (caching_tables s') ?h = Some (receipt_row R)"
    using stored(5) R by (auto simp: receipt_settled_def tx_final_def rows_final_def)
  have "rce_receipt e = R" if e: "gm_load (receiptByTxHashHex (fst s')) ?h = Some e" for e
    using cached_receipt_after_insert [OF stored(9) e]
  proof
    assume new: "rce_receipt e \<in> set (bd_Receipts bd) \<and> rc_TransactionHash (rce_receipt e) = ?h"
    then have mem: "rce_receipt e \<in> set rcs" "rc_Status (rce_receipt e) \<noteq> ReceiptStatusFailed x"
      by (simp_all add: stored(4) unfailed_receipts_def)
    then have "recorded_receipt x (caching_tables s') (rce_receipt e)" using stored(2) by (simp add: block_stored_def)
    with mem row new have "receipt_row R = receipt_row (rce_receipt e)" by (simp add: recorded_receipt_def)
    then have "rc_Round R = rc_Round (rce_receipt e)" by (metis receipt_row_round)
    with block_models_receipt(3) [OF stored(1) d mem(1)] ne show ?thesis by simp
  qed (use R in \<open>simp add: receipt_settled_def\<close>)
  with R row ls stored(2) show ?thesis by (auto simp: receipt_settled_def block_stored_def)
qed

interpretation csr: step_invariant "cache_step x" "\<lambda>s. synced x s \<and> receipt_settled x R s" for x R
proof unfold_locales
  fix s l s' assume step: "cache_step x s l s'" and i: "synced x s \<and> receipt_settled x R s"
  then have "receipt_settled x R s'"
    by (cases l) (auto elim!: cs_IndexedE intro: cb_Index_receipt dest!: queried_same simp: same_caching_receipt)
  with i csi.inv_step [OF step] show "synced x s' \<and> receipt_settled x R s'" by simp
qed

lemma indexed_receipt_settled:
  assumes syn: "synced x s" and stored: "block_stored x (caching_tables s) blk txs rcs ls (caching_tables s')"
    and m: "block_models x oblk items params = Ok ((blk, txs, rcs, ls), median)"
    and sub: "cache_sub (fst s') (insert_block bd (fst s))" and bd: "bd_Receipts bd = unfailed_receipts x rcs"
    and new: "blk_Round blk \<notin> blk_Round ` set (blocks (caching_tables s))"
    and R: "R \<in> set rcs" "rc_Status R \<noteq> ReceiptStatusFailed x"
    and refs: "\<forall>l \<in> set (logs (caching_tables s)). log_Round l \<in> blk_Round ` set (blocks (caching_tables s))"
  shows "receipt_settled x R s'"
proof -
  let ?h = "rc_TransactionHash R"
  obtain d where d: "decode_txs x oblk items = Ok d" using m by (elim block_modelsE)
  note r = block_models_rounds [OF m] and rc = block_models_receipt(3) [OF m d]
  have rec: "receipt_at (caching_tables s') (rc_TransactionHash rc) = Some (receipt_row rc)"
    if "rc \<in> set rcs" "rc_Status rc \<noteq> ReceiptStatusFailed x" for rc
    using that stored by (auto simp: block_stored_def recorded_receipt_def)
  have "filter (\<lambda>l. log_TxHash l = ?h \<and> log_Round l = rc_Round R) (logs (caching_tables s)) = []"
    using refs new r(1) rc [OF R(1)] unfolding filter_empty_conv by metis
  moreover have "filter (\<lambda>l. log_TxHash l = ?h \<and> log_Round l = rc_Round R) ls = rc_Logs R"
    using rc [OF R(1)] r(2) by (auto intro!: filter_cong)
  moreover have "rce_receipt e = R" if e: "gm_load (receiptByTxHashHex (fst s')) ?h = Some e" for e
  proof -
    have e: "rce_receipt e \<in> set rcs" "rc_Status (rce_receipt e) \<noteq> ReceiptStatusFailed x" "rc_TransactionHash (rce_receipt e) = ?h"
      using cached_receipt_after_insert [OF sub e] R by (auto simp: bd unfailed_receipts_def)
    have "rc_Logs (rce_receipt e) = rc_Logs R" using rc [OF R(1)] rc [OF e(1)] e(3) by metis
    moreover have "receipt_row (rce_receipt e) = receipt_row R" using rec [OF R] rec [OF e(1,2)] e(3) by (metis option.inject)
    ultimately show ?thesis using receipt_row_eqD by blast
  qed
  ultimately show ?thesis using rec [OF R] R(2) rc [OF R(1)] r(1) stored
    by (auto simp: receipt_settled_def block_stored_def block_row_def)
qed

text \<open>What the API answers for a settled receipt: from the cache its logs in order, from the database in any order.\<close>

lemma settled_receipt_answer:
  assumes syn: "synced x (c, ib)" and R: "receipt_settled x R (c, ib)" and h: "rc_TransactionHash R = Hash_Hex x h"
    and perm: "\<forall>xs. mset (scan_logs (ib_storage ib) xs) = mset xs" and "st_backend a = (c, ib)"
    and api: "api_backend api = caching_ops x fuel env"
    and own: "\<forall>l \<in> set (rc_Logs R). log_Round l = rc_Round R"
  shows "\<exists>a' ls. api_GetTransactionReceipt api h a = Some (Ok (Some (db2EthReceipt x (R\<lparr>rc_Logs := ls\<rparr>))), a')
    \<and> mset (filter (\<lambda>l. log_Round l = rc_Round R) ls) = mset (rc_Logs R)"
proof -
  let ?h = "Hash_Hex x h" and ?db = "ib_storage ib"
  obtain res c1 where l: "cachedReceiptByTxHash x h c = (res, c1)" by (cases "cachedReceiptByTxHash x h c")
  have "\<exists>b ls. cb_GetTransactionReceipt x h (c, ib) = (Ok (db2EthReceipt x (R\<lparr>rc_Logs := ls\<rparr>)), b)
    \<and> mset (filter (\<lambda>l. log_Round l = rc_Round R) ls) = mset (rc_Logs R)"
  proof (cases res)
    case (Some rc)
    then have "rc = R" using l R h by (auto simp: cachedReceiptByTxHash_def receipt_settled_def split: option.splits)
    then show ?thesis using Some l own
      by (intro exI [of _ "(c1, ib)"] exI [of _ "rc_Logs R"]) (simp add: cb_GetTransactionReceipt_def or_inner_def filter_id_conv)
  next
    case None
    let ?ls = "filter (\<lambda>l. log_TxHash l = ?h) (logs (committed ?db))"
    have "receipt_at (committed ?db) ?h = Some (receipt_row R)" "faults ?db = []"
      using R syn h by (simp_all add: receipt_settled_def synced_def Let_def)
    then have "GetTransactionReceipt Pool ?h ?db = (Ok (R\<lparr>rc_Logs := scan_logs ?db ?ls\<rparr>), ?db)"
      using h by (simp add: GetTransactionReceipt_def query_row_def query_def statement_def next_fault_def visible_def ret_def receipt_row_def)
    moreover have "mset (filter (\<lambda>l. log_Round l = rc_Round R) (scan_logs ?db ?ls)) = mset (rc_Logs R)"
    proof -
      have "rc_Logs R = filter (\<lambda>l. log_Round l = rc_Round R) ?ls" using R h by (simp add: receipt_settled_def)
      then show ?thesis using perm by (metis mset_filter)
    qed
    ultimately show ?thesis using None l
      by (intro exI [of _ "(c1, ib)"] exI [of _ "scan_logs ?db ?ls"])
        (simp add: cb_GetTransactionReceipt_def or_inner_def on_inner_def ib_GetTransactionReceipt_def on_storage_def ret_def)
  qed
  then obtain b ls where "cb_GetTransactionReceipt x h (c, ib) = (Ok (db2EthReceipt x (R\<lparr>rc_Logs := ls\<rparr>)), b)"
    "mset (filter (\<lambda>l. log_Round l = rc_Round R) ls) = mset (rc_Logs R)" by blast
  then show ?thesis using assms(5)
    by (simp add: api_GetTransactionReceipt_def p_catch_def p_then_def on_be_def total_def api caching_ops_def p_ret_def) blast
qed

text \<open>The logs of an answered receipt are the emitted ones.\<close>

lemma eth_log_model_log: "hash_codec x \<Longrightarrow> addr_codec x \<Longrightarrow> eth_log_ok l \<Longrightarrow> eth_log x (model_log x l) = l"
  using DB2EthLogs_model_log [of x "[l]"] by (simp add: DB2EthLogs_def eth_log_def)

lemma answered_logs:
  assumes "hash_codec x" "addr_codec x" "\<forall>l \<in> set L. eth_log_ok l" "is_hash h"
    and "mset (filter (\<lambda>l. log_Round l = n) ls) = mset (filter (\<lambda>l. log_TxHash l = Hash_Hex x h) (map (model_log x) L))"
  shows "mset (filter (\<lambda>l. el_BlockNumber l = n) (map (eth_log x) ls)) = mset (filter (\<lambda>l. el_TxHash l = h) L)"
proof -
  have "Hash_Hex x (el_TxHash l) = Hash_Hex x h \<longleftrightarrow> el_TxHash l = h" if "l \<in> set L" for l
    using that assms(1,3,4) unfolding hash_codec_def eth_log_ok_def by metis
  then have h: "filter (\<lambda>l. log_TxHash l = Hash_Hex x h) (map (model_log x) L) = map (model_log x) (filter (\<lambda>l. el_TxHash l = h) L)"
    by (simp add: filter_map comp_def model_log_def cong: filter_cong)
  have "mset (filter (\<lambda>l. el_BlockNumber l = n) (map (eth_log x) ls)) = image_mset (eth_log x) (mset (filter (\<lambda>l. log_Round l = n) ls))"
    by (simp add: filter_map comp_def eth_log_def flip: mset_filter)
  also have "\<dots> = mset (map (eth_log x) (map (model_log x) (filter (\<lambda>l. el_TxHash l = h) L)))" unfolding assms(5) h by (simp only: mset_map)
  also have "map (eth_log x) (map (model_log x) (filter (\<lambda>l. el_TxHash l = h) L)) = filter (\<lambda>l. el_TxHash l = h) L"
    using assms(1-3) by (auto simp: eth_log_model_log intro!: map_idI)
  finally show ?thesis .
qed

subsection \<open>An example\<close>

lemma example_caching_index:
  "\<exists>b. cb_Index example_ext example_block [example_item [1] True] None None example_caching = (Ok (), b)"
proof -
  let ?ib = "SetObserver (NewCache None) (NewIndexBackend example_db None :: CachingBackend indexBackend)"
  obtain blk tx rc where m: "block_models example_ext example_block [example_item [1] True] None = Ok ((blk, [tx], [rc], []), Some 7)"
    and st: "tx_Status tx = 1" "rc_Status rc = 1"
    using example_block_models by blast
  obtain db' where db: "RunInTransaction Pool (store_models example_ext blk [tx] [rc] []) example_db = (Ok ([tx], [rc]), db')"
    using example_store [OF st] by blast
  have mx: "maxCacheSize (NewCache None) \<noteq> max_u64" by (simp add: NewCache_def)
  obtain c' where "OnBlockIndexed \<lparr>bd_Block = blk, bd_Receipts = [rc], bd_UniqueTxes = [tx], bd_Median = Some 7\<rparr> (NewCache None) = (Ok (), c')"
    by (rule on_block_indexed_cases [OF new_cache_ok _ mx]) simp
  with m db show ?thesis
    by (simp add: cb_Index_def Index_def StoreBlockData_def publish_def Let_def example_caching_def NewCachingBackend_def
        SetObserver_def NewIndexBackend_def)
qed

definition example_caching_api :: "caching publicAPI" where
  "example_caching_api = NewPublicAPI example_ext geth_tags example_node_api None 42261 (caching_ops example_ext 1 []) None"

definition example_log_api :: "caching publicAPI" where
  "example_log_api = example_caching_api\<lparr>api_ext := example_log_ext, api_backend := caching_ops example_log_ext 1 []\<rparr>"

lemma example_log_store:
  assumes "tx_Status tx = 1" "rc_Status rc = 1"
  shows "\<exists>db'. RunInTransaction Pool (store_models example_log_ext blk [tx] [rc] [l]) example_db = (Ok ([tx], [rc]), db') \<and> scan_logs db' = id"
proof -
  have f: "ReceiptStatusFailed example_log_ext = 0" by (simp add: example_log_ext_def example_ext_def)
  show ?thesis
    by (simp add: RunInTransaction_def example_db_def next_fault_def close_tx_def store_models_def store_tx_def
        store_receipt_def assms f GetTransaction_def query_row_def query_def statement_def visible_def empty_tables_def
        upsert_tx_def upsert_receipt_def insertSingle_def exec_stmt_def ret_def GetTransactionReceipt_def
        store_rest_def apply_stmt_def tbl_insert_def round_taken_def commit_tx_def tbl_insert_do_update_def)
qed

lemma example_log_models:
  "\<exists>d l blk tx rc m. decode_txs example_log_ext example_block [example_log_item [1]] = Ok d \<and> d_logs d = [l]
     \<and> length (d_ethTxs d) = 1 \<and> d_status d = [1] \<and> el_TxIndex l = 0 \<and> eth_log_ok l \<and> el_Address l = replicate 20 4 \<and> etx_Hash (d_ethTxs d ! 0) = replicate 32 1
     \<and> block_models example_log_ext example_block [example_log_item [1]] None = Ok ((blk, [tx], [rc], [model_log example_log_ext l]), m)
     \<and> tx_Status tx = 1 \<and> rc_Status rc = 1"
  by (simp add: block_models_def decode_txs_def decode_tx_def empty_decoded_def is_ethereum_tx_def example_item_def
      example_log_item_def example_log_ext_def example_ext_def example_etx_def event_step_def Logs2EthLogs_def eth_log_ok_def
      effective_price_def Let_def blockToModels_def ethToModelLogs_def model_tx_def model_receipt_def gas_limit_of_def
      min_gas_price_of_def example_block_def is_hash_def is_address_def)

lemma example_log_index:
  "\<exists>b d l. cb_Index example_log_ext example_block [example_log_item [1]] None None example_caching = (Ok (), b)
     \<and> decode_txs example_log_ext example_block [example_log_item [1]] = Ok d \<and> d_logs d = [l]
     \<and> length (d_ethTxs d) = 1 \<and> d_status d = [1] \<and> el_TxIndex l = 0 \<and> eth_log_ok l \<and> el_Address l = replicate 20 4 \<and> etx_Hash (d_ethTxs d ! 0) = replicate 32 1
     \<and> scan_logs (ib_storage (snd b)) = id"
proof -
  obtain d l blk tx rc m where d: "decode_txs example_log_ext example_block [example_log_item [1]] = Ok d \<and> d_logs d = [l]
     \<and> length (d_ethTxs d) = 1 \<and> d_status d = [1] \<and> el_TxIndex l = 0 \<and> eth_log_ok l \<and> el_Address l = replicate 20 4 \<and> etx_Hash (d_ethTxs d ! 0) = replicate 32 1"
    and m: "block_models example_log_ext example_block [example_log_item [1]] None = Ok ((blk, [tx], [rc], [model_log example_log_ext l]), m)"
    and st: "tx_Status tx = 1" "rc_Status rc = 1"
    using example_log_models by blast
  obtain db' where db: "RunInTransaction Pool (store_models example_log_ext blk [tx] [rc] [model_log example_log_ext l]) example_db = (Ok ([tx], [rc]), db')"
    and sc: "scan_logs db' = id"
    using example_log_store [OF st] by blast
  have mx: "maxCacheSize (NewCache None) \<noteq> max_u64" by (simp add: NewCache_def)
  obtain c' where "OnBlockIndexed \<lparr>bd_Block = blk, bd_Receipts = [rc], bd_UniqueTxes = [tx], bd_Median = m\<rparr> (NewCache None) = (Ok (), c')"
    by (rule on_block_indexed_cases [OF new_cache_ok _ mx]) simp
  with m db sc have "\<exists>b. cb_Index example_log_ext example_block [example_log_item [1]] None None example_caching = (Ok (), b)
      \<and> scan_logs (ib_storage (snd b)) = id"
    by (simp add: cb_Index_def Index_def StoreBlockData_def publish_def Let_def example_caching_def NewCachingBackend_def
        SetObserver_def NewIndexBackend_def)
  with d show ?thesis by blast
qed

end
