(* ===== verification/Cache_Concurrent.thy ===== *)
theory Cache_Concurrent
  imports Cache_Service
begin

text \<open>
  The caching backend (\<^verbatim>\<open>indexer/backend_cache.go\<close>) under concurrency: the goroutine of the indexer inserts a block into the cache and evicts
  old ones by many small writes to concurrent maps, while lookups run beside it. A lookup first loads from the cache and, on a
  miss, asks the database later. Shown: whatever the interleaving, a lookup answers with what the database held at some moment
  between its call and its return.
\<close>

subsection \<open>The writes of the indexer\<close>

text \<open>One operation on one \<open>sync.Map\<close> or counter. Only one goroutine writes, so a load and the delete that follows it are one write.\<close>

datatype cache_write =
    StoreBlockData_w BlockData
  | StoreBlockHash_w Block
  | StoreLogs_w u64 "Receipt list"
  | StoreTx_w u64 Transaction
  | StoreReceipt_w u64 Receipt
  | Inc_w
  | LastIndexed_w u64
  | DropTx_w u64 string
  | DropReceipt_w u64 string
  | DropBlockHash_w string
  | DropLogs_w u64
  | DropBlockData_w u64
  | Dec_w

fun apply_write :: "cache_write \<Rightarrow> CachingBackend \<Rightarrow> CachingBackend" where
  "apply_write (StoreBlockData_w bd) c = c\<lparr>blockDataByNumber := gm_store (blk_Round (bd_Block bd)) bd (blockDataByNumber c)\<rparr>"
| "apply_write (StoreBlockHash_w b) c = c\<lparr>blockByHashHex := gm_store (blk_Hash b) b (blockByHashHex c)\<rparr>"
| "apply_write (StoreLogs_w n rcs) c = cacheLogsByBlockNumber n rcs c"
| "apply_write (StoreTx_w n tx) c = cacheTxes n [tx] c"
| "apply_write (StoreReceipt_w n rc) c = cacheReceipts n [rc] c"
| "apply_write Inc_w c = c\<lparr>cacheSize := cacheSize c + 1\<rparr>"
| "apply_write (LastIndexed_w n) c = (if lastIndexedRound c < n then c\<lparr>lastIndexedRound := n\<rparr> else c)"
| "apply_write (DropTx_w n h) c = c\<lparr>txByHashHex := (case gm_load (txByHashHex c) h of
       Some e \<Rightarrow> if tce_blockNumber e = n then gm_delete h (txByHashHex c) else txByHashHex c | None \<Rightarrow> txByHashHex c)\<rparr>"
| "apply_write (DropReceipt_w n h) c = c\<lparr>receiptByTxHashHex := (case gm_load (receiptByTxHashHex c) h of
       Some e \<Rightarrow> if rce_blockNumber e = n then gm_delete h (receiptByTxHashHex c) else receiptByTxHashHex c
     | None \<Rightarrow> receiptByTxHashHex c)\<rparr>"
| "apply_write (DropBlockHash_w h) c = c\<lparr>blockByHashHex := gm_delete h (blockByHashHex c)\<rparr>"
| "apply_write (DropLogs_w n) c = c\<lparr>logsByBlockNumber := gm_delete n (logsByBlockNumber c)\<rparr>"
| "apply_write (DropBlockData_w n) c = c\<lparr>blockDataByNumber := gm_delete n (blockDataByNumber c)\<rparr>"
| "apply_write Dec_w c = c\<lparr>cacheSize := cacheSize c - 1\<rparr>"

definition insert_writes :: "BlockData \<Rightarrow> cache_write list" where
  "insert_writes bd = (let n = blk_Round (bd_Block bd) in
     [StoreBlockData_w bd, StoreBlockHash_w (bd_Block bd), StoreLogs_w n (bd_Receipts bd)]
     @ map (StoreTx_w n) (bd_UniqueTxes bd) @ map (StoreReceipt_w n) (bd_Receipts bd) @ [Inc_w, LastIndexed_w n])"

definition prune_writes :: "u64 \<Rightarrow> BlockData \<Rightarrow> cache_write list" where
  "prune_writes n bd = map (\<lambda>tx. DropTx_w n (tx_Hash tx)) (bd_UniqueTxes bd)
     @ map (\<lambda>rc. DropReceipt_w n (rc_TransactionHash rc)) (bd_Receipts bd)
     @ [DropBlockHash_w (blk_Hash (bd_Block bd)), DropLogs_w (blk_Round (bd_Block bd)), DropBlockData_w n, Dec_w]"

abbreviation run_writes :: "cache_write list \<Rightarrow> CachingBackend \<Rightarrow> CachingBackend" where
  "run_writes ws c \<equiv> fold apply_write ws c"

text \<open>The loop over the cached rounds; the writer sees its own writes.\<close>

fun eviction_writes :: "u64 list \<Rightarrow> CachingBackend \<Rightarrow> cache_write list" where
  "eviction_writes [] c = []"
| "eviction_writes (n # ns) c =
     (let ws = (case cachedBlockDataByNumber n c of None \<Rightarrow> [] | Some bd \<Rightarrow> prune_writes n bd); c' = run_writes ws c
      in ws @ (if cacheSize c' \<le> maxCacheSize c' then [] else eviction_writes ns c'))"

definition on_block_writes :: "BlockData \<Rightarrow> CachingBackend \<Rightarrow> cache_write list" where
  "on_block_writes bd c =
     (let c' = run_writes (insert_writes bd) c in
      insert_writes bd @ (if maxCacheSize c' < cacheSize c' then eviction_writes (sort (gm_keys (blockDataByNumber c'))) c' else []))"

subsection \<open>The writes are those of the handler\<close>

lemma run_StoreTx: "run_writes (map (StoreTx_w n) txs) c = cacheTxes n txs c"
  by (induction txs arbitrary: c) (simp_all add: cacheTxes_def)

lemma run_StoreReceipt: "run_writes (map (StoreReceipt_w n) rcs) c = cacheReceipts n rcs c"
  by (induction rcs arbitrary: c) (simp_all add: cacheReceipts_def)

lemma run_insert_writes: "run_writes (insert_writes bd) c = insert_block bd c"
  by (simp add: insert_writes_def insert_block_def Let_def run_StoreTx run_StoreReceipt)

lemma run_DropTx: "run_writes (map (\<lambda>tx. DropTx_w n (tx_Hash tx)) txs) c = c\<lparr>txByHashHex :=
    fold (\<lambda>tx m. case gm_load m (tx_Hash tx) of Some e \<Rightarrow> if tce_blockNumber e = n then gm_delete (tx_Hash tx) m else m | None \<Rightarrow> m)
      txs (txByHashHex c)\<rparr>"
  by (induction txs arbitrary: c) simp_all

lemma run_DropReceipt: "run_writes (map (\<lambda>rc. DropReceipt_w n (rc_TransactionHash rc)) rcs) c = c\<lparr>receiptByTxHashHex :=
    fold (\<lambda>rc m. case gm_load m (rc_TransactionHash rc) of Some e \<Rightarrow> if rce_blockNumber e = n then gm_delete (rc_TransactionHash rc) m else m
      | None \<Rightarrow> m) rcs (receiptByTxHashHex c)\<rparr>"
  by (induction rcs arbitrary: c) simp_all

lemma run_prune_writes:
  "pruneCache n c = (Ok (), c') \<Longrightarrow> run_writes (case cachedBlockDataByNumber n c of None \<Rightarrow> [] | Some bd \<Rightarrow> prune_writes n bd) c = c'"
  by (auto simp: pruneCache_def prune_writes_def run_DropTx run_DropReceipt split: option.splits if_splits)

lemma run_eviction_writes: "prune_rounds ns c = (Ok (), c') \<Longrightarrow> run_writes (eviction_writes ns c) c = c'"
proof (induction ns arbitrary: c)
  case (Cons n ns)
  obtain r c1 where p: "pruneCache n c = (r, c1)" by (cases "pruneCache n c")
  with Cons.prems have "r = Ok ()" by (cases r) auto
  with p have run: "run_writes (case cachedBlockDataByNumber n c of None \<Rightarrow> [] | Some bd \<Rightarrow> prune_writes n bd) c = c1"
    by (simp add: run_prune_writes)
  show ?case using Cons p \<open>r = Ok ()\<close> by (auto simp: run Let_def split: if_splits)
qed simp

lemma run_on_block_writes: "OnBlockIndexed bd c = (Ok (), c') \<Longrightarrow> run_writes (on_block_writes bd c) c = c'"
  by (auto simp: OnBlockIndexed_def on_block_writes_def run_insert_writes run_eviction_writes Let_def split: if_splits)

subsection \<open>Every moment of an insertion agrees with the database\<close>

fun write_ok :: "ext \<Rightarrow> tables \<Rightarrow> cache_write \<Rightarrow> bool" where
  "write_ok x t (StoreTx_w n tx) \<longleftrightarrow> tx_at t (tx_Hash tx) = Some tx \<and> tx_Status tx \<noteq> ReceiptStatusFailed x"
| "write_ok x t (LastIndexed_w n) \<longleftrightarrow> n \<in> blk_Round ` set (blocks t)"
| "write_ok x t _ \<longleftrightarrow> True"

lemma write_coherent: "coherent x c t \<Longrightarrow> write_ok x t w \<Longrightarrow> coherent x (apply_write w c) t"
  by (cases w) (auto simp: coherent_def cacheTxes_def cacheReceipts_def cacheLogsByBlockNumber_def split: option.splits if_splits)

text \<open>The round announced as the latest is stored.\<close>

definition announced :: "CachingBackend \<Rightarrow> tables \<Rightarrow> bool" where
  "announced c t \<longleftrightarrow> lastIndexedRound c = 0 \<or> lastIndexedRound c \<in> blk_Round ` set (blocks t)"

lemma write_announced: "announced c t \<Longrightarrow> write_ok x t w \<Longrightarrow> announced (apply_write w c) t"
  by (cases w) (auto simp: announced_def cacheTxes_def cacheReceipts_def cacheLogsByBlockNumber_def)

lemma eviction_writes_ok: "w \<in> set (eviction_writes ns c) \<Longrightarrow> write_ok x t w"
  by (induction ns c rule: eviction_writes.induct) (auto simp: Let_def prune_writes_def split: option.splits if_splits)

lemma on_block_writes_ok:
  assumes "\<forall>tx \<in> set (bd_UniqueTxes bd). tx_at t (tx_Hash tx) = Some tx \<and> tx_Status tx \<noteq> ReceiptStatusFailed x"
    and "blk_Round (bd_Block bd) \<in> blk_Round ` set (blocks t)" and "w \<in> set (on_block_writes bd c)"
  shows "write_ok x t w"
  using assms by (auto simp: on_block_writes_def insert_writes_def Let_def eviction_writes_ok split: if_splits)

subsection \<open>Lookups beside the indexer\<close>

text \<open>
  A lookup of a transaction: its hash, how far it got, and the contents the database has had since it was called, which only the
  theorem uses.
\<close>

datatype lookup_pc = Called | Missed | Answered "Transaction outcome"

record lookup =
  lk_hash :: bytes
  lk_pc :: lookup_pc
  lk_seen :: "tables list"

record conc =
  cn_db :: pgdb
  cn_cache :: CachingBackend
  cn_pending :: "cache_write list"
  cn_lookups :: "lookup list"

definition see :: "tables \<Rightarrow> lookup \<Rightarrow> lookup" where
  "see t lk = (case lk_pc lk of Answered r \<Rightarrow> lk | _ \<Rightarrow> lk\<lparr>lk_seen := lk_seen lk @ [t]\<rparr>)"

datatype conc_label = Commit | Refuse | Write | Call | Load nat | Ask nat

inductive conc_step :: "ext \<Rightarrow> conc \<Rightarrow> conc_label \<Rightarrow> conc \<Rightarrow> bool" for x where
  cn_commit: "cn_pending s = [] \<Longrightarrow> block_models x oblk items params = Ok ((blk, txs, rcs, ls), median) \<Longrightarrow>
     RunInTransaction Pool (store_models x blk txs rcs ls) (cn_db s) = (Ok (utxs, urcs), db') \<Longrightarrow>
     conc_step x s Commit (s\<lparr>cn_db := db', cn_lookups := map (see (committed db')) (cn_lookups s),
       cn_pending := on_block_writes \<lparr>bd_Block = blk, bd_Receipts = urcs, bd_UniqueTxes = utxs, bd_Median = median\<rparr> (cn_cache s)\<rparr>)"
| cn_refuse: "cn_pending s = [] \<Longrightarrow> block_models x oblk items params = Ok ((blk, txs, rcs, ls), median) \<Longrightarrow>
     RunInTransaction Pool (store_models x blk txs rcs ls) (cn_db s) = (Err e, db') \<Longrightarrow>
     conc_step x s Refuse (s\<lparr>cn_db := db'\<rparr>)"
| cn_write: "cn_pending s = w # ws \<Longrightarrow> conc_step x s Write (s\<lparr>cn_cache := apply_write w (cn_cache s), cn_pending := ws\<rparr>)"
| cn_call: "conc_step x s Call (s\<lparr>cn_lookups := cn_lookups s @
     [\<lparr>lk_hash = h, lk_pc = Called, lk_seen = [committed (cn_db s)]\<rparr>]\<rparr>)"
| cn_load: "i < length (cn_lookups s) \<Longrightarrow> cn_lookups s ! i = lk \<Longrightarrow> lk_pc lk = Called \<Longrightarrow>
     cachedTxByHash x (lk_hash lk) (cn_cache s) = (res, c') \<Longrightarrow>
     conc_step x s (Load i) (s\<lparr>cn_cache := c', cn_lookups := (cn_lookups s)[i := lk\<lparr>lk_pc :=
       (case res of Some tx \<Rightarrow> Answered (Ok tx) | None \<Rightarrow> Missed)\<rparr>]\<rparr>)"
| cn_ask: "i < length (cn_lookups s) \<Longrightarrow> cn_lookups s ! i = lk \<Longrightarrow> lk_pc lk = Missed \<Longrightarrow>
     GetTransaction Pool (Hash_Hex x (lk_hash lk)) (cn_db s) = (r, db') \<Longrightarrow>
     conc_step x s (Ask i) (s\<lparr>cn_db := db', cn_lookups := (cn_lookups s)[i := lk\<lparr>lk_pc := Answered r\<rparr>]\<rparr>)"

inductive_cases conc_stepE: "conc_step x s l s'"

definition conc_start :: "pgdb \<Rightarrow> CacheConfig option \<Rightarrow> conc" where
  "conc_start db cfg = \<lparr>cn_db = db, cn_cache = NewCache cfg, cn_pending = [], cn_lookups = []\<rparr>"

text \<open>What the database answers.\<close>

definition db_answer :: "ext \<Rightarrow> bytes \<Rightarrow> tables \<Rightarrow> Transaction outcome" where
  "db_answer x h t = (case tx_at t (Hash_Hex x h) of Some tx \<Rightarrow> Ok tx | None \<Rightarrow> Err ErrNoRows)"

definition lookup_ok :: "ext \<Rightarrow> tables \<Rightarrow> lookup \<Rightarrow> bool" where
  "lookup_ok x t lk \<longleftrightarrow> (case lk_pc lk of
       Answered r \<Rightarrow> \<exists>t' \<in> set (lk_seen lk). r = db_answer x (lk_hash lk) t'
     | _ \<Rightarrow> t \<in> set (lk_seen lk))"

text \<open>The cache as it will be when the writer is done, together with the database.\<close>

definition finished :: "conc \<Rightarrow> caching" where
  "finished s = (run_writes (cn_pending s) (cn_cache s), NewIndexBackend (cn_db s) None)"

definition conc_inv :: "ext \<Rightarrow> conc \<Rightarrow> bool" where
  "conc_inv x s \<longleftrightarrow> synced x (finished s) \<and> coherent x (cn_cache s) (committed (cn_db s)) \<and> announced (cn_cache s) (committed (cn_db s))
     \<and> (\<forall>w \<in> set (cn_pending s). write_ok x (committed (cn_db s)) w)
     \<and> (\<forall>lk \<in> set (cn_lookups s). lookup_ok x (committed (cn_db s)) lk)"

text \<open>Counting hits and misses commutes with the writes.\<close>

lemma write_metrics: "apply_write w (c\<lparr>metricsTxCache := m\<rparr>) = (apply_write w c)\<lparr>metricsTxCache := m\<rparr>"
  by (cases w) (simp_all add: cacheTxes_def cacheReceipts_def cacheLogsByBlockNumber_def split: option.split)

lemma run_metrics: "run_writes ws (c\<lparr>metricsTxCache := m\<rparr>) = (run_writes ws c)\<lparr>metricsTxCache := m\<rparr>"
  by (induction ws arbitrary: c) (simp_all add: write_metrics)

lemma cachedTxByHash_metrics: "\<exists>m. snd (cachedTxByHash x h c) = c\<lparr>metricsTxCache := m\<rparr>"
  by (rule exI [of _ "if trackMetrics c then (if gm_load (txByHashHex c) (Hash_Hex x h) = None then OnMiss else OnHit) (metricsTxCache c)
      else metricsTxCache c"]) (simp add: cachedTxByHash_def split: option.split)

lemma synced_metrics: "synced x (c\<lparr>metricsTxCache := m\<rparr>, ib) = synced x (c, ib)"
  using synced_view [of x c ib] synced_view [of x "c\<lparr>metricsTxCache := m\<rparr>" ib] by (simp add: cache_view_def)

text \<open>Committing a block: the writes that follow are those of its handler, and each of them is right.\<close>

lemma commit_writes:
  assumes syn: "synced x (c, NewIndexBackend db None)" and m: "block_models x oblk items params = Ok ((blk, txs, rcs, ls), median)"
    and rt: "RunInTransaction Pool (store_models x blk txs rcs ls) db = (Ok (utxs, urcs), db')"
    and bd: "bd = \<lparr>bd_Block = blk, bd_Receipts = urcs, bd_UniqueTxes = utxs, bd_Median = median\<rparr>"
  shows "synced x (run_writes (on_block_writes bd c) c, NewIndexBackend db' None)" "tx_final x (committed db) (committed db')"
    "\<forall>w \<in> set (on_block_writes bd c). write_ok x (committed db') w" "announced c (committed db) \<Longrightarrow> announced c (committed db')"
proof -
  let ?ib = "SetObserver c (NewIndexBackend db None :: CachingBackend indexBackend)"
  have ok: "tables_ok (committed db)" "faults db = []" and cok: "cache_ok c" and mx: "maxCacheSize c \<noteq> max_u64"
    and rs: "cached_rounds c \<subseteq> blk_Round ` set (blocks (committed db))"
    using syn by (simp_all add: synced_def NewIndexBackend_def Let_def)
  note st = store_models_committed [OF ok rt]
  show "tx_final x (committed db) (committed db')" using store_models_committed_final [OF ok(1) rt] by simp
  have "\<forall>tx \<in> set (bd_UniqueTxes bd). tx_at (committed db') (tx_Hash tx) = Some tx \<and> tx_Status tx \<noteq> ReceiptStatusFailed x"
    using st by (auto simp: bd unfailed_txs_def block_stored_def recorded_tx_def)
  moreover have blks: "blocks (committed db') = blocks (committed db) @ [block_row blk]" using st by (simp add: block_stored_def)
  then have "blk_Round (bd_Block bd) \<in> blk_Round ` set (blocks (committed db'))" by (simp add: bd block_row_def)
  ultimately show "\<forall>w \<in> set (on_block_writes bd c). write_ok x (committed db') w" using on_block_writes_ok by blast
  show "announced c (committed db) \<Longrightarrow> announced c (committed db')" using blks by (auto simp: announced_def)
  have new: "blk_Round (bd_Block bd) \<notin> cached_rounds c" using st rs bd by auto
  obtain c' where oi: "OnBlockIndexed bd c = (Ok (), c')" by (rule on_block_indexed_cases [OF cok new mx])
  then have run: "run_writes (on_block_writes bd c) c = c'" by (rule run_on_block_writes)
  obtain ib' where "cb_Index x oblk items params None (c, NewIndexBackend db None) = (Ok (), (c', ib'))" "ib_storage ib' = db'"
    using m rt oi bd by (auto simp: cb_Index_def Index_def StoreBlockData_def publish_def SetObserver_def NewIndexBackend_def Let_def)
  with cb_Index_synced [OF syn] show "synced x (run_writes (on_block_writes bd c) c, NewIndexBackend db' None)"
    unfolding run by (auto simp: synced_def NewIndexBackend_def)
qed

lemma lookup_ok_see: "lookup_ok x t lk \<Longrightarrow> lookup_ok x t' (see t' lk)"
  by (auto simp: lookup_ok_def see_def split: lookup_pc.split)

lemma finished_db: "synced x (finished s) \<Longrightarrow> tables_ok (committed (cn_db s)) \<and> faults (cn_db s) = []"
  by (simp add: finished_def synced_def NewIndexBackend_def Let_def)

lemma synced_db:
  assumes "synced x (c, NewIndexBackend db None)" and "committed db' = committed db" and "faults db' = []"
  shows "synced x (c, NewIndexBackend db' None)"
  by (rule synced_same_tables [OF assms(1)]) (simp_all add: NewIndexBackend_def assms)

lemma GetTransaction_answer:
  assumes "faults db = []" and "GetTransaction Pool (Hash_Hex x h) db = (r, db')"
  shows "r = db_answer x h (committed db)" "committed db' = committed db" "faults db' = []"
  using assms by (auto simp: GetTransaction_def query_row_def query_def statement_def next_fault_def visible_def db_answer_def ret_def
      split: option.splits)

lemma set_update_cases: "y \<in> set (xs[i := v]) \<Longrightarrow> y = v \<or> y \<in> set xs"
  using set_update_subset_insert by fastforce

interpretation cni: step_invariant "conc_step x" "conc_inv x" for x
proof unfold_locales
  fix s l s' assume step: "conc_step x s l s'" and inv: "conc_inv x s"
  note i = inv [unfolded conc_inv_def]
  have syn: "synced x (finished s)" and coh: "coherent x (cn_cache s) (committed (cn_db s))"
    and ann: "announced (cn_cache s) (committed (cn_db s))"
    and lks: "\<And>lk. lk \<in> set (cn_lookups s) \<Longrightarrow> lookup_ok x (committed (cn_db s)) lk"
    using i by blast+
  have db: "tables_ok (committed (cn_db s))" "faults (cn_db s) = []" using finished_db [OF syn] by simp_all
  from step show "conc_inv x s'"
  proof (cases rule: conc_stepE [consumes 1, case_names commit refuse writes calls loads asks])
    case (commit oblk items params blk txs rcs ls median utxs urcs db')
    have "synced x (cn_cache s, NewIndexBackend (cn_db s) None)" using syn commit(3) by (simp add: finished_def)
    note cw = commit_writes [OF this commit(4,5) refl]
    show ?thesis
      using cw(1,3) cw(4) [OF ann] coherent_final [OF coh cw(2)] lookup_ok_see [OF lks] by (auto simp: conc_inv_def commit(2) finished_def)
  next
    case (refuse oblk items params blk txs rcs ls median e db')
    have "committed db' = committed (cn_db s)" using store_models_run [OF db(1) refuse(5)] by blast
    moreover have "faults db' = []" using calmD [OF RunInTransaction_calm [OF calm_store_models] db(2) refuse(5)] .
    ultimately show ?thesis using i synced_db [of x _ "cn_db s" db'] by (simp add: conc_inv_def refuse(2) finished_def)
  next
    case (writes w ws)
    then show ?thesis using i write_coherent [OF coh] write_announced [OF ann, of x w] by (simp add: conc_inv_def finished_def)
  next
    case (calls h)
    then show ?thesis using i by (auto simp: conc_inv_def finished_def lookup_ok_def)
  next
    case (loads k res c')
    let ?lk = "cn_lookups s ! k"
    obtain m where c': "c' = (cn_cache s)\<lparr>metricsTxCache := m\<rparr>"
      using cachedTxByHash_metrics [of x "lk_hash ?lk" "cn_cache s"] loads(5) by auto
    have t: "committed (cn_db s) \<in> set (lk_seen ?lk)" using lks [OF nth_mem [OF loads(3)]] loads(4) by (simp add: lookup_ok_def)
    have "db_answer x (lk_hash ?lk) (committed (cn_db s)) = Ok tx" if "res = Some tx" for tx
      using that loads(5) fst_cachedTxByHash [of x "lk_hash ?lk" "cn_cache s"] coh
      by (auto simp: coherent_def db_answer_def map_option_case split: option.splits)
    with t have new: "lookup_ok x (committed (cn_db s)) (?lk\<lparr>lk_pc := (case res of Some tx \<Rightarrow> Answered (Ok tx) | None \<Rightarrow> Missed)\<rparr>)"
      by (auto simp: lookup_ok_def split: option.split intro!: bexI [of _ "committed (cn_db s)"])
    have "coherent x c' (committed (cn_db s))" "announced c' (committed (cn_db s))" using coh ann by (simp_all add: c' coherent_def announced_def)
    moreover have "synced x (run_writes (cn_pending s) c', NewIndexBackend (cn_db s) None)"
      using syn by (simp add: c' run_metrics synced_metrics finished_def)
    ultimately show ?thesis using i new by (auto simp: conc_inv_def loads(2) finished_def dest!: set_update_cases)
  next
    case (asks k r db')
    let ?lk = "cn_lookups s ! k"
    note g = GetTransaction_answer [OF db(2) asks(5)]
    have "lookup_ok x (committed (cn_db s)) (?lk\<lparr>lk_pc := Answered r\<rparr>)"
      using lks [OF nth_mem [OF asks(3)]] asks(4) g(1) by (auto simp: lookup_ok_def)
    then show ?thesis using i g synced_db [of x _ "cn_db s" db'] by (auto simp: conc_inv_def asks(2) finished_def dest!: set_update_cases)
  qed
qed

lemma conc_start_inv:
  assumes "tables_ok (committed db)" and "faults db = []" and "maxCacheSize (NewCache cfg) \<noteq> max_u64"
  shows "conc_inv x (conc_start db cfg)"
  using NewCachingBackend_synced [of "NewIndexBackend db None" cfg x] assms
  by (simp add: conc_inv_def conc_start_def finished_def NewCachingBackend_def SetObserver_def NewIndexBackend_def synced_def Let_def
      announced_def) (simp add: NewCache_def Let_def)


text \<open>A lookup that is called before a block and misses the cache after it.\<close>

lemma example_conc:
  "\<exists>s lk. reach (conc_step example_ext) (conc_start example_db None) s \<and> lk \<in> set (cn_lookups s) \<and> lk_hash lk = replicate 32 1
     \<and> (\<exists>r. lk_pc lk = Answered r) \<and> length (lk_seen lk) = 2"
proof -
  obtain blk tx rc where m: "block_models example_ext example_block [example_item [1] True] None = Ok ((blk, [tx], [rc], []), Some 7)"
    and st: "tx_Status tx = 1" "rc_Status rc = 1"
    using example_block_models by blast
  obtain db' where rt: "RunInTransaction Pool (store_models example_ext blk [tx] [rc] []) example_db = (Ok ([tx], [rc]), db')"
    using example_store [OF st] by blast
  let ?l0 = "\<lparr>lk_hash = replicate 32 1, lk_pc = Called, lk_seen = [committed example_db]\<rparr>"
  let ?s0 = "conc_start example_db None" and ?c = "NewCache None"
  let ?s1 = "?s0\<lparr>cn_lookups := [?l0]\<rparr>"
  let ?l1 = "?l0\<lparr>lk_seen := [committed example_db, committed db']\<rparr>"
  let ?s2 = "?s1\<lparr>cn_db := db', cn_lookups := [?l1], cn_pending :=
     on_block_writes \<lparr>bd_Block = blk, bd_Receipts = [rc], bd_UniqueTxes = [tx], bd_Median = Some 7\<rparr> ?c\<rparr>"
  have 1: "conc_step example_ext ?s0 Call ?s1"
    using cn_call [of example_ext ?s0 "replicate 32 1"] by (simp add: conc_start_def)
  have 2: "conc_step example_ext ?s1 Commit ?s2"
    using cn_commit [of ?s1 example_ext, OF _ m] rt by (simp add: conc_start_def see_def)
  obtain res c' where l: "cachedTxByHash example_ext (replicate 32 1) ?c = (res, c')"
    by (cases "cachedTxByHash example_ext (replicate 32 1) ?c")
  have "res = None" using l fst_cachedTxByHash [of example_ext "replicate 32 1" ?c] by (simp add: NewCache_def Let_def)
  then have 3: "conc_step example_ext ?s2 (Load 0) (?s2\<lparr>cn_cache := c', cn_lookups := [?l1\<lparr>lk_pc := Missed\<rparr>]\<rparr>)"
    using cn_load [of 0 ?s2 ?l1 example_ext res c'] l by (simp add: conc_start_def)
  let ?s3 = "?s2\<lparr>cn_cache := c', cn_lookups := [?l1\<lparr>lk_pc := Missed\<rparr>]\<rparr>"
  obtain r db2 where g: "GetTransaction Pool (Hash_Hex example_ext (replicate 32 1)) db' = (r, db2)"
    by (cases "GetTransaction Pool (Hash_Hex example_ext (replicate 32 1)) db'")
  let ?s4 = "?s3\<lparr>cn_db := db2, cn_lookups := [?l1\<lparr>lk_pc := Answered r\<rparr>]\<rparr>"
  have 4: "conc_step example_ext ?s3 (Ask 0) ?s4"
    using cn_ask [of 0 ?s3 "?l1\<lparr>lk_pc := Missed\<rparr>" example_ext r db2] g by simp
  have "reach (conc_step example_ext) ?s0 ?s4"
    by (rule Step_Systems.reach_step [where step = "conc_step example_ext",
        OF Step_Systems.reach_step [where step = "conc_step example_ext", OF Step_Systems.reach_step [where step = "conc_step example_ext",
        OF reach_one [where step = "conc_step example_ext", OF 1] 2] 3] 4])
  then show ?thesis by (intro exI [of _ ?s4] exI [of _ "?l1\<lparr>lk_pc := Answered r\<rparr>"]) simp
qed


end
